(* ===== verification/Prelude.thy ===== *)
theory Prelude
  imports Main "HOL-Library.Word" "HOL-Library.AList" "HOL-Library.Multiset"
begin

text \<open>
  What the components share: the fixed-width integers of Go, Go's \<open>map\<close> type as an association
  list with distinct keys, error results, decimal numerals, big-endian bytes and the
  register-once interface that the plugin registry and the kind tables of the engine have in
  common.
\<close>

section \<open>Named collections\<close>

named_theorems go_map_simps \<open>equations for reads after writes of Go maps\<close>
named_theorems inv_rules \<open>preservation facts of component invariants\<close>

section \<open>Machine integers\<close>

type_synonym u8 = "8 word"
type_synonym u16 = "16 word"
type_synonym u32 = "32 word"
type_synonym u64 = "64 word"
type_synonym byte = "8 word"

section \<open>Go maps\<close>

text \<open>
  A Go \<open>map[K]V\<close> is an association list whose keys are distinct. Reading is \<^const>\<open>map_of\<close>,
  \<open>m[k] = v\<close> is \<^const>\<open>AList.update\<close>, \<open>delete(m, k)\<close> is \<^const>\<open>AList.delete\<close> and
  \<open>range m\<close> visits the list from left to right. Go leaves the order of \<open>range\<close> open, so no
  invariant of the development mentions the order of the list, and the step relations let the
  runtime permute it.
\<close>

type_synonym ('k, 'v) gomap = "('k \<times> 'v) list"

definition gomap_ok :: "('k, 'v) gomap \<Rightarrow> bool" where
  "gomap_ok m \<longleftrightarrow> distinct (map fst m)"

lemma gomap_ok_Nil [simp]: "gomap_ok []"
  by (simp add: gomap_ok_def)

lemma gomap_ok_update [simp, intro]: "gomap_ok m \<Longrightarrow> gomap_ok (AList.update k v m)"
  by (simp add: gomap_ok_def distinct_update)

lemma gomap_ok_delete [simp, intro]: "gomap_ok m \<Longrightarrow> gomap_ok (AList.delete k m)"
  by (simp add: gomap_ok_def distinct_delete)

lemma map_of_gomap_update [simp, go_map_simps]:
  "map_of (AList.update k v m) k' = (if k' = k then Some v else map_of m k')"
  by (simp add: update_conv)

lemma map_of_gomap_delete [simp, go_map_simps]:
  "map_of (AList.delete k m) k' = (if k' = k then None else map_of m k')"
  by (simp add: delete_conv)

lemma gomap_mem_iff: "gomap_ok m \<Longrightarrow> (k, v) \<in> set m \<longleftrightarrow> map_of m k = Some v"
  by (simp add: gomap_ok_def)

lemma gomap_values_iff:
  "gomap_ok m \<Longrightarrow> v \<in> set (map snd m) \<longleftrightarrow> (\<exists>k. map_of m k = Some v)"
  by (auto simp: gomap_mem_iff image_iff) (metis map_of_SomeD snd_conv)

lemma gomap_perm_lookup:
  assumes "gomap_ok m" and "mset m' = mset m"
  shows "gomap_ok m' \<and> map_of m' = map_of m"
proof
  have "mset (map fst m') = mset (map fst m)"
    using assms(2) by (metis mset_map)
  then show ok: "gomap_ok m'"
    using assms(1) by (metis gomap_ok_def mset_eq_imp_distinct_iff)
  show "map_of m' = map_of m"
    using assms ok by (metis gomap_ok_def map_of_inject_set set_mset_mset)
qed

text \<open>Permuting the values of a map permutes nothing a caller can observe but the order.\<close>

lemma gomap_perm_values:
  assumes "mset m' = mset m"
  shows "mset (map snd m') = mset (map snd m)"
  using assms by (metis mset_map)

section \<open>Errors\<close>

text \<open>
  A Go function that returns \<open>(T, error)\<close> returns \<open>error + 'a\<close> here; one that returns only
  \<open>error\<close> returns an option with \<^const>\<open>None\<close> for \<open>nil\<close>. \<open>errors.Join\<close> drops the \<open>nil\<close>s and
  is \<open>nil\<close> when nothing is left.
\<close>

fun non_nil :: "'e option list \<Rightarrow> 'e list" where
  "non_nil [] = []"
| "non_nil (None # es) = non_nil es"
| "non_nil (Some e # es) = e # non_nil es"

definition errors_join :: "'e option list \<Rightarrow> 'e list option" where
  "errors_join es = (if non_nil es = [] then None else Some (non_nil es))"

lemma non_nil_Nil_iff: "non_nil es = [] \<longleftrightarrow> list_all (\<lambda>e. e = None) es"
  by (induction es rule: non_nil.induct) auto

lemma errors_join_None [simp]: "errors_join es = None \<longleftrightarrow> list_all (\<lambda>e. e = None) es"
  by (simp add: errors_join_def non_nil_Nil_iff)

section \<open>Decimal numerals\<close>

text \<open>The \<open>%d\<close> verb of \<open>fmt\<close> on an unsigned integer.\<close>

definition digit_char :: "nat \<Rightarrow> char" where
  "digit_char d = char_of (48 + d)"

fun show_nat :: "nat \<Rightarrow> string" where
  "show_nat n = (if n < 10 then [digit_char n] else show_nat (n div 10) @ [digit_char (n mod 10)])"

declare show_nat.simps [simp del]

definition is_digit :: "char \<Rightarrow> bool" where
  "is_digit c \<longleftrightarrow> 48 \<le> (of_char c :: nat) \<and> (of_char c :: nat) \<le> 57"

definition digit_val :: "char \<Rightarrow> nat" where
  "digit_val c = of_char c - 48"

lemma of_char_digit_char [simp]: "d < 10 \<Longrightarrow> (of_char (digit_char d) :: nat) = 48 + d"
  by (simp add: digit_char_def)

lemma digit_val_digit_char [simp]: "d < 10 \<Longrightarrow> digit_val (digit_char d) = d"
  by (simp add: digit_val_def)

lemma is_digit_digit_char [simp]: "d < 10 \<Longrightarrow> is_digit (digit_char d)"
  by (simp add: is_digit_def)

lemma show_nat_digits: "c \<in> set (show_nat n) \<Longrightarrow> is_digit c"
proof (induction n rule: show_nat.induct)
  case (1 n)
  then show ?case
    by (cases "n < 10") (auto simp: show_nat.simps [of n])
qed

lemma show_nat_nonempty [simp]: "show_nat n \<noteq> []"
  by (simp add: show_nat.simps [of n])

text \<open>Reading a digit string from the left, as every number parser of Go does.\<close>

definition read_digits :: "nat \<Rightarrow> string \<Rightarrow> nat" where
  "read_digits = foldl (\<lambda>x c. x * 10 + digit_val c)"

lemma read_digits_append: "read_digits x (s @ t) = read_digits (read_digits x s) t"
  by (simp add: read_digits_def)

lemma read_digits_snoc: "read_digits x (s @ [c]) = read_digits x s * 10 + digit_val c"
  by (simp add: read_digits_def)

lemma read_show_nat: "read_digits 0 (show_nat n) = n"
proof (induction n rule: show_nat.induct)
  case (1 n)
  show ?case
  proof (cases "n < 10")
    case True
    then show ?thesis by (simp add: show_nat.simps [of n] read_digits_def)
  next
    case False
    with "1.IH" have "read_digits 0 (show_nat (n div 10)) = n div 10" by simp
    with False show ?thesis
      by (simp add: show_nat.simps [of n] read_digits_snoc)
  qed
qed

lemma read_digits_mono: "x \<le> read_digits x s"
proof (induction s arbitrary: x)
  case Nil
  then show ?case by (simp add: read_digits_def)
next
  case (Cons c s)
  have "x \<le> x * 10 + digit_val c" by simp
  also have "\<dots> \<le> read_digits (x * 10 + digit_val c) s" by (rule Cons.IH)
  finally show ?case by (simp add: read_digits_def)
qed

section \<open>Big-endian bytes\<close>

text \<open>\<open>binary.BigEndian\<close>: the \<open>n\<close> low bytes of a number, most significant first.\<close>

fun be_bytes :: "nat \<Rightarrow> nat \<Rightarrow> byte list" where
  "be_bytes 0 x = []"
| "be_bytes (Suc n) x = be_bytes n (x div 256) @ [of_nat (x mod 256)]"

lemma length_be_bytes [simp]: "length (be_bytes n x) = n"
  by (induction n arbitrary: x) auto

lemma be_bytes_inj:
  assumes "be_bytes n x = be_bytes n y" and "x < 256 ^ n" and "y < 256 ^ n"
  shows "x = y"
  using assms
proof (induction n arbitrary: x y)
  case 0
  then show ?case by simp
next
  case (Suc n)
  have bound: "x div 256 < 256 ^ n" "y div 256 < 256 ^ n"
    using Suc.prems(2,3) by (simp_all add: less_mult_imp_div_less mult.commute)
  from Suc.prems(1) have "be_bytes n (x div 256) = be_bytes n (y div 256)"
    and low: "(of_nat (x mod 256) :: byte) = of_nat (y mod 256)"
    by simp_all
  then have "x div 256 = y div 256" using Suc.IH bound by blast
  moreover have "x mod 256 = y mod 256"
  proof -
    have "unat (of_nat (x mod 256) :: byte) = unat (of_nat (y mod 256) :: byte)"
      using low by simp
    then show ?thesis by (simp add: unat_of_nat take_bit_eq_mod)
  qed
  ultimately show ?case by (metis div_mult_mod_eq)
qed

section \<open>Register-once tables\<close>

text \<open>
  The plugin registry (\<open>internal/plugin/register.go\<close>) and the frontend and target kind tables of
  the engine share one contract: a name is bound at most once, a second registration is refused
  and changes nothing, and other names are never touched. \<open>reg\<close> answers whether the registration
  was accepted and returns the new table.
\<close>

locale register_once =
  fixes reg :: "'k \<Rightarrow> 'v \<Rightarrow> 's \<Rightarrow> bool \<times> 's"
    and look :: "'s \<Rightarrow> 'k \<Rightarrow> 'v option"
  assumes reg_accepted: "reg k v s = (True, s') \<Longrightarrow> look s k = None \<and> look s' k = Some v"
    and reg_refused: "reg k v s = (False, s') \<Longrightarrow> s' = s"
    and reg_frame: "reg k v s = (ok, s') \<Longrightarrow> k' \<noteq> k \<Longrightarrow> look s' k' = look s k'"
begin

fun reg_all :: "('k \<times> 'v) list \<Rightarrow> 's \<Rightarrow> 's" where
  "reg_all [] s = s"
| "reg_all ((k, v) # kvs) s = reg_all kvs (snd (reg k v s))"

lemma reg_keeps: "look s k = Some v \<Longrightarrow> look (snd (reg k' v' s)) k = Some v"
proof -
  assume bound: "look s k = Some v"
  obtain ok s' where r: "reg k' v' s = (ok, s')" by (cases "reg k' v' s")
  show ?thesis
  proof (cases "k = k'")
    case True
    with bound r have "ok = False" using reg_accepted by (cases ok) auto
    with r bound show ?thesis using reg_refused by auto
  next
    case False
    with r bound show ?thesis using reg_frame by auto
  qed
qed

text \<open>The first registration of a name wins, whatever is registered afterwards.\<close>

lemma first_registration_wins: "look s k = Some v \<Longrightarrow> look (reg_all kvs s) k = Some v"
proof (induction kvs arbitrary: s)
  case Nil
  then show ?case by simp
next
  case (Cons kv kvs)
  then show ?case by (cases kv) (simp add: reg_keeps)
qed

end

end
