(* ===== verification/Go_Netip.thy ===== *)
theory Go_Netip
  imports Prelude
begin

text \<open>
  The part of Go's \<open>net/netip\<close> that the gateway uses. An address is the zero \<open>Addr\<close>, an IPv4
  address or an IPv6 address with a zone (an IPv4-mapped address is an IPv6 address, as
  \<open>Is4\<close> and \<open>Is6\<close> report it). Equality of addresses is structural, as \<open>==\<close> is in Go.
\<close>

datatype ip_addr = NoAddr | IP4 "32 word" | IP6 "128 word" string

record addr_port =
  ap_addr :: ip_addr
  ap_port :: u16

fun addr_IsValid :: "ip_addr \<Rightarrow> bool" where
  "addr_IsValid NoAddr = False"
| "addr_IsValid _ = True"

fun addr_Is4 :: "ip_addr \<Rightarrow> bool" where
  "addr_Is4 (IP4 _) = True"
| "addr_Is4 _ = False"

fun addr_Is6 :: "ip_addr \<Rightarrow> bool" where
  "addr_Is6 (IP6 _ _) = True"
| "addr_Is6 _ = False"

fun addr_Zone :: "ip_addr \<Rightarrow> string" where
  "addr_Zone (IP6 _ z) = z"
| "addr_Zone _ = ''''"

definition addr_IsUnspecified :: "ip_addr \<Rightarrow> bool" where
  "addr_IsUnspecified a \<longleftrightarrow> a = IP4 0 \<or> a = IP6 0 ''''"

fun addr_AsSlice :: "ip_addr \<Rightarrow> byte list" where
  "addr_AsSlice NoAddr = []"
| "addr_AsSlice (IP4 a) = be_bytes 4 (unat a)"
| "addr_AsSlice (IP6 a _) = be_bytes 16 (unat a)"

definition ap_IsValid :: "addr_port \<Rightarrow> bool" where
  "ap_IsValid p \<longleftrightarrow> addr_IsValid (ap_addr p)"

text \<open>Every valid address is of exactly one family.\<close>

lemma addr_Is4_xor_Is6: "addr_IsValid a \<Longrightarrow> addr_Is6 a \<longleftrightarrow> \<not> addr_Is4 a"
  by (cases a) auto

lemma addr_Is4_not_Is6 [simp]: "addr_Is4 a \<Longrightarrow> \<not> addr_Is6 a"
  by (cases a) auto

lemma addr_IsValid_iff: "addr_IsValid a \<longleftrightarrow> addr_Is4 a \<or> addr_Is6 a"
  by (cases a) auto

lemma length_AsSlice:
  "length (addr_AsSlice a) = (if addr_Is4 a then 4 else if addr_Is6 a then 16 else 0)"
  by (cases a) auto

lemma unat_inj_bytes:
  fixes a b :: "'a::len word"
  assumes "be_bytes n (unat a) = be_bytes n (unat b)" and "LENGTH('a) = 8 * n"
  shows "a = b"
proof -
  have "(2::nat) ^ LENGTH('a) = 256 ^ n"
    using assms(2) by (simp add: power_mult)
  then have "unat a < 256 ^ n" "unat b < 256 ^ n"
    using unsigned_less [of a, where ?'a = nat] unsigned_less [of b, where ?'a = nat] by simp_all
  with assms(1) have "unat a = unat b" by (rule be_bytes_inj)
  then show ?thesis by (rule unsigned_word_eqI)
qed

text \<open>The bytes of an address without zone determine it.\<close>

lemma AsSlice_inj:
  assumes "addr_AsSlice a = addr_AsSlice b" and "addr_Zone a = ''''" and "addr_Zone b = ''''"
  shows "a = b"
proof -
  have len: "length (addr_AsSlice a) = length (addr_AsSlice b)" using assms(1) by simp
  show ?thesis
  proof (cases a)
    case NoAddr
    with len show ?thesis by (cases b) auto
  next
    case (IP4 x)
    with len obtain y where "b = IP4 y" by (cases b) auto
    with IP4 assms(1) show ?thesis using unat_inj_bytes [of 4 x y] by simp
  next
    case (IP6 x z)
    with len obtain y z' where "b = IP6 y z'" by (cases b) auto
    with IP6 assms show ?thesis using unat_inj_bytes [of 16 x y] by simp
  qed
qed

section \<open>Text form\<close>

text \<open>
  \<open>AddrPort.String\<close>: dotted decimal for IPv4, and for IPv6 the groups in lowercase hexadecimal
  with the longest run of two or more zero groups (the leftmost of equal ones) written \<open>::\<close>.
\<close>

definition hex_char :: "nat \<Rightarrow> char" where
  "hex_char d = (if d < 10 then char_of (48 + d) else char_of (87 + d))"

fun show_hex :: "nat \<Rightarrow> string" where
  "show_hex n = (if n < 16 then [hex_char n] else show_hex (n div 16) @ [hex_char (n mod 16)])"

declare show_hex.simps [simp del]

fun join_with :: "string \<Rightarrow> string list \<Rightarrow> string" where
  "join_with sep [] = ''''"
| "join_with sep [s] = s"
| "join_with sep (s # t # ss) = s @ sep @ join_with sep (t # ss)"

definition show_ip4 :: "32 word \<Rightarrow> string" where
  "show_ip4 a = join_with ''.'' (map (\<lambda>b. show_nat (unat b)) (be_bytes 4 (unat a)))"

definition ip6_groups :: "128 word \<Rightarrow> nat list" where
  "ip6_groups a = map (\<lambda>i. unat a div 65536 ^ (7 - i) mod 65536) [0..<8]"

fun longest_zero_run :: "nat \<Rightarrow> nat list \<Rightarrow> nat \<times> nat \<Rightarrow> nat \<times> nat" where
  "longest_zero_run i [] best = best"
| "longest_zero_run i (g # gs) (s, e) =
     (let l = length (takeWhile (\<lambda>x. x = 0) (g # gs))
      in longest_zero_run (Suc i) gs (if 2 \<le> l \<and> e - s < l then (i, i + l) else (s, e)))"

definition show_ip6 :: "128 word \<Rightarrow> string" where
  "show_ip6 a =
     (let gs = ip6_groups a; (s, e) = longest_zero_run 0 gs (0, 0)
      in if s = e then join_with '':'' (map show_hex gs)
         else join_with '':'' (map show_hex (take s gs)) @ ''::''
                @ join_with '':'' (map show_hex (drop e gs)))"

definition show_zone :: "string \<Rightarrow> string" where
  "show_zone z = (if z = '''' then '''' else ''%'' @ z)"

definition addr_Is4In6 :: "128 word \<Rightarrow> bool" where
  "addr_Is4In6 a \<longleftrightarrow> unat a div 2 ^ 32 = 65535"

fun ap_String :: "addr_port \<Rightarrow> string" where
  "ap_String p =
     (case ap_addr p of
        NoAddr \<Rightarrow> ''invalid AddrPort''
      | IP4 a \<Rightarrow> show_ip4 a @ '':'' @ show_nat (unat (ap_port p))
      | IP6 a z \<Rightarrow>
          ''['' @ (if addr_Is4In6 a then ''::ffff:'' @ show_ip4 (ucast a) else show_ip6 a)
            @ show_zone z @ '']:'' @ show_nat (unat (ap_port p)))"

end
