(* ===== verification/Go_Time.thy ===== *)
theory Go_Time
  imports Prelude
begin

text \<open>
  \<open>time.ParseDuration\<close> of Go's standard library, which reads the timeouts of the configuration:
  a sign, then one or more decimal numbers with a unit. The products of the fractional part are
  taken in \<open>float64\<close> by the library; that one multiplication is the parameter \<open>fr\<close>
  (fraction digits, their scale, the unit in nanoseconds), everything else is written out,
  including the \<open>uint64\<close> wrap-around of the running sum.
\<close>

type_synonym frac_mult = "nat \<Rightarrow> nat \<Rightarrow> nat \<Rightarrow> nat"

datatype duration_error =
    InvalidDuration string
  | MissingUnit string
  | UnknownUnit string string

fun leading_int :: "nat \<Rightarrow> string \<Rightarrow> (nat \<times> string) option" where
  "leading_int x [] = Some (x, [])"
| "leading_int x (c # s) =
     (if \<not> is_digit c then Some (x, c # s)
      else if x > 2 ^ 63 div 10 then None
      else if x * 10 + digit_val c > 2 ^ 63 then None
      else leading_int (x * 10 + digit_val c) s)"

fun leading_fraction :: "nat \<Rightarrow> nat \<Rightarrow> bool \<Rightarrow> string \<Rightarrow> nat \<times> nat \<times> string" where
  "leading_fraction x scale overflow [] = (x, scale, [])"
| "leading_fraction x scale overflow (c # s) =
     (if \<not> is_digit c then (x, scale, c # s)
      else if overflow \<or> x > (2 ^ 63 - 1) div 10 \<or> x * 10 + digit_val c > 2 ^ 63
           then leading_fraction x scale True s
      else leading_fraction (x * 10 + digit_val c) (scale * 10) False s)"

definition unit_ns :: "string \<Rightarrow> nat option" where
  "unit_ns u =
     (if u = ''ns'' then Some 1
      else if u = ''us'' \<or> u = [CHR 0xC2, CHR 0xB5, CHR ''s''] \<or> u = [CHR 0xCE, CHR 0xBC, CHR ''s'']
           then Some 1000
      else if u = ''ms'' then Some 1000000
      else if u = ''s'' then Some 1000000000
      else if u = ''m'' then Some 60000000000
      else if u = ''h'' then Some 3600000000000
      else None)"

definition unit_char :: "char \<Rightarrow> bool" where
  "unit_char c \<longleftrightarrow> \<not> (c = CHR ''.'' \<or> is_digit c)"

text \<open>The unit, and the value of one number with its unit in nanoseconds.\<close>

definition duration_unit ::
    "frac_mult \<Rightarrow> string \<Rightarrow> nat \<Rightarrow> nat \<Rightarrow> nat \<Rightarrow> string \<Rightarrow> duration_error + nat \<times> string" where
  "duration_unit fr orig v f scale s =
     (let u = takeWhile unit_char s; s' = dropWhile unit_char s
      in if u = [] then Inl (MissingUnit orig)
         else case unit_ns u of
           None \<Rightarrow> Inl (UnknownUnit u orig)
         | Some unit \<Rightarrow>
             if v > 2 ^ 63 div unit then Inl (InvalidDuration orig)
             else let w = (if f > 0 then v * unit + fr f scale unit else v * unit)
                  in if f > 0 \<and> w > 2 ^ 63 then Inl (InvalidDuration orig) else Inr (w, s'))"

definition duration_segment ::
    "frac_mult \<Rightarrow> string \<Rightarrow> string \<Rightarrow> duration_error + nat \<times> string" where
  "duration_segment fr orig s =
     (if s = [] \<or> \<not> (hd s = CHR ''.'' \<or> is_digit (hd s)) then Inl (InvalidDuration orig)
      else case leading_int 0 s of
        None \<Rightarrow> Inl (InvalidDuration orig)
      | Some (v, s1) \<Rightarrow>
          let pre = (length s1 \<noteq> length s);
              (f, scale, s2) =
                (if s1 \<noteq> [] \<and> hd s1 = CHR ''.'' then leading_fraction 0 1 False (tl s1)
                 else (0, 1, s1));
              post = (s1 \<noteq> [] \<and> hd s1 = CHR ''.'' \<and> length s2 \<noteq> length (tl s1))
          in if \<not> pre \<and> \<not> post then Inl (InvalidDuration orig)
             else duration_unit fr orig v f scale s2)"

lemma leading_int_length: "leading_int x s = Some (y, s') \<Longrightarrow> length s' \<le> length s"
  by (induction x s rule: leading_int.induct) (auto split: if_splits)

lemma leading_fraction_length:
  "leading_fraction x sc ov s = (y, sc', s') \<Longrightarrow> length s' \<le> length s"
  by (induction x sc ov s rule: leading_fraction.induct) (auto split: if_splits)

lemma duration_unit_shorter:
  assumes "duration_unit fr orig v f scale s = Inr (w, s')"
  shows "length s' < length s"
proof -
  from assms have "takeWhile unit_char s \<noteq> []" and s': "s' = dropWhile unit_char s"
    by (auto simp: duration_unit_def Let_def split: if_splits option.splits)
  then have "0 < length (takeWhile unit_char s)" by simp
  moreover have "length (takeWhile unit_char s) + length (dropWhile unit_char s) = length s"
    by (metis length_append takeWhile_dropWhile_id)
  ultimately show ?thesis unfolding s' by linarith
qed

lemma duration_segment_shorter:
  assumes "duration_segment fr orig s = Inr (w, s')"
  shows "length s' < length s"
proof -
  from assms obtain v s1 where li: "leading_int 0 s = Some (v, s1)"
    by (auto simp: duration_segment_def split: if_splits option.splits)
  obtain f scale s2 where fr: "(if s1 \<noteq> [] \<and> hd s1 = CHR ''.'' then leading_fraction 0 1 False (tl s1)
                 else (0, 1, s1)) = (f, scale, s2)"
    by (metis prod_cases3)
  from assms li fr have "duration_unit fr orig v f scale s2 = Inr (w, s')"
    by (auto simp: duration_segment_def Let_def split: if_splits)
  then have "length s' < length s2" by (rule duration_unit_shorter)
  moreover have "length s2 \<le> length s1"
    using fr leading_fraction_length [of 0 1 False "tl s1" f scale s2]
    by (auto split: if_splits)
  moreover have "length s1 \<le> length s" using li by (rule leading_int_length)
  ultimately show ?thesis by linarith
qed

function duration_loop ::
    "frac_mult \<Rightarrow> string \<Rightarrow> nat \<Rightarrow> string \<Rightarrow> duration_error + nat" where
  "duration_loop fr orig d s =
     (if s = [] then Inr d
      else case duration_segment fr orig s of
        Inl e \<Rightarrow> Inl e
      | Inr (v, s') \<Rightarrow>
          if (d + v) mod 2 ^ 64 > 2 ^ 63 then Inl (InvalidDuration orig)
          else duration_loop fr orig ((d + v) mod 2 ^ 64) s')"
  by pat_completeness auto
termination
  by (relation "measure (\<lambda>(fr, orig, d, s). length s)") (auto dest: duration_segment_shorter)

declare duration_loop.simps [simp del]

text \<open>\<open>ParseDuration\<close>; the result is an \<open>int64\<close> number of nanoseconds.\<close>

definition ParseDuration :: "frac_mult \<Rightarrow> string \<Rightarrow> duration_error + int" where
  "ParseDuration fr orig =
     (let neg = (orig \<noteq> [] \<and> hd orig = CHR ''-'');
          s = (if orig \<noteq> [] \<and> (hd orig = CHR ''-'' \<or> hd orig = CHR ''+'') then tl orig else orig)
      in if s = ''0'' then Inr 0
         else if s = [] then Inl (InvalidDuration orig)
         else case duration_loop fr orig 0 s of
           Inl e \<Rightarrow> Inl e
         | Inr d \<Rightarrow>
             if neg then Inr (- int d)
             else if d > 2 ^ 63 - 1 then Inl (InvalidDuration orig)
             else Inr (int d))"

text \<open>A whole number of seconds, written as \<open>%ds\<close>, is read back exactly.\<close>

lemma leading_int_digits:
  assumes "list_all is_digit ds" and "read_digits x ds \<le> 2 ^ 63 div 10" and "\<not> is_digit c"
  shows "leading_int x (ds @ c # s) = Some (read_digits x ds, c # s)"
  using assms
proof (induction ds arbitrary: x)
  case Nil
  then show ?case by (simp add: read_digits_def)
next
  case (Cons d ds)
  have rd: "read_digits x (d # ds) = read_digits (x * 10 + digit_val d) ds"
    by (simp add: read_digits_def)
  have le: "x * 10 + digit_val d \<le> 2 ^ 63 div 10"
    using Cons.prems(2) read_digits_mono [of "x * 10 + digit_val d" ds] rd by linarith
  then have "x \<le> 2 ^ 63 div 10" "x * 10 + digit_val d \<le> 2 ^ 63" by linarith+
  with Cons rd show ?case by simp
qed

lemma is_digit_s [simp]: "\<not> is_digit CHR ''s''"
  by (simp add: is_digit_def)

lemma ParseDuration_seconds:
  assumes "n \<le> 2 ^ 63 div 1000000000"
  shows "ParseDuration fr (show_nat n @ ''s'') = Inr (int n * 1000000000)"
proof -
  let ?s = "show_nat n @ ''s''"
  have digits: "list_all is_digit (show_nat n)"
    using show_nat_digits by (auto simp: list_all_iff)
  have hd: "is_digit (hd ?s)"
    using show_nat_digits [of "hd (show_nat n)" n] by simp
  have sign: "hd ?s \<noteq> CHR ''-'' \<and> hd ?s \<noteq> CHR ''+''"
    using hd by (auto simp: is_digit_def)
  have li: "leading_int 0 ?s = Some (n, ''s'')"
    using leading_int_digits [of "show_nat n" 0 "CHR ''s''" "[]"] digits assms
    by (simp add: read_show_nat)
  have unit: "unit_char CHR ''s''"
    by (simp add: unit_char_def)
  have "duration_unit fr ?s n 0 1 ''s'' = Inr (n * 1000000000, [])"
    using assms by (simp add: duration_unit_def unit unit_ns_def)
  then have seg: "duration_segment fr ?s ?s = Inr (n * 1000000000, [])"
    using li hd by (simp add: duration_segment_def)
  have bound: "n * 1000000000 \<le> 2 ^ 63 - 1" using assms by simp
  then have "duration_loop fr ?s 0 ?s = Inr (n * 1000000000)"
    by (subst duration_loop.simps) (simp add: seg duration_loop.simps)
  moreover have "?s \<noteq> ''0''"
  proof
    assume "?s = ''0''"
    then have "last ?s = last ''0''" by simp
    then show False by simp
  qed
  ultimately show ?thesis
    using bound sign by (simp add: ParseDuration_def Let_def)
qed

end
