(* ===== verification/Config.thy ===== *)
theory Config
  imports Go_Netip Go_Time
begin

text \<open>
  \<open>pkg/config\<close>: protocols, timeouts, namespaced references, the configuration records and
  \<open>Config.Validate\<close>. The validation loops are recursions over the rest of a slice that carry
  the elements already visited, so an index is the length of the visited part.
\<close>

section \<open>Protocols (protocol.go)\<close>

type_synonym protocol = u8

definition ProtocolTCP :: protocol where
  "ProtocolTCP = 6"

definition ProtocolUDP :: protocol where
  "ProtocolUDP = 17"

definition protocol_String :: "protocol \<Rightarrow> string" where
  "protocol_String p =
     (if p = ProtocolTCP then ''tcp'' else if p = ProtocolUDP then ''udp'' else ''invalid'')"

definition protocol_IsValid :: "protocol \<Rightarrow> bool" where
  "protocol_IsValid p \<longleftrightarrow> protocol_String p \<noteq> ''invalid''"

datatype protocol_error = InvalidProtocol string

definition ParseProtocol :: "string \<Rightarrow> protocol_error + protocol" where
  "ParseProtocol s =
     (if s = ''tcp'' then Inr ProtocolTCP
      else if s = ''udp'' then Inr ProtocolUDP
      else Inl (InvalidProtocol s))"

definition protocol_MarshalText :: "protocol \<Rightarrow> string" where
  "protocol_MarshalText p = protocol_String p"

text \<open>\<open>UnmarshalText\<close> writes through its receiver only on success.\<close>

definition protocol_UnmarshalText :: "protocol \<Rightarrow> string \<Rightarrow> protocol_error option \<times> protocol" where
  "protocol_UnmarshalText p text =
     (case ParseProtocol text of Inl e \<Rightarrow> (Some e, p) | Inr r \<Rightarrow> (None, r))"

lemmas protocol_defs = ProtocolTCP_def ProtocolUDP_def protocol_String_def protocol_IsValid_def
  ParseProtocol_def protocol_MarshalText_def protocol_UnmarshalText_def

lemma protocol_IsValid_iff: "protocol_IsValid p \<longleftrightarrow> p = ProtocolTCP \<or> p = ProtocolUDP"
  by (simp add: protocol_defs)

section \<open>Timeouts (ttl.go)\<close>

type_synonym ttl = u32

definition TTLMax :: ttl where
  "TTLMax = of_nat (2 ^ 32 - 1)"

definition TTLMin :: ttl where
  "TTLMin = 0"

definition Second :: int where
  "Second = 1000000000"

definition ttlMaxDuration :: int where
  "ttlMaxDuration = (2 ^ 32 - 1) * Second"

definition ttlMinDuration :: int where
  "ttlMinDuration = 0"

datatype ttl_error = DurationError duration_error | InvalidTTL string

definition ParseTTL :: "frac_mult \<Rightarrow> string \<Rightarrow> ttl_error + ttl" where
  "ParseTTL fr text =
     (case ParseDuration fr text of
        Inl e \<Rightarrow> Inl (DurationError e)
      | Inr result \<Rightarrow>
          if \<not> (ttlMinDuration \<le> result \<and> result \<le> ttlMaxDuration) then Inl (InvalidTTL text)
          else Inr (word_of_int (result div Second)))"

definition ttl_Seconds :: "ttl \<Rightarrow> u32" where
  "ttl_Seconds t = t"

text \<open>\<open>time.Duration(t) * time.Second\<close>, a product of \<open>int64\<close> values.\<close>

definition ttl_ToDuration :: "ttl \<Rightarrow> 64 word" where
  "ttl_ToDuration t = ucast t * word_of_int Second"

definition ttl_String :: "ttl \<Rightarrow> string" where
  "ttl_String t = show_nat (unat (ttl_Seconds t)) @ ''s''"

definition ttl_MarshalText :: "ttl \<Rightarrow> string" where
  "ttl_MarshalText t = ttl_String t"

definition ttl_UnmarshalText :: "frac_mult \<Rightarrow> ttl \<Rightarrow> string \<Rightarrow> ttl_error option \<times> ttl" where
  "ttl_UnmarshalText fr t text =
     (case ParseTTL fr text of Inl e \<Rightarrow> (Some e, t) | Inr r \<Rightarrow> (None, r))"

lemmas ttl_consts = TTLMax_def TTLMin_def Second_def ttlMaxDuration_def ttlMinDuration_def

text \<open>The quotient of a duration in range fits 32 bits, so the conversion drops nothing.\<close>

lemma ParseTTL_value:
  assumes "ParseTTL fr text = Inr t"
  obtains d where "ParseDuration fr text = Inr d" and "0 \<le> d" and "d \<le> ttlMaxDuration"
    and "uint t = d div Second"
proof -
  from assms obtain d where d: "ParseDuration fr text = Inr d" "0 \<le> d" "d \<le> ttlMaxDuration"
    and t: "t = word_of_int (d div Second)"
    by (auto simp: ParseTTL_def ttlMinDuration_def split: sum.splits if_splits)
  have "0 \<le> d div Second" "d div Second < 2 ^ 32"
    using d(2,3) by (simp_all add: ttl_consts)
  then have "uint t = d div Second"
    by (simp add: t uint_word_of_int_eq take_bit_eq_mod)
  with d that show ?thesis by blast
qed

lemma ParseTTL_String: "ParseTTL fr (ttl_String t) = Inr t"
proof -
  have bound: "unat t \<le> 2 ^ 32 - 1" using unsigned_less [of t, where ?'a = nat] by simp
  then have "ParseDuration fr (ttl_String t) = Inr (int (unat t) * 1000000000)"
    unfolding ttl_String_def ttl_Seconds_def by (intro ParseDuration_seconds) simp
  moreover have "uint t \<le> 4294967295" using unsigned_less [of t, where ?'a = int] by simp
  ultimately show ?thesis
    by (simp add: ParseTTL_def ttl_consts)
qed

section \<open>Namespaced references (namespace.go)\<close>

record namespace_ref =
  ref_Namespace :: string
  ref_Name :: string

text \<open>\<open>strings.Split\<close> with a separator of one byte.\<close>

fun go_split :: "char \<Rightarrow> string \<Rightarrow> string list" where
  "go_split c [] = [[]]"
| "go_split c (x # xs) =
     (if x = c then [] # go_split c xs
      else case go_split c xs of [] \<Rightarrow> [[x]] | w # ws \<Rightarrow> (x # w) # ws)"

datatype reference_error = InvalidReference string

definition ParseNamespaceReference :: "string \<Rightarrow> reference_error + namespace_ref" where
  "ParseNamespaceReference text =
     (let parts = go_split CHR '':'' text
      in if length parts \<noteq> 2 \<or> parts ! 0 = '''' \<or> parts ! 1 = '''' then Inl (InvalidReference text)
         else Inr \<lparr>ref_Namespace = parts ! 0, ref_Name = parts ! 1\<rparr>)"

definition ref_String :: "namespace_ref \<Rightarrow> string" where
  "ref_String r = ref_Namespace r @ '':'' @ ref_Name r"

definition ref_MarshalText :: "namespace_ref \<Rightarrow> string" where
  "ref_MarshalText r = ref_String r"

definition ref_UnmarshalText ::
    "namespace_ref \<Rightarrow> string \<Rightarrow> reference_error option \<times> namespace_ref" where
  "ref_UnmarshalText r text =
     (case ParseNamespaceReference text of Inl e \<Rightarrow> (Some e, r) | Inr ref \<Rightarrow> (None, ref))"

lemma go_split_nonempty [simp]: "go_split c s \<noteq> []"
  by (induction s) (auto split: list.splits)

lemma go_split_no_sep: "c \<notin> set s \<Longrightarrow> go_split c s = [s]"
  by (induction s) auto

lemma go_split_sep: "c \<notin> set s \<Longrightarrow> go_split c (s @ c # t) = s # go_split c t"
  by (induction s) auto

lemma go_split_single: "go_split c s = [w] \<Longrightarrow> s = w \<and> c \<notin> set s"
proof (induction s arbitrary: w)
  case Nil
  then show ?case by simp
next
  case (Cons x s)
  then obtain v where "x \<noteq> c" "go_split c s = [v]" "w = x # v"
    by (auto split: if_splits list.splits)
  with Cons.IH show ?case by auto
qed

lemma go_split_pair: "go_split c s = [v, w] \<Longrightarrow> s = v @ c # w \<and> c \<notin> set v \<and> c \<notin> set w"
proof (induction s arbitrary: v)
  case Nil
  then show ?case by simp
next
  case (Cons x s)
  show ?case
  proof (cases "x = c")
    case True
    with Cons.prems have "v = []" "go_split c s = [w]" by auto
    with True show ?thesis by (auto dest: go_split_single)
  next
    case False
    with Cons.prems obtain v' where "go_split c s = [v', w]" "v = x # v'"
      by (auto split: list.splits)
    with False Cons.IH show ?thesis by auto
  qed
qed

definition ref_part_ok :: "string \<Rightarrow> bool" where
  "ref_part_ok s \<longleftrightarrow> s \<noteq> '''' \<and> CHR '':'' \<notin> set s"

lemma ParseNamespaceReference_iff:
  "ParseNamespaceReference text = Inr r \<longleftrightarrow>
     text = ref_String r \<and> ref_part_ok (ref_Namespace r) \<and> ref_part_ok (ref_Name r)"
proof
  assume "ParseNamespaceReference text = Inr r"
  then obtain v w where "go_split CHR '':'' text = [v, w]" "v \<noteq> ''''" "w \<noteq> ''''"
    and r: "r = \<lparr>ref_Namespace = v, ref_Name = w\<rparr>"
    by (auto simp: ParseNamespaceReference_def Let_def length_Suc_conv numeral_2_eq_2
          split: if_splits)
  then show "text = ref_String r \<and> ref_part_ok (ref_Namespace r) \<and> ref_part_ok (ref_Name r)"
    using go_split_pair by (fastforce simp: ref_String_def ref_part_ok_def)
next
  assume r: "text = ref_String r \<and> ref_part_ok (ref_Namespace r) \<and> ref_part_ok (ref_Name r)"
  then have "go_split CHR '':'' text = [ref_Namespace r, ref_Name r]"
    by (simp add: ref_String_def ref_part_ok_def go_split_sep go_split_no_sep)
  with r show "ParseNamespaceReference text = Inr r"
    by (simp add: ParseNamespaceReference_def ref_part_ok_def)
qed

end
