(* ===== verification/Config_Validate.thy ===== *)
theory Config_Validate
  imports Config
begin

text \<open>
  \<open>pkg/config/config.go\<close>, \<open>target.go\<close> and \<open>frontend.go\<close>: the configuration document and
  \<open>Config.Validate\<close>, with one error constructor for each message, and the declarative
  well-formedness that a document without error satisfies.
\<close>

section \<open>The document\<close>

text \<open>
  Values decoded from YAML into \<open>any\<close>; the code looks at strings only, through a checked type
  assertion. A \<open>nil\<close> map or slice is \<^const>\<open>None\<close> where \<open>Validate\<close> can tell it from an empty one.
\<close>

datatype any_val = AnyNil | AnyBool bool | AnyInt int | AnyFloat u64 | AnyString string
  | AnyList "any_val list" | AnyMap "(string \<times> any_val) list"

type_synonym any_options = "(string, any_val) gomap"

definition as_string :: "any_options \<Rightarrow> string \<Rightarrow> string option" where
  "as_string opts k = (case map_of opts k of Some (AnyString s) \<Rightarrow> Some s | _ \<Rightarrow> None)"

record TargetEndpoint =
  ep_Name :: string
  ep_Protocol :: protocol
  ep_Address :: addr_port

record TargetCfg =
  tc_Name :: string
  tc_Kind :: namespace_ref
  tc_IdleTimeout :: ttl
  tc_Endpoints :: "TargetEndpoint list"
  tc_Options :: any_options

record FrontendCfg =
  fc_Name :: string
  fc_Kind :: namespace_ref
  fc_Protocol :: protocol
  fc_Listen :: addr_port
  fc_FlowTimeout :: ttl
  fc_Endpoint :: namespace_ref
  fc_Options :: any_options

record LogCfg =
  log_Output :: string
  log_Level :: int

record ConfigDoc =
  c_Version :: string
  c_Log :: LogCfg
  c_Plugins :: "(string, any_options) gomap option"
  c_Targets :: "TargetCfg list option"
  c_Frontends :: "FrontendCfg list option"

definition ConfigVersionV1 :: string where
  "ConfigVersionV1 = ''v1''"

section \<open>Validate\<close>

datatype config_error =
    ConfigRequired | VersionRequired | UnsupportedVersion string | LogOutputRequired
  | PluginsRequired | TargetsRequired | FrontendsRequired
  | TargetNameRequired nat | TargetRedefined nat string
  | TargetKindNamespaceRequired string | TargetKindNameRequired string
  | IdleTimeoutZero string | EndpointsEmpty string
  | EndpointNameRequired string nat | EndpointRedefined string nat string
  | EndpointProtocolInvalid string nat | EndpointAddressInvalid string nat
  | EndpointAddressZone string nat
  | FrontendNameRequired nat | FrontendRedefined nat string
  | FrontendKindNamespaceRequired string | FrontendKindNameRequired string
  | FrontendProtocolInvalid string | FrontendListenInvalid string | FlowTimeoutZero string
  | FrontendTargetNameRequired string | FrontendEndpointNameRequired string
  | FrontendUnknownEndpoint string string

fun hasTargetEndpoint :: "TargetCfg list \<Rightarrow> string \<Rightarrow> string \<Rightarrow> bool" where
  "hasTargetEndpoint [] targetName endpointName = False"
| "hasTargetEndpoint (t # ts) targetName endpointName =
     (if tc_Name t \<noteq> targetName then hasTargetEndpoint ts targetName endpointName
      else list_ex (\<lambda>ep. ep_Name ep = endpointName) (tc_Endpoints t))"

fun validate_endpoints ::
    "string \<Rightarrow> TargetEndpoint list \<Rightarrow> TargetEndpoint list \<Rightarrow> config_error option" where
  "validate_endpoints target seen [] = None"
| "validate_endpoints target seen (ep # eps) =
     (if ep_Name ep = '''' then Some (EndpointNameRequired target (length seen))
      else if list_ex (\<lambda>x. ep_Name x = ep_Name ep) seen
        then Some (EndpointRedefined target (length seen) (ep_Name ep))
      else if \<not> protocol_IsValid (ep_Protocol ep)
        then Some (EndpointProtocolInvalid target (length seen))
      else if \<not> ap_IsValid (ep_Address ep)
        then Some (EndpointAddressInvalid target (length seen))
      else if addr_Zone (ap_addr (ep_Address ep)) \<noteq> ''''
        then Some (EndpointAddressZone target (length seen))
      else validate_endpoints target (seen @ [ep]) eps)"

fun validate_targets :: "TargetCfg list \<Rightarrow> TargetCfg list \<Rightarrow> config_error option" where
  "validate_targets seen [] = None"
| "validate_targets seen (t # ts) =
     (if tc_Name t = '''' then Some (TargetNameRequired (length seen))
      else if list_ex (\<lambda>x. tc_Name x = tc_Name t) seen
        then Some (TargetRedefined (length seen) (tc_Name t))
      else if ref_Namespace (tc_Kind t) = '''' then Some (TargetKindNamespaceRequired (tc_Name t))
      else if ref_Name (tc_Kind t) = '''' then Some (TargetKindNameRequired (tc_Name t))
      else if tc_IdleTimeout t = 0 then Some (IdleTimeoutZero (tc_Name t))
      else if length (tc_Endpoints t) = 0 then Some (EndpointsEmpty (tc_Name t))
      else case validate_endpoints (tc_Name t) [] (tc_Endpoints t) of
        Some e \<Rightarrow> Some e
      | None \<Rightarrow> validate_targets (seen @ [t]) ts)"

fun validate_frontends ::
    "TargetCfg list \<Rightarrow> FrontendCfg list \<Rightarrow> FrontendCfg list \<Rightarrow> config_error option" where
  "validate_frontends targets seen [] = None"
| "validate_frontends targets seen (f # fs) =
     (if fc_Name f = '''' then Some (FrontendNameRequired (length seen))
      else if list_ex (\<lambda>x. fc_Name x = fc_Name f) seen
        then Some (FrontendRedefined (length seen) (fc_Name f))
      else if ref_Namespace (fc_Kind f) = '''' then Some (FrontendKindNamespaceRequired (fc_Name f))
      else if ref_Name (fc_Kind f) = '''' then Some (FrontendKindNameRequired (fc_Name f))
      else if \<not> protocol_IsValid (fc_Protocol f) then Some (FrontendProtocolInvalid (fc_Name f))
      else if \<not> ap_IsValid (fc_Listen f) then Some (FrontendListenInvalid (fc_Name f))
      else if fc_FlowTimeout f = 0 then Some (FlowTimeoutZero (fc_Name f))
      else if ref_Namespace (fc_Endpoint f) = '''' then Some (FrontendTargetNameRequired (fc_Name f))
      else if ref_Name (fc_Endpoint f) = '''' then Some (FrontendEndpointNameRequired (fc_Name f))
      else if \<not> hasTargetEndpoint targets (ref_Namespace (fc_Endpoint f)) (ref_Name (fc_Endpoint f))
        then Some (FrontendUnknownEndpoint (fc_Name f) (ref_String (fc_Endpoint f)))
      else validate_frontends targets (seen @ [f]) fs)"

text \<open>The receiver is a pointer and may be \<open>nil\<close>.\<close>

fun config_Validate :: "ConfigDoc option \<Rightarrow> config_error option" where
  "config_Validate None = Some ConfigRequired"
| "config_Validate (Some c) =
     (if c_Version c = '''' then Some VersionRequired
      else if c_Version c \<noteq> ConfigVersionV1 then Some (UnsupportedVersion (c_Version c))
      else if log_Output (c_Log c) = '''' then Some LogOutputRequired
      else if c_Plugins c = None then Some PluginsRequired
      else case (c_Targets c, c_Frontends c) of
        (None, _) \<Rightarrow> Some TargetsRequired
      | (Some ts, None) \<Rightarrow> Some FrontendsRequired
      | (Some ts, Some fs) \<Rightarrow>
          (case validate_targets [] ts of
             Some e \<Rightarrow> Some e
           | None \<Rightarrow> validate_frontends ts [] fs))"

section \<open>What a valid document satisfies\<close>

definition endpoint_wf :: "TargetEndpoint \<Rightarrow> bool" where
  "endpoint_wf ep \<longleftrightarrow> ep_Name ep \<noteq> '''' \<and> ep_Protocol ep \<in> {ProtocolTCP, ProtocolUDP}
     \<and> addr_IsValid (ap_addr (ep_Address ep)) \<and> addr_Zone (ap_addr (ep_Address ep)) = ''''"

definition target_wf :: "TargetCfg \<Rightarrow> bool" where
  "target_wf t \<longleftrightarrow> tc_Name t \<noteq> '''' \<and> ref_Namespace (tc_Kind t) \<noteq> '''' \<and> ref_Name (tc_Kind t) \<noteq> ''''
     \<and> 0 < tc_IdleTimeout t \<and> tc_Endpoints t \<noteq> [] \<and> list_all endpoint_wf (tc_Endpoints t)
     \<and> distinct (map ep_Name (tc_Endpoints t))"

definition frontend_wf :: "TargetCfg list \<Rightarrow> FrontendCfg \<Rightarrow> bool" where
  "frontend_wf ts f \<longleftrightarrow> fc_Name f \<noteq> '''' \<and> ref_Namespace (fc_Kind f) \<noteq> '''' \<and> ref_Name (fc_Kind f) \<noteq> ''''
     \<and> fc_Protocol f \<in> {ProtocolTCP, ProtocolUDP} \<and> addr_IsValid (ap_addr (fc_Listen f))
     \<and> 0 < fc_FlowTimeout f \<and> ref_Namespace (fc_Endpoint f) \<noteq> '''' \<and> ref_Name (fc_Endpoint f) \<noteq> ''''
     \<and> (\<exists>t ep. t \<in> set ts \<and> ep \<in> set (tc_Endpoints t) \<and> tc_Name t = ref_Namespace (fc_Endpoint f)
          \<and> ep_Name ep = ref_Name (fc_Endpoint f))"

definition config_wf :: "ConfigDoc \<Rightarrow> bool" where
  "config_wf c \<longleftrightarrow> c_Version c = ''v1'' \<and> log_Output (c_Log c) \<noteq> '''' \<and> c_Plugins c \<noteq> None
     \<and> (\<exists>ts fs. c_Targets c = Some ts \<and> c_Frontends c = Some fs
          \<and> list_all target_wf ts \<and> distinct (map tc_Name ts)
          \<and> list_all (frontend_wf ts) fs \<and> distinct (map fc_Name fs))"

lemma list_ex_key: "list_ex (\<lambda>x. f x = k) xs \<longleftrightarrow> k \<in> f ` set xs"
  by (induction xs) auto

lemma hasTargetEndpoint_iff:
  assumes "distinct (map tc_Name ts)"
  shows "hasTargetEndpoint ts tn en \<longleftrightarrow>
    (\<exists>t ep. t \<in> set ts \<and> ep \<in> set (tc_Endpoints t) \<and> tc_Name t = tn \<and> ep_Name ep = en)"
  using assms by (induction ts) (auto simp: list_ex_iff)

lemma validate_endpoints_None:
  "validate_endpoints n seen eps = None \<longleftrightarrow>
     list_all endpoint_wf eps \<and> distinct (map ep_Name eps)
     \<and> ep_Name ` set seen \<inter> ep_Name ` set eps = {}"
proof (induction eps arbitrary: seen)
  case Nil
  then show ?case by simp
next
  case (Cons ep eps)
  then show ?case
    by (auto simp: endpoint_wf_def list_ex_key protocol_IsValid_iff ap_IsValid_def)
qed

lemma validate_targets_None:
  "validate_targets seen ts = None \<longleftrightarrow>
     list_all target_wf ts \<and> distinct (map tc_Name ts)
     \<and> tc_Name ` set seen \<inter> tc_Name ` set ts = {}"
proof (induction ts arbitrary: seen)
  case Nil
  then show ?case by simp
next
  case (Cons t ts)
  show ?case
  proof (cases "validate_endpoints (tc_Name t) [] (tc_Endpoints t)")
    case None
    then have "list_all endpoint_wf (tc_Endpoints t) \<and> distinct (map ep_Name (tc_Endpoints t))"
      by (simp add: validate_endpoints_None)
    with None show ?thesis
      by (auto simp: Cons.IH target_wf_def list_ex_key word_gt_0)
  next
    case (Some e)
    then have "\<not> (list_all endpoint_wf (tc_Endpoints t) \<and> distinct (map ep_Name (tc_Endpoints t)))"
      using validate_endpoints_None [of "tc_Name t" "[]" "tc_Endpoints t"] by simp
    with Some show ?thesis
      by (auto simp: target_wf_def list_ex_key word_gt_0)
  qed
qed

lemma validate_frontends_None:
  assumes "distinct (map tc_Name ts)"
  shows "validate_frontends ts seen fs = None \<longleftrightarrow>
     list_all (frontend_wf ts) fs \<and> distinct (map fc_Name fs)
     \<and> fc_Name ` set seen \<inter> fc_Name ` set fs = {}"
proof (induction fs arbitrary: seen)
  case Nil
  then show ?case by simp
next
  case (Cons f fs)
  have ok: "frontend_wf ts f \<longleftrightarrow> fc_Name f \<noteq> '''' \<and> ref_Namespace (fc_Kind f) \<noteq> ''''
     \<and> ref_Name (fc_Kind f) \<noteq> '''' \<and> protocol_IsValid (fc_Protocol f) \<and> ap_IsValid (fc_Listen f)
     \<and> fc_FlowTimeout f \<noteq> 0 \<and> ref_Namespace (fc_Endpoint f) \<noteq> '''' \<and> ref_Name (fc_Endpoint f) \<noteq> ''''
     \<and> hasTargetEndpoint ts (ref_Namespace (fc_Endpoint f)) (ref_Name (fc_Endpoint f))"
    using assms
    by (simp add: frontend_wf_def hasTargetEndpoint_iff protocol_IsValid_iff ap_IsValid_def word_gt_0)
  show ?case
    by (auto simp: Cons.IH ok list_ex_key)
qed

end
