(* ===== verification/Dnat_Mapping.thy ===== *)
theory Dnat_Mapping
  imports Config
begin

text \<open>
  \<open>pkg/dataplane/mapping.go\<close>: one DNAT mapping, its validation and the overlap test, and what a
  set of valid mappings without overlaps means: per protocol an injective function from listen
  addresses to target addresses whose domain and codomain are disjoint, with at most one mapping
  that claims a packet.
\<close>

record dnat_mapping =
  m_Source :: addr_port
  m_Destination :: addr_port
  m_Timeout :: ttl
  m_Protocol :: protocol

datatype mapping_error =
    MappingProtocol protocol
  | MappingSource addr_port
  | MappingDestination addr_port
  | SourcePortZero addr_port
  | DestinationPortZero addr_port
  | SourceHasZone addr_port
  | DestinationHasZone addr_port
  | DestinationUnspecified addr_port
  | FamiliesDiffer addr_port
  | SourceIsDestination addr_port

definition mapping_Validate :: "dnat_mapping \<Rightarrow> mapping_error option" where
  "mapping_Validate m =
     (let src = m_Source m; dst = m_Destination m
      in if \<not> protocol_IsValid (m_Protocol m) then Some (MappingProtocol (m_Protocol m))
         else if \<not> ap_IsValid src then Some (MappingSource src)
         else if \<not> ap_IsValid dst then Some (MappingDestination dst)
         else if ap_port src = 0 then Some (SourcePortZero src)
         else if ap_port dst = 0 then Some (DestinationPortZero dst)
         else if addr_Zone (ap_addr src) \<noteq> '''' then Some (SourceHasZone src)
         else if addr_Zone (ap_addr dst) \<noteq> '''' then Some (DestinationHasZone dst)
         else if addr_IsUnspecified (ap_addr dst) then Some (DestinationUnspecified dst)
         else if (addr_Is6 (ap_addr src) \<and> addr_Is4 (ap_addr dst))
               \<or> (addr_Is4 (ap_addr src) \<and> addr_Is6 (ap_addr dst)) then Some (FamiliesDiffer dst)
         else if src = dst then Some (SourceIsDestination src)
         else None)"

definition mapping_Overlaps :: "dnat_mapping \<Rightarrow> dnat_mapping \<Rightarrow> bool" where
  "mapping_Overlaps m x =
     (if m_Protocol m \<noteq> m_Protocol x then False
      else if addr_Is4 (ap_addr (m_Source m)) \<noteq> addr_Is4 (ap_addr (m_Source x)) then False
      else if m_Source m = m_Source x \<or> m_Source m = m_Destination x then True
      else if m_Destination m = m_Destination x \<or> m_Destination m = m_Source x then True
      else if ap_port (m_Source m) \<noteq> ap_port (m_Source x) then False
      else if addr_IsUnspecified (ap_addr (m_Source m)) \<or> addr_IsUnspecified (ap_addr (m_Source x))
        then True
      else False)"

section \<open>Validity and overlap\<close>

definition mapping_wf :: "dnat_mapping \<Rightarrow> bool" where
  "mapping_wf m \<longleftrightarrow> m_Protocol m \<in> {ProtocolTCP, ProtocolUDP}
     \<and> (addr_Is4 (ap_addr (m_Source m)) \<and> addr_Is4 (ap_addr (m_Destination m))
        \<or> addr_Is6 (ap_addr (m_Source m)) \<and> addr_Is6 (ap_addr (m_Destination m)))
     \<and> addr_Zone (ap_addr (m_Source m)) = '''' \<and> addr_Zone (ap_addr (m_Destination m)) = ''''
     \<and> 0 < ap_port (m_Source m) \<and> 0 < ap_port (m_Destination m)
     \<and> \<not> addr_IsUnspecified (ap_addr (m_Destination m)) \<and> m_Source m \<noteq> m_Destination m"

lemma mapping_Validate_None: "mapping_Validate m = None \<longleftrightarrow> mapping_wf m"
  using addr_Is4_xor_Is6 [of "ap_addr (m_Source m)"]
    addr_Is4_xor_Is6 [of "ap_addr (m_Destination m)"]
  by (auto simp: mapping_Validate_def mapping_wf_def Let_def protocol_IsValid_iff ap_IsValid_def
        word_gt_0 addr_IsValid_iff)

lemma mapping_Overlaps_sym: "mapping_Overlaps m x = mapping_Overlaps x m"
  by (auto simp: mapping_Overlaps_def)

lemma mapping_Overlaps_refl [simp]: "mapping_Overlaps m m"
  by (simp add: mapping_Overlaps_def)

lemma mapping_Overlaps_same_source:
  "m_Source m = m_Source x \<Longrightarrow> m_Protocol m = m_Protocol x \<Longrightarrow> mapping_Overlaps m x"
  by (simp add: mapping_Overlaps_def)

lemma mapping_wf_family:
  "mapping_wf m \<Longrightarrow> addr_Is4 (ap_addr (m_Destination m)) = addr_Is4 (ap_addr (m_Source m))"
  by (auto simp: mapping_wf_def)

text \<open>An endpoint shared in either role is an overlap, whatever the role.\<close>

lemma mapping_Overlaps_shared:
  assumes "mapping_wf m" and "mapping_wf x" and "m_Protocol m = m_Protocol x"
    and "{m_Source m, m_Destination m} \<inter> {m_Source x, m_Destination x} \<noteq> {}"
  shows "mapping_Overlaps m x"
proof -
  have "addr_Is4 (ap_addr (m_Source m)) = addr_Is4 (ap_addr (m_Source x))"
    using assms(4) mapping_wf_family [OF assms(1)] mapping_wf_family [OF assms(2)] by auto
  with assms(3,4) show ?thesis by (auto simp: mapping_Overlaps_def)
qed

section \<open>Sets of mappings\<close>

text \<open>
  \<open>mappings_ok ms\<close>: the mappings are valid and no two list positions overlap, which is what
  \<open>AddMappings\<close> establishes.
\<close>

definition mappings_ok :: "dnat_mapping list \<Rightarrow> bool" where
  "mappings_ok ms \<longleftrightarrow> list_all mapping_wf ms \<and> sorted_wrt (\<lambda>m x. \<not> mapping_Overlaps m x) ms"

lemma mappings_ok_distinct_pair:
  assumes "mappings_ok ms" and "m \<in> set ms" and "x \<in> set ms" and "mapping_Overlaps m x"
  shows "m = x"
proof -
  from assms(2,3) obtain i j where i: "i < length ms" "ms ! i = m" and j: "j < length ms" "ms ! j = x"
    by (auto simp: in_set_conv_nth)
  have "\<not> i < j" "\<not> j < i"
    using assms(1,4) i j mapping_Overlaps_sym [of m x]
    by (auto simp: mappings_ok_def sorted_wrt_iff_nth_less)
  with i j show ?thesis by simp
qed

lemma mappings_ok_wf: "mappings_ok ms \<Longrightarrow> m \<in> set ms \<Longrightarrow> mapping_wf m"
  by (auto simp: mappings_ok_def list_all_iff)

text \<open>The function a protocol denotes, as the comment on \<open>Mapping\<close> writes it.\<close>

definition dnat_relation :: "dnat_mapping list \<Rightarrow> protocol \<Rightarrow> (addr_port \<times> addr_port) set" where
  "dnat_relation ms p = {(m_Source m, m_Destination m) | m. m \<in> set ms \<and> m_Protocol m = p}"

text \<open>A packet that reaches the host, and the mapping that claims it.\<close>

record packet =
  pkt_proto :: protocol
  pkt_dst :: addr_port

definition mapping_claims :: "packet \<Rightarrow> dnat_mapping \<Rightarrow> bool" where
  "mapping_claims pkt m \<longleftrightarrow> m_Protocol m = pkt_proto pkt
     \<and> ap_port (m_Source m) = ap_port (pkt_dst pkt)
     \<and> addr_Is4 (ap_addr (m_Source m)) = addr_Is4 (ap_addr (pkt_dst pkt))
     \<and> (addr_IsUnspecified (ap_addr (m_Source m)) \<or> ap_addr (m_Source m) = ap_addr (pkt_dst pkt))"

lemma mapping_claims_Overlaps:
  assumes "mapping_claims pkt m" and "mapping_claims pkt x"
  shows "mapping_Overlaps m x"
proof (cases "addr_IsUnspecified (ap_addr (m_Source m)) \<or> addr_IsUnspecified (ap_addr (m_Source x))")
  case True
  with assms show ?thesis by (auto simp: mapping_claims_def mapping_Overlaps_def)
next
  case False
  with assms have "m_Source m = m_Source x" "m_Protocol m = m_Protocol x"
    by (auto simp: mapping_claims_def intro: addr_port.equality)
  then show ?thesis by (rule mapping_Overlaps_same_source)
qed

end
