(* ===== verification/Nft_Rules.thy ===== *)
theory Nft_Rules
  imports Dnat_Mapping
begin

unbundle bit_operations_syntax

text \<open>
  \<open>pkg/dataplane/connft/connft_nft_rules.go\<close>: the byte encodings of set keys and values, the
  names of timeout objects and the nftables rules the dataplane installs. The expression types
  are those of the nftables library, reduced to the fields the code sets.
\<close>

section \<open>nftables requests\<close>

datatype dnat_set = DnatSpecific4 | DnatSpecific6 | DnatWildcard4 | DnatWildcard6

datatype nft_chain = Prerouting | Timeouts

datatype nft_reg = NFT_REG_1 | NFT_REG_2 | NFT_REG_3
  | NFT_REG32_00 | NFT_REG32_01 | NFT_REG32_02 | NFT_REG32_04 | NFT_REG32_05

datatype meta_key = MetaKeyL4PROTO | MetaKeyNFPROTO

datatype payload_base = PayloadBaseNetworkHeader | PayloadBaseTransportHeader

text \<open>
  \<open>Cmp\<close> is always an equality, \<open>NAT\<close> always a destination NAT with \<open>Specified\<close>, \<open>Objref\<close>
  always of type \<open>ObjTypeCtTimeout\<close>; \<open>Payload\<close> has a base, an offset and a length.
\<close>

datatype nft_expr =
    Meta meta_key nft_reg
  | Cmp nft_reg "byte list"
  | Payload nft_reg payload_base nat nat
  | Lookup nft_reg dnat_set nft_reg
  | NAT byte nft_reg nft_reg
  | Objref string

record nft_rule =
  rule_Chain :: nft_chain
  rule_Exprs :: "nft_expr list"

record set_element =
  se_Key :: "byte list"
  se_Val :: "byte list"

definition NFPROTO_IPV4 :: byte where
  "NFPROTO_IPV4 = 2"

definition NFPROTO_IPV6 :: byte where
  "NFPROTO_IPV6 = 10"

section \<open>Encodings\<close>

definition encodePort :: "u16 \<Rightarrow> byte list" where
  "encodePort port = be_bytes 2 (unat port)"

definition appendConcatField :: "byte list \<Rightarrow> byte list \<Rightarrow> byte list" where
  "appendConcatField dst field =
     (let dst' = dst @ field; rem = length field mod 4
      in if rem \<noteq> 0 then dst' @ replicate (4 - rem) 0 else dst')"

definition encodeSpecificKey :: "protocol \<Rightarrow> addr_port \<Rightarrow> byte list" where
  "encodeSpecificKey p address =
     appendConcatField
       (appendConcatField (appendConcatField [] [p]) (addr_AsSlice (ap_addr address)))
       (encodePort (ap_port address))"

definition encodeWildcardKey :: "protocol \<Rightarrow> u16 \<Rightarrow> byte list" where
  "encodeWildcardKey p port = appendConcatField (appendConcatField [] [p]) (encodePort port)"

definition encodeMapValue :: "addr_port \<Rightarrow> byte list" where
  "encodeMapValue address =
     appendConcatField (appendConcatField [] (addr_AsSlice (ap_addr address)))
       (encodePort (ap_port address))"

definition compileSetElement :: "dnat_mapping \<Rightarrow> set_element" where
  "compileSetElement m =
     \<lparr>se_Key = (if addr_IsUnspecified (ap_addr (m_Source m))
                then encodeWildcardKey (m_Protocol m) (ap_port (m_Source m))
                else encodeSpecificKey (m_Protocol m) (m_Source m)),
      se_Val = encodeMapValue (m_Destination m)\<rparr>"

text \<open>FNV-1a of \<open>hash/fnv\<close>, and \<open>%016x\<close>.\<close>

definition fnv64a :: "byte list \<Rightarrow> u64" where
  "fnv64a = foldl (\<lambda>h b. (h XOR ucast b) * 1099511628211) 14695981039346656037"

definition show_hex16 :: "u64 \<Rightarrow> string" where
  "show_hex16 x = (let s = show_hex (unat x) in replicate (16 - length s) CHR ''0'' @ s)"

definition encodeTimeoutObjName :: "protocol \<Rightarrow> addr_port \<Rightarrow> string" where
  "encodeTimeoutObjName p address =
     ''ct_'' @ show_hex16 (fnv64a ([p] @ addr_AsSlice (ap_addr address)
                                   @ encodePort (ap_port address)))"

section \<open>Rules\<close>

text \<open>
  The four rules of the prerouting chain, in the order they are added. The key of a lookup starts
  in the source register and its value is written from the destination register on.
\<close>

definition dnatWildcardRule4 :: nft_rule where
  "dnatWildcardRule4 =
     \<lparr>rule_Chain = Prerouting, rule_Exprs =
        [Meta MetaKeyNFPROTO NFT_REG_1, Cmp NFT_REG_1 [NFPROTO_IPV4],
         Meta MetaKeyL4PROTO NFT_REG_1,
         Payload NFT_REG32_01 PayloadBaseTransportHeader 2 2,
         Lookup NFT_REG_1 DnatWildcard4 NFT_REG_1,
         NAT NFPROTO_IPV4 NFT_REG_1 NFT_REG32_01]\<rparr>"

definition dnatWildcardRule6 :: nft_rule where
  "dnatWildcardRule6 =
     \<lparr>rule_Chain = Prerouting, rule_Exprs =
        [Meta MetaKeyNFPROTO NFT_REG_1, Cmp NFT_REG_1 [NFPROTO_IPV6],
         Meta MetaKeyL4PROTO NFT_REG_1,
         Payload NFT_REG32_01 PayloadBaseTransportHeader 2 2,
         Lookup NFT_REG_1 DnatWildcard6 NFT_REG_1,
         NAT NFPROTO_IPV6 NFT_REG_1 NFT_REG32_04]\<rparr>"

definition dnatSpecificRule4 :: nft_rule where
  "dnatSpecificRule4 =
     \<lparr>rule_Chain = Prerouting, rule_Exprs =
        [Meta MetaKeyNFPROTO NFT_REG_1, Cmp NFT_REG_1 [NFPROTO_IPV4],
         Meta MetaKeyL4PROTO NFT_REG_1,
         Payload NFT_REG32_01 PayloadBaseNetworkHeader 16 4,
         Payload NFT_REG32_02 PayloadBaseTransportHeader 2 2,
         Lookup NFT_REG_1 DnatSpecific4 NFT_REG_1,
         NAT NFPROTO_IPV4 NFT_REG_1 NFT_REG32_01]\<rparr>"

definition dnatSpecificRule6 :: nft_rule where
  "dnatSpecificRule6 =
     \<lparr>rule_Chain = Prerouting, rule_Exprs =
        [Meta MetaKeyNFPROTO NFT_REG32_00, Cmp NFT_REG32_00 [NFPROTO_IPV6],
         Meta MetaKeyL4PROTO NFT_REG32_00,
         Payload NFT_REG32_01 PayloadBaseNetworkHeader 24 16,
         Payload NFT_REG32_05 PayloadBaseTransportHeader 2 2,
         Lookup NFT_REG32_00 DnatSpecific6 NFT_REG_1,
         NAT NFPROTO_IPV6 NFT_REG_1 NFT_REG32_04]\<rparr>"

definition addDNATRules :: "nft_rule list" where
  "addDNATRules = [dnatWildcardRule4, dnatWildcardRule6, dnatSpecificRule4, dnatSpecificRule6]"

lemmas dnat_rule_defs = addDNATRules_def dnatWildcardRule4_def dnatWildcardRule6_def
  dnatSpecificRule4_def dnatSpecificRule6_def

text \<open>
  The rule that attaches a timeout object to the flows of a listen address: one list of
  expressions per family and kind of address.
\<close>

definition timeoutSpecific6 :: "byte \<Rightarrow> addr_port \<Rightarrow> string \<Rightarrow> nft_expr list" where
  "timeoutSpecific6 l4Protocol addr timeoutName =
     [Meta MetaKeyL4PROTO NFT_REG_1, Cmp NFT_REG_1 [l4Protocol],
      Meta MetaKeyNFPROTO NFT_REG_1, Cmp NFT_REG_1 [NFPROTO_IPV6],
      Payload NFT_REG_2 PayloadBaseNetworkHeader 24 16, Cmp NFT_REG_2 (addr_AsSlice (ap_addr addr)),
      Payload NFT_REG_3 PayloadBaseTransportHeader 2 2, Cmp NFT_REG_3 (encodePort (ap_port addr)),
      Objref timeoutName]"

definition timeoutWildcard6 :: "byte \<Rightarrow> addr_port \<Rightarrow> string \<Rightarrow> nft_expr list" where
  "timeoutWildcard6 l4Protocol addr timeoutName =
     [Meta MetaKeyL4PROTO NFT_REG_1, Cmp NFT_REG_1 [l4Protocol],
      Meta MetaKeyNFPROTO NFT_REG_1, Cmp NFT_REG_1 [NFPROTO_IPV6],
      Payload NFT_REG_2 PayloadBaseTransportHeader 2 2, Cmp NFT_REG_2 (encodePort (ap_port addr)),
      Objref timeoutName]"

definition timeoutSpecific4 :: "byte \<Rightarrow> addr_port \<Rightarrow> string \<Rightarrow> nft_expr list" where
  "timeoutSpecific4 l4Protocol addr timeoutName =
     [Meta MetaKeyL4PROTO NFT_REG_1, Cmp NFT_REG_1 [l4Protocol],
      Meta MetaKeyNFPROTO NFT_REG_1, Cmp NFT_REG_1 [NFPROTO_IPV4],
      Payload NFT_REG_2 PayloadBaseNetworkHeader 16 4, Cmp NFT_REG_2 (addr_AsSlice (ap_addr addr)),
      Payload NFT_REG_3 PayloadBaseTransportHeader 2 2, Cmp NFT_REG_3 (encodePort (ap_port addr)),
      Objref timeoutName]"

definition timeoutWildcard4 :: "byte \<Rightarrow> addr_port \<Rightarrow> string \<Rightarrow> nft_expr list" where
  "timeoutWildcard4 l4Protocol addr timeoutName =
     [Meta MetaKeyL4PROTO NFT_REG_1, Cmp NFT_REG_1 [l4Protocol],
      Meta MetaKeyNFPROTO NFT_REG_1, Cmp NFT_REG_1 [NFPROTO_IPV4],
      Payload NFT_REG_2 PayloadBaseTransportHeader 2 2, Cmp NFT_REG_2 (encodePort (ap_port addr)),
      Objref timeoutName]"

text \<open>
  The four \<open>if\<close>s of the code assign \<open>Exprs\<close> one after the other; an address of no family leaves
  it empty.
\<close>

definition defineTimeoutRule :: "byte \<Rightarrow> addr_port \<Rightarrow> string \<Rightarrow> nft_rule" where
  "defineTimeoutRule l4Protocol addr timeoutName =
     (let a = ap_addr addr;
          e0 = [];
          e1 = (if addr_Is6 a \<and> \<not> addr_IsUnspecified a
                then timeoutSpecific6 l4Protocol addr timeoutName else e0);
          e2 = (if addr_Is6 a \<and> addr_IsUnspecified a
                then timeoutWildcard6 l4Protocol addr timeoutName else e1);
          e3 = (if addr_Is4 a \<and> \<not> addr_IsUnspecified a
                then timeoutSpecific4 l4Protocol addr timeoutName else e2);
          e4 = (if addr_Is4 a \<and> addr_IsUnspecified a
                then timeoutWildcard4 l4Protocol addr timeoutName else e3)
      in \<lparr>rule_Chain = Timeouts, rule_Exprs = e4\<rparr>)"

section \<open>Keys determine what they encode\<close>

definition pad4 :: "byte list \<Rightarrow> byte list" where
  "pad4 field = field @ replicate ((4 - length field mod 4) mod 4) 0"

lemma appendConcatField_pad4: "appendConcatField dst field = dst @ pad4 field"
proof (cases "length field mod 4 = 0")
  case True
  then show ?thesis by (simp add: appendConcatField_def pad4_def)
next
  case False
  then have "(4 - length field mod 4) mod 4 = 4 - length field mod 4" by simp
  with False show ?thesis by (simp add: appendConcatField_def pad4_def Let_def)
qed

lemma length_pad4: "length (pad4 field) = length field + (4 - length field mod 4) mod 4"
  by (simp add: pad4_def)

lemma pad4_inj: "length f = length g \<Longrightarrow> pad4 f = pad4 g \<longleftrightarrow> f = g"
  unfolding pad4_def by (metis append_eq_append_conv)

lemma length_encodePort [simp]: "length (encodePort port) = 2"
  by (simp add: encodePort_def)

lemma encodePort_inj: "encodePort a = encodePort b \<longleftrightarrow> a = b"
  using unat_inj_bytes [of 2 a b] by (auto simp: encodePort_def)

lemma pad4_port: "pad4 (encodePort a) = pad4 (encodePort b) \<longleftrightarrow> a = b"
  by (simp add: pad4_inj encodePort_inj)

lemma pad4_byte: "pad4 [p] = pad4 [q] \<longleftrightarrow> p = q"
  by (simp add: pad4_inj)

lemma pad4_AsSlice [simp]: "pad4 (addr_AsSlice a) = addr_AsSlice a"
  by (cases a) (auto simp: pad4_def)

lemma encodeSpecificKey_pad4:
  "encodeSpecificKey p a = pad4 [p] @ addr_AsSlice (ap_addr a) @ pad4 (encodePort (ap_port a))"
  by (simp add: encodeSpecificKey_def appendConcatField_pad4)

lemma encodeWildcardKey_pad4: "encodeWildcardKey p port = pad4 [p] @ pad4 (encodePort port)"
  by (simp add: encodeWildcardKey_def appendConcatField_pad4)

lemma encodeMapValue_pad4:
  "encodeMapValue a = addr_AsSlice (ap_addr a) @ pad4 (encodePort (ap_port a))"
  by (simp add: encodeMapValue_def appendConcatField_pad4)

lemma length_pad4_port [simp]: "length (pad4 (encodePort a)) = 4"
  by (simp add: length_pad4)

lemma length_pad4_byte [simp]: "length (pad4 [p]) = 4"
  by (simp add: length_pad4)

lemma encodeMapValue_inj_iff:
  assumes "addr_Zone (ap_addr a) = ''''" and "addr_Zone (ap_addr b) = ''''"
  shows "encodeMapValue a = encodeMapValue b \<longleftrightarrow> a = b"
proof
  assume "encodeMapValue a = encodeMapValue b"
  then have "addr_AsSlice (ap_addr a) = addr_AsSlice (ap_addr b)" "ap_port a = ap_port b"
    by (simp_all add: encodeMapValue_pad4 pad4_port)
  with assms show "a = b" by (auto intro: addr_port.equality AsSlice_inj)
qed simp

lemma encodeSpecificKey_inj_iff:
  assumes "addr_Zone (ap_addr a) = ''''" and "addr_Zone (ap_addr b) = ''''"
  shows "encodeSpecificKey p a = encodeSpecificKey q b \<longleftrightarrow> p = q \<and> a = b"
proof
  assume "encodeSpecificKey p a = encodeSpecificKey q b"
  then have "p = q" "encodeMapValue a = encodeMapValue b"
    by (simp_all add: encodeSpecificKey_pad4 encodeMapValue_pad4 pad4_byte)
  with encodeMapValue_inj_iff [OF assms] show "p = q \<and> a = b" by simp
qed simp

lemma encodeWildcardKey_inj_iff:
  "encodeWildcardKey p a = encodeWildcardKey q b \<longleftrightarrow> p = q \<and> a = b"
  by (simp add: encodeWildcardKey_pad4 pad4_byte pad4_port)

text \<open>The set a mapping lives in, as \<open>ensureDNATAdded\<close> and \<open>ensureDNATDeleted\<close> choose it.\<close>

definition mapping_sets :: "dnat_mapping \<Rightarrow> dnat_set list" where
  "mapping_sets m =
     (let a = ap_addr (m_Source m)
      in (if addr_Is6 a then [if addr_IsUnspecified a then DnatWildcard6 else DnatSpecific6] else [])
         @ (if addr_Is4 a then [if addr_IsUnspecified a then DnatWildcard4 else DnatSpecific4] else []))"

lemma mapping_sets_wf:
  assumes "mapping_wf m"
  shows "\<exists>s. mapping_sets m = [s]"
  using assms by (auto simp: mapping_wf_def mapping_sets_def Let_def)

text \<open>Two valid mappings with the same key in the same set overlap.\<close>

lemma same_key_Overlaps:
  assumes "mapping_wf m" and "mapping_wf x" and "mapping_sets m = mapping_sets x"
    and "se_Key (compileSetElement m) = se_Key (compileSetElement x)"
  shows "mapping_Overlaps m x"
proof (cases "addr_IsUnspecified (ap_addr (m_Source m))")
  case True
  then have "addr_IsUnspecified (ap_addr (m_Source x))"
    using assms(1-3) by (auto simp: mapping_sets_def mapping_wf_def Let_def split: if_splits)
  with True assms have "m_Protocol m = m_Protocol x" "ap_port (m_Source m) = ap_port (m_Source x)"
    "addr_Is4 (ap_addr (m_Source m)) = addr_Is4 (ap_addr (m_Source x))"
    by (auto simp: compileSetElement_def encodeWildcardKey_inj_iff mapping_sets_def Let_def
          split: if_splits)
  with True show ?thesis by (simp add: mapping_Overlaps_def)
next
  case False
  then have "\<not> addr_IsUnspecified (ap_addr (m_Source x))"
    using assms(1-3) by (auto simp: mapping_sets_def mapping_wf_def Let_def split: if_splits)
  with False assms have "m_Protocol m = m_Protocol x \<and> m_Source m = m_Source x"
    by (simp add: compileSetElement_def mapping_wf_def encodeSpecificKey_inj_iff)
  then show ?thesis by (simp add: mapping_Overlaps_same_source)
qed

end
