(* ===== verification/Config_Spec.thy ===== *)
theory Config_Spec
  imports Config_Validate Nft_Rules
begin

text \<open>
  The properties of the configuration layer: which documents \<open>Validate\<close> accepts, and that the text
  forms of timeouts, protocols and references read back what was written.
\<close>

section \<open>Validate\<close>

text \<open>
  C21. \<open>Config.Validate\<close> accepts a document exactly when it is well formed: version v1, a log
  output, the three sections present, unique non-empty names, known protocols, valid addresses,
  positive timeouts, and every frontend bound to an endpoint that a target of the document defines.
\<close>

theorem Validate_accepts_iff:
  "config_Validate (Some c) = None \<longleftrightarrow> config_wf c"
proof (cases "c_Targets c")
  case None
  then show ?thesis by (auto simp: config_wf_def)
next
  case (Some ts)
  show ?thesis
  proof (cases "c_Frontends c")
    case None
    with Some show ?thesis by (auto simp: config_wf_def)
  next
    case f: (Some fs)
    have "(case validate_targets [] ts of Some e \<Rightarrow> Some e | None \<Rightarrow> validate_frontends ts [] fs) = None \<longleftrightarrow>
        validate_targets [] ts = None \<and> validate_frontends ts [] fs = None"
      by (cases "validate_targets [] ts") simp_all
    also have "\<dots> \<longleftrightarrow> list_all target_wf ts \<and> distinct (map tc_Name ts)
        \<and> list_all (frontend_wf ts) fs \<and> distinct (map fc_Name fs)"
      using validate_frontends_None [of ts "[]" fs] by (auto simp: validate_targets_None)
    finally show ?thesis
      using Some f by (simp add: config_wf_def ConfigVersionV1_def)
  qed
qed

section \<open>Timeouts\<close>

text \<open>
  \<open>ParseTTL\<close> answers the whole seconds of the parsed duration, without loss: it accepts a
  text exactly when \<open>time.ParseDuration\<close> reads it as a duration from 0 to \<open>TTLMax\<close> seconds.
\<close>

theorem ParseTTL_exact:
  "ParseTTL fr text = Inr t \<longleftrightarrow>
     (\<exists>d. ParseDuration fr text = Inr d \<and> 0 \<le> d \<and> d \<le> uint TTLMax * 1000000000
        \<and> uint t = d div 1000000000)"
proof
  assume "ParseTTL fr text = Inr t"
  then show "\<exists>d. ParseDuration fr text = Inr d \<and> 0 \<le> d \<and> d \<le> uint TTLMax * 1000000000
        \<and> uint t = d div 1000000000"
    by (rule ParseTTL_value) (auto simp: ttl_consts)
next
  assume "\<exists>d. ParseDuration fr text = Inr d \<and> 0 \<le> d \<and> d \<le> uint TTLMax * 1000000000
        \<and> uint t = d div 1000000000"
  then obtain d where d: "ParseDuration fr text = Inr d" "0 \<le> d" "d \<le> ttlMaxDuration"
    and t: "uint t = d div Second"
    by (auto simp: ttl_consts)
  have "word_of_int (d div Second) = t" using t by (metis word_of_int_uint)
  with d show "ParseTTL fr text = Inr t" by (simp add: ParseTTL_def ttlMinDuration_def)
qed

text \<open>
  A timeout reads back: unmarshalling the text of any timeout gives that timeout, and
  \<open>ToDuration\<close> never wraps its 64-bit product.
\<close>

theorem ttl_roundtrip:
  "ttl_UnmarshalText fr t0 (ttl_MarshalText t) = (None, t) \<and> sint (ttl_ToDuration t) = uint t * 1000000000"
proof -
  have "uint t \<le> 4294967295" using unsigned_less [of t, where ?'a = int] by simp
  moreover have "0 \<le> uint t" by simp
  ultimately have "sint (word_of_int (uint t * 1000000000) :: 64 word) = uint t * 1000000000"
    unfolding int_word_sint by simp
  moreover have "ttl_ToDuration t = word_of_int (uint t * 1000000000)"
    by (simp only: ttl_ToDuration_def Second_def ucast_eq wi_hom_mult)
  ultimately show ?thesis
    by (simp add: ttl_UnmarshalText_def ttl_MarshalText_def ParseTTL_String)
qed

section \<open>References and protocols\<close>

text \<open>
  \<open>ParseNamespaceReference\<close> reads exactly the texts \<open>namespace:name\<close> whose two parts are not
  empty and have no colon, and reading the text of such a reference gives it back.
\<close>

theorem reference_parse_iff:
  "ref_UnmarshalText r0 s = (None, r) \<longleftrightarrow>
     s = ref_MarshalText r \<and> ref_Namespace r \<noteq> '''' \<and> CHR '':'' \<notin> set (ref_Namespace r)
     \<and> ref_Name r \<noteq> '''' \<and> CHR '':'' \<notin> set (ref_Name r)"
  using ParseNamespaceReference_iff [of s r]
  by (cases "ParseNamespaceReference s")
    (auto simp: ref_UnmarshalText_def ref_MarshalText_def ref_part_ok_def)

text \<open>
  Protocols read back: \<open>ParseProtocol\<close> answers \<open>p\<close> exactly on the text of the valid protocol
  \<open>p\<close>, so a protocol that was read is valid.
\<close>

theorem protocol_parse_iff:
  "ParseProtocol s = Inr p \<longleftrightarrow> protocol_IsValid p \<and> s = protocol_MarshalText p"
  by (auto simp: protocol_defs)

section \<open>nftables keys\<close>

text \<open>
  Two valid mappings that do not overlap never share an element of an nftables set: the
  kernel accepts and tells apart the elements of any set of accepted mappings.
\<close>

theorem set_keys_distinct:
  assumes "mapping_Validate m = None" and "mapping_Validate x = None" and "\<not> mapping_Overlaps m x"
    and "mapping_sets m = mapping_sets x"
  shows "se_Key (compileSetElement m) \<noteq> se_Key (compileSetElement x)"
  using assms same_key_Overlaps by (auto simp: mapping_Validate_None)

theorem set_keys_distinct_witness:
  "(let m = \<lparr>m_Source = \<lparr>ap_addr = IP4 0, ap_port = 80\<rparr>,
       m_Destination = \<lparr>ap_addr = IP4 0x0A000002, ap_port = 8080\<rparr>, m_Timeout = 0, m_Protocol = ProtocolTCP\<rparr>;
     x = m\<lparr>m_Source := \<lparr>ap_addr = IP4 0, ap_port = 81\<rparr>,
           m_Destination := \<lparr>ap_addr = IP4 0x0A000002, ap_port = 8081\<rparr>\<rparr>
   in se_Key (compileSetElement m) \<noteq> se_Key (compileSetElement x))"
  unfolding Let_def by (rule set_keys_distinct; code_simp)

end
