(* ===== verification/Connft.thy ===== *)
theory Connft
  imports Nft_Rules
begin

text \<open>
  \<open>pkg/dataplane/connft\<close>: the dataplane over nftables and conntrack. Groups live in a store that
  maps group identities to their records, because targets keep pointers to them after they have
  been closed and removed from the table of groups. Every exported method runs under the lock of
  the dataplane, so an operation is one function from state to state.

  The nftables and conntrack connections are libraries: their state is the type parameter \<open>'n\<close> and
  their operations are the record \<open>nft_ops\<close>, the first argument of every definition that calls
  them. \<open>nft_Call\<close> queues one request, \<open>nft_Flush\<close> sends what is queued.
\<close>

section \<open>State\<close>

datatype nft_error = ENOENT | NftErr string

datatype ct_state = CtStateUDPUNREPLIED | CtStateUDPREPLIED | CtStateTCPESTABLISHED
  | CtStateTCPFINWAIT | CtStateTCPTIMEWAIT | CtStateTCPCLOSEWAIT | CtStateTCPLASTACK
  | CtStateTCPCLOSE

record timeout_obj =
  to_Name :: string
  to_L3Proto :: u16
  to_L4Proto :: u8
  to_Policy :: "(ct_state, u32) gomap"

datatype nft_datatype = TypeInetProto | TypeInetService | TypeIPAddr | TypeIP6Addr

datatype nft_msg =
    DelTable "string option"
  | CreateTable string
  | AddSet dnat_set "nft_datatype list" "nft_datatype list"
  | AddChain nft_chain
  | AddRule nft_rule
  | DelRule nft_rule
  | AddObj timeout_obj
  | DeleteObject timeout_obj
  | SetAddElements dnat_set "set_element list"
  | SetDeleteElements dnat_set "set_element list"

text \<open>The reply direction of a tracked flow, as conntrack reports it.\<close>

record flow =
  flow_SourceAddress :: ip_addr
  flow_SourcePort :: u16
  flow_Protocol :: u8

record 'n nft_ops =
  nft_Call :: "nft_msg \<Rightarrow> 'n \<Rightarrow> nft_error option \<times> 'n"
  nft_Flush :: "'n \<Rightarrow> nft_error option \<times> 'n"
  nft_ListTable :: "string \<Rightarrow> 'n \<Rightarrow> nft_error option \<times> bool \<times> 'n"
  ct_DumpFilter :: "'n \<Rightarrow> (nft_error + flow list) \<times> 'n"
  ct_Close :: "'n \<Rightarrow> 'n"

datatype dp_error =
    DpErrClosed
  | DpErrGroupAlreadyRegistered
  | DpErrNoSuchMapping
  | DpInvalidMapping mapping_error
  | DpOverlapsNew dnat_mapping dnat_mapping
  | DpOverlapsGroup dnat_mapping string dnat_mapping
  | DpNft string nft_error
  | DpJoined "dp_error list"

type_synonym dnat_key = "addr_port \<times> protocol"

record flow_info =
  fi_Obj :: timeout_obj
  fi_Rule :: "nft_rule option"

record connft_group =
  cg_name :: string
  cg_bySrc :: "(dnat_key, dnat_mapping) gomap"
  cg_byDst :: "(dnat_key, dnat_mapping) gomap"
  cg_flowInfo :: "(dnat_key, flow_info) gomap"
  cg_lastSeen :: int
  cg_ttl :: ttl
  cg_enabled :: bool
  cg_closed :: bool

type_synonym gid = nat

record 'n connft =
  d_name :: string
  d_nft :: 'n
  d_table :: "string option"
  d_groups :: "(string, gid) gomap"
  d_heap :: "gid \<Rightarrow> connft_group"
  d_next :: gid
  d_closed :: bool

definition upd_group :: "gid \<Rightarrow> (connft_group \<Rightarrow> connft_group) \<Rightarrow> 'n connft \<Rightarrow> 'n connft" where
  "upd_group g f d = d\<lparr>d_heap := (d_heap d)(g := f (d_heap d g))\<rparr>"

definition src_key :: "dnat_mapping \<Rightarrow> dnat_key" where
  "src_key m = (m_Source m, m_Protocol m)"

definition dst_key :: "dnat_mapping \<Rightarrow> dnat_key" where
  "dst_key m = (m_Destination m, m_Protocol m)"

section \<open>Requests to nftables\<close>

definition nft_do :: "'n nft_ops \<Rightarrow> nft_msg \<Rightarrow> 'n connft \<Rightarrow> nft_error option \<times> 'n connft" where
  "nft_do K msg d = (let (r, n) = nft_Call K msg (d_nft d) in (r, d\<lparr>d_nft := n\<rparr>))"

definition nft_flush :: "'n nft_ops \<Rightarrow> 'n connft \<Rightarrow> nft_error option \<times> 'n connft" where
  "nft_flush K d = (let (r, n) = nft_Flush K (d_nft d) in (r, d\<lparr>d_nft := n\<rparr>))"

text \<open>\<open>err != nil && !errors.Is(err, unix.ENOENT)\<close>\<close>

definition not_ENOENT :: "nft_error option \<Rightarrow> nft_error option" where
  "not_ENOENT r = (if r = Some ENOENT then None else r)"

fun nft_do_all :: "'n nft_ops \<Rightarrow> nft_msg list \<Rightarrow> 'n connft \<Rightarrow> 'n connft" where
  "nft_do_all K [] d = d"
| "nft_do_all K (msg # msgs) d = nft_do_all K msgs (snd (nft_do K msg d))"

definition keyWildcard :: "nft_datatype list" where
  "keyWildcard = [TypeInetProto, TypeInetService]"

definition keySpecific4 :: "nft_datatype list" where
  "keySpecific4 = [TypeInetProto, TypeIPAddr, TypeInetService]"

definition keySpecific6 :: "nft_datatype list" where
  "keySpecific6 = [TypeInetProto, TypeIP6Addr, TypeInetService]"

definition value4 :: "nft_datatype list" where
  "value4 = [TypeIPAddr, TypeInetService]"

definition value6 :: "nft_datatype list" where
  "value6 = [TypeIP6Addr, TypeInetService]"

text \<open>The sets are declared one by one; the first that is refused ends the function.\<close>

fun add_sets :: "'n nft_ops \<Rightarrow> (string \<times> nft_msg) list \<Rightarrow> 'n connft \<Rightarrow> dp_error option \<times> 'n connft"
where
  "add_sets K [] d = (None, d)"
| "add_sets K ((what, msg) # rest) d =
     (case nft_do K msg d of
        (Some e, d1) \<Rightarrow> (Some (DpNft what e), d1)
      | (None, d1) \<Rightarrow> add_sets K rest d1)"

definition dnat_set_decls :: "(string \<times> nft_msg) list" where
  "dnat_set_decls =
    [(''define specific ipv4 dnat set'', AddSet DnatSpecific4 keySpecific4 value4),
     (''define specific ipv6 dnat set'', AddSet DnatSpecific6 keySpecific6 value6),
     (''define wildcard ipv4 dnat set'', AddSet DnatWildcard4 keyWildcard value4),
     (''define wildcard ipv6 dnat set'', AddSet DnatWildcard6 keyWildcard value6)]"

definition ensureTableAdded :: "'n nft_ops \<Rightarrow> 'n connft \<Rightarrow> dp_error option \<times> 'n connft" where
  "ensureTableAdded K d =
     (let (err0, existing, n) = nft_ListTable K (d_name d) (d_nft d);
          d0 = d\<lparr>d_nft := n\<rparr>;
          (err, d1) = (if err0 = None \<and> existing
                       then nft_flush K (snd (nft_do K (DelTable (Some (d_name d))) d0))
                       else (err0, d0))
      in case not_ENOENT err of
           Some e \<Rightarrow> (Some (DpNft ''delete existing table'' e), d1)
         | None \<Rightarrow>
             (case add_sets K dnat_set_decls
                     ((snd (nft_do K (CreateTable (d_name d)) d1))\<lparr>d_table := Some (d_name d)\<rparr>) of
                (Some e, d2) \<Rightarrow> (Some e, d2)
              | (None, d2) \<Rightarrow>
                  (case nft_flush K (nft_do_all K [AddChain Prerouting, AddChain Timeouts] d2) of
                     (Some e, d3) \<Rightarrow> (Some (DpNft ''create table'' e), d3)
                   | (None, d3) \<Rightarrow>
                       (case nft_flush K (nft_do_all K (map AddRule addDNATRules) d3) of
                          (Some e, d4) \<Rightarrow> (Some (DpNft ''create table rules'' e), d4)
                        | (None, d4) \<Rightarrow> (None, d4)))))"

text \<open>
  The table handle is \<open>nil\<close> until \<open>ensureTableAdded\<close> has got past the removal of an old table;
  \<open>DelTable\<close> is handed whatever the handle is then.
\<close>

definition ensureTableDeleted :: "'n nft_ops \<Rightarrow> 'n connft \<Rightarrow> dp_error option \<times> 'n connft" where
  "ensureTableDeleted K d =
     (let (err, d1) = nft_flush K (snd (nft_do K (DelTable (d_table d)) d))
      in (map_option (DpNft '''') (not_ENOENT err), d1))"

definition ensureTimeoutDeleted ::
    "'n nft_ops \<Rightarrow> gid \<Rightarrow> protocol \<Rightarrow> addr_port \<Rightarrow> 'n connft \<Rightarrow> dp_error option \<times> 'n connft" where
  "ensureTimeoutDeleted K g proto addr d =
     (case map_of (cg_flowInfo (d_heap d g)) (addr, proto) of
        None \<Rightarrow> (None, d)
      | Some info \<Rightarrow>
          (let (err1, d1) = (case fi_Rule info of None \<Rightarrow> (None, d) | Some r \<Rightarrow> nft_do K (DelRule r) d)
           in case not_ENOENT err1 of
                Some e \<Rightarrow> (Some (DpNft ''prepare delete ttl rule'' e), d1)
              | None \<Rightarrow>
                  (let (err2, d2) = nft_flush K (snd (nft_do K (DeleteObject (fi_Obj info)) d1))
                   in case not_ENOENT err2 of
                        Some e \<Rightarrow> (Some (DpNft ''delete ttl rule'' e), d2)
                      | None \<Rightarrow>
                          (None, upd_group g (\<lambda>gr. gr\<lparr>cg_flowInfo :=
                                   AList.delete (addr, proto) (cg_flowInfo gr)\<rparr>) d2))))"

definition ttl_states :: "ct_state list" where
  "ttl_states = [CtStateUDPUNREPLIED, CtStateUDPREPLIED, CtStateTCPESTABLISHED, CtStateTCPFINWAIT,
     CtStateTCPTIMEWAIT, CtStateTCPCLOSEWAIT, CtStateTCPLASTACK, CtStateTCPCLOSE]"

text \<open>
  The policy of an existing object is written in place before the flush, so the write stays when
  the flush fails. A new object and its rule are recorded only after a successful flush.
\<close>

definition ensureTimeoutSet ::
    "'n nft_ops \<Rightarrow> gid \<Rightarrow> protocol \<Rightarrow> addr_port \<Rightarrow> ttl \<Rightarrow> 'n connft \<Rightarrow> dp_error option \<times> 'n connft"
where
  "ensureTimeoutSet K g proto addr t d =
     (if t = 0 then ensureTimeoutDeleted K g proto addr d
      else case map_of (cg_flowInfo (d_heap d g)) (addr, proto) of
        Some info \<Rightarrow>
          (let obj = (fi_Obj info)\<lparr>to_Policy :=
                        foldl (\<lambda>p s. AList.update s (ttl_Seconds t) p) (to_Policy (fi_Obj info)) ttl_states\<rparr>;
               d1 = upd_group g (\<lambda>gr. gr\<lparr>cg_flowInfo :=
                      AList.update (addr, proto) (info\<lparr>fi_Obj := obj\<rparr>) (cg_flowInfo gr)\<rparr>) d
           in case nft_flush K (snd (nft_do K (AddObj obj) d1)) of
                (Some e, d2) \<Rightarrow> (Some (DpNft ''update flow timeout object'' e), d2)
              | (None, d2) \<Rightarrow> (None, d2))
      | None \<Rightarrow>
          (let l3 = (if addr_Is6 (ap_addr addr) then ucast NFPROTO_IPV6
                     else if addr_Is4 (ap_addr addr) then ucast NFPROTO_IPV4 else 0);
               obj = \<lparr>to_Name = encodeTimeoutObjName proto addr, to_L3Proto = l3, to_L4Proto = proto,
                      to_Policy = map (\<lambda>s. (s, ttl_Seconds t)) ttl_states\<rparr>;
               rule = defineTimeoutRule proto addr (to_Name obj)
           in case nft_flush K (nft_do_all K [AddObj obj, AddRule rule] d) of
                (Some e, d2) \<Rightarrow> (Some (DpNft ''create ttl rules'' e), d2)
              | (None, d2) \<Rightarrow>
                  (None, upd_group g (\<lambda>gr. gr\<lparr>cg_flowInfo :=
                           AList.update (addr, proto) \<lparr>fi_Obj = obj, fi_Rule = Some rule\<rparr>
                             (cg_flowInfo gr)\<rparr>) d2)))"

definition dnat_elements :: "dnat_mapping list \<Rightarrow> (dnat_set \<times> set_element) list" where
  "dnat_elements ms = concat (map (\<lambda>m. map (\<lambda>s. (s, compileSetElement m)) (mapping_sets m)) ms)"

fun queue_elements ::
    "'n nft_ops \<Rightarrow> (dnat_set \<Rightarrow> set_element list \<Rightarrow> nft_msg) \<Rightarrow> (dnat_set \<times> set_element) list
      \<Rightarrow> 'n connft \<Rightarrow> nft_error option \<times> 'n connft" where
  "queue_elements K f [] d = (None, d)"
| "queue_elements K f ((s, e) # rest) d =
     (case nft_do K (f s [e]) d of
        (Some err, d1) \<Rightarrow> (Some err, d1)
      | (None, d1) \<Rightarrow> queue_elements K f rest d1)"

definition ensureDNATAdded ::
    "'n nft_ops \<Rightarrow> dnat_mapping list \<Rightarrow> 'n connft \<Rightarrow> dp_error option \<times> 'n connft" where
  "ensureDNATAdded K ms d =
     (if ms = [] then (None, d)
      else case queue_elements K SetAddElements (dnat_elements ms) d of
        (Some e, d1) \<Rightarrow> (Some (DpNft ''prepare add elements'' e), d1)
      | (None, d1) \<Rightarrow>
          (case nft_flush K d1 of
             (Some e, d2) \<Rightarrow> (Some (DpNft ''add elements'' e), d2)
           | (None, d2) \<Rightarrow> (None, d2)))"

definition ensureDNATDeleted ::
    "'n nft_ops \<Rightarrow> dnat_mapping list \<Rightarrow> 'n connft \<Rightarrow> dp_error option \<times> 'n connft" where
  "ensureDNATDeleted K ms d =
     (if ms = [] then (None, d)
      else case queue_elements K SetDeleteElements (dnat_elements ms) d of
        (Some e, d1) \<Rightarrow> (Some (DpNft ''prepare del elements'' e), d1)
      | (None, d1) \<Rightarrow>
          (case nft_flush K d1 of
             (Some e, d2) \<Rightarrow> (Some (DpNft ''remove elements'' e), d2)
           | (None, d2) \<Rightarrow> (None, d2)))"

section \<open>Groups\<close>

definition group_mappings :: "connft_group \<Rightarrow> dnat_mapping list" where
  "group_mappings gr = map snd (cg_bySrc gr)"

definition existing_mappings :: "'n connft \<Rightarrow> (string \<times> dnat_mapping) list" where
  "existing_mappings d =
     concat (map (\<lambda>(name, g). map (\<lambda>x. (name, x)) (group_mappings (d_heap d g))) (d_groups d))"

fun check_new ::
    "(string \<times> dnat_mapping) list \<Rightarrow> dnat_mapping list \<Rightarrow> dnat_mapping list \<Rightarrow> dp_error option" where
  "check_new existing seen [] = None"
| "check_new existing seen (m # ms) =
     (case mapping_Validate m of
        Some e \<Rightarrow> Some (DpInvalidMapping e)
      | None \<Rightarrow>
          (case find (mapping_Overlaps m) seen of
             Some x \<Rightarrow> Some (DpOverlapsNew m x)
           | None \<Rightarrow>
               (case find (\<lambda>(name, x). mapping_Overlaps m x) existing of
                  Some (name, x) \<Rightarrow> Some (DpOverlapsGroup m name x)
                | None \<Rightarrow> check_new existing (seen @ [m]) ms)))"

definition insert_mapping :: "dnat_mapping \<Rightarrow> connft_group \<Rightarrow> connft_group" where
  "insert_mapping m gr =
     gr\<lparr>cg_bySrc := AList.update (src_key m) m (cg_bySrc gr),
        cg_byDst := AList.update (dst_key m) m (cg_byDst gr)\<rparr>"

definition remove_mapping :: "dnat_mapping \<Rightarrow> connft_group \<Rightarrow> connft_group" where
  "remove_mapping m gr =
     gr\<lparr>cg_bySrc := AList.delete (src_key m) (cg_bySrc gr),
        cg_byDst := AList.delete (dst_key m) (cg_byDst gr)\<rparr>"

text \<open>The result of \<open>ensureTimeoutSet\<close> and \<open>ensureTimeoutDeleted\<close> is dropped in these loops.\<close>

fun insert_mappings :: "'n nft_ops \<Rightarrow> gid \<Rightarrow> dnat_mapping list \<Rightarrow> 'n connft \<Rightarrow> 'n connft" where
  "insert_mappings K g [] d = d"
| "insert_mappings K g (m # ms) d =
     insert_mappings K g ms
       (snd (ensureTimeoutSet K g (m_Protocol m) (m_Source m) (m_Timeout m)
               (upd_group g (insert_mapping m) d)))"

fun remove_mappings :: "'n nft_ops \<Rightarrow> gid \<Rightarrow> dnat_mapping list \<Rightarrow> 'n connft \<Rightarrow> 'n connft" where
  "remove_mappings K g [] d = d"
| "remove_mappings K g (m # ms) d =
     remove_mappings K g ms
       (snd (ensureTimeoutDeleted K g (m_Protocol m) (m_Source m)
               (upd_group g (remove_mapping m) d)))"

definition addMappings ::
    "'n nft_ops \<Rightarrow> gid \<Rightarrow> dnat_mapping list \<Rightarrow> 'n connft \<Rightarrow> dp_error option \<times> 'n connft" where
  "addMappings K g ms d =
     (if length ms = 0 then (None, d)
      else case check_new (existing_mappings d) [] ms of
        Some e \<Rightarrow> (Some e, d)
      | None \<Rightarrow>
          (case (if cg_enabled (d_heap d g) then ensureDNATAdded K ms d else (None, d)) of
             (Some e, d1) \<Rightarrow> (Some e, d1)
           | (None, d1) \<Rightarrow> (None, insert_mappings K g ms d1)))"

fun check_present :: "connft_group \<Rightarrow> dnat_mapping list \<Rightarrow> dp_error option" where
  "check_present gr [] = None"
| "check_present gr (m # ms) =
     (case mapping_Validate m of
        Some e \<Rightarrow> Some (DpInvalidMapping e)
      | None \<Rightarrow>
          (case map_of (cg_bySrc gr) (src_key m) of
             None \<Rightarrow> Some DpErrNoSuchMapping
           | Some x \<Rightarrow> if m_Destination x \<noteq> m_Destination m then Some DpErrNoSuchMapping
                       else check_present gr ms))"

definition delMappings ::
    "'n nft_ops \<Rightarrow> gid \<Rightarrow> dnat_mapping list \<Rightarrow> 'n connft \<Rightarrow> dp_error option \<times> 'n connft" where
  "delMappings K g ms d =
     (if length ms = 0 then (None, d)
      else case check_present (d_heap d g) ms of
        Some e \<Rightarrow> (Some e, d)
      | None \<Rightarrow>
          (case (if cg_enabled (d_heap d g) then ensureDNATDeleted K ms d else (None, d)) of
             (Some e, d1) \<Rightarrow> (Some e, d1)
           | (None, d1) \<Rightarrow> (None, remove_mappings K g ms d1)))"

definition clearMappings :: "'n nft_ops \<Rightarrow> gid \<Rightarrow> 'n connft \<Rightarrow> dp_error option \<times> 'n connft" where
  "clearMappings K g d = delMappings K g (group_mappings (d_heap d g)) d"

definition close_group :: "'n nft_ops \<Rightarrow> gid \<Rightarrow> 'n connft \<Rightarrow> dp_error option \<times> 'n connft" where
  "close_group K g d =
     (if cg_closed (d_heap d g) then (None, d)
      else let (err, d1) = clearMappings K g d;
               d2 = upd_group g (\<lambda>gr. gr\<lparr>cg_closed := True\<rparr>) d1
           in (err, d2\<lparr>d_groups := AList.delete (cg_name (d_heap d2 g)) (d_groups d2)\<rparr>))"

section \<open>The exported methods of a group\<close>

definition group_Name :: "connft_group \<Rightarrow> string" where
  "group_Name dg = cg_name dg"

definition unusable :: "'n connft \<Rightarrow> gid \<Rightarrow> bool" where
  "unusable d g \<longleftrightarrow> cg_closed (d_heap d g) \<or> d_closed d"

definition group_IsEnabled :: "gid \<Rightarrow> 'n connft \<Rightarrow> bool" where
  "group_IsEnabled g d = (if unusable d g then False else cg_enabled (d_heap d g))"

definition group_Timeout :: "gid \<Rightarrow> protocol \<Rightarrow> addr_port \<Rightarrow> 'n connft \<Rightarrow> dp_error + ttl" where
  "group_Timeout g proto source d =
     (if unusable d g then Inl DpErrClosed
      else case map_of (cg_bySrc (d_heap d g)) (source, proto) of
        None \<Rightarrow> Inl DpErrNoSuchMapping
      | Some m \<Rightarrow> Inr (m_Timeout m))"

definition group_SetTimeout ::
    "'n nft_ops \<Rightarrow> gid \<Rightarrow> protocol \<Rightarrow> addr_port \<Rightarrow> ttl \<Rightarrow> 'n connft \<Rightarrow> dp_error option \<times> 'n connft"
where
  "group_SetTimeout K g proto source t d =
     (if unusable d g then (Some DpErrClosed, d)
      else case map_of (cg_bySrc (d_heap d g)) (source, proto) of
        None \<Rightarrow> (Some DpErrNoSuchMapping, d)
      | Some m \<Rightarrow>
          (if m_Timeout m = t then (None, d)
           else (case ensureTimeoutSet K g proto source t d of
             (Some e, d1) \<Rightarrow> (Some e, d1)
           | (None, d1) \<Rightarrow>
               (None, upd_group g (\<lambda>gr. gr\<lparr>
                  cg_bySrc := AList.update (source, proto) (m\<lparr>m_Timeout := t\<rparr>) (cg_bySrc gr),
                  cg_byDst := AList.update (dst_key m) (m\<lparr>m_Timeout := t\<rparr>) (cg_byDst gr)\<rparr>) d1))))"

definition group_Mappings :: "gid \<Rightarrow> 'n connft \<Rightarrow> dnat_mapping list" where
  "group_Mappings g d = (if unusable d g then [] else group_mappings (d_heap d g))"

definition group_AddMappings ::
    "'n nft_ops \<Rightarrow> gid \<Rightarrow> dnat_mapping list \<Rightarrow> 'n connft \<Rightarrow> dp_error option \<times> 'n connft" where
  "group_AddMappings K g ms d =
     (if unusable d g then (Some DpErrClosed, d) else addMappings K g ms d)"

definition group_DelMappings ::
    "'n nft_ops \<Rightarrow> gid \<Rightarrow> dnat_mapping list \<Rightarrow> 'n connft \<Rightarrow> dp_error option \<times> 'n connft" where
  "group_DelMappings K g ms d =
     (if unusable d g then (Some DpErrClosed, d) else delMappings K g ms d)"

definition group_ClearMappings ::
    "'n nft_ops \<Rightarrow> gid \<Rightarrow> 'n connft \<Rightarrow> dp_error option \<times> 'n connft" where
  "group_ClearMappings K g d =
     (if unusable d g then (Some DpErrClosed, d) else clearMappings K g d)"

definition group_Enable :: "'n nft_ops \<Rightarrow> gid \<Rightarrow> 'n connft \<Rightarrow> dp_error option \<times> 'n connft" where
  "group_Enable K g d =
     (if unusable d g then (Some DpErrClosed, d)
      else if cg_enabled (d_heap d g) then (None, d)
      else case ensureDNATAdded K (group_mappings (d_heap d g)) d of
        (Some e, d1) \<Rightarrow> (Some e, d1)
      | (None, d1) \<Rightarrow> (None, upd_group g (\<lambda>gr. gr\<lparr>cg_enabled := True\<rparr>) d1))"

definition group_Disable :: "'n nft_ops \<Rightarrow> gid \<Rightarrow> 'n connft \<Rightarrow> dp_error option \<times> 'n connft" where
  "group_Disable K g d =
     (if unusable d g then (Some DpErrClosed, d)
      else if \<not> cg_enabled (d_heap d g) then (None, d)
      else case ensureDNATDeleted K (group_mappings (d_heap d g)) d of
        (Some e, d1) \<Rightarrow> (Some e, d1)
      | (None, d1) \<Rightarrow> (None, upd_group g (\<lambda>gr. gr\<lparr>cg_enabled := False\<rparr>) d1))"

definition group_Close :: "'n nft_ops \<Rightarrow> gid \<Rightarrow> 'n connft \<Rightarrow> dp_error option \<times> 'n connft" where
  "group_Close K g d = close_group K g d"

section \<open>The dataplane\<close>

definition connft_Name :: "'n connft \<Rightarrow> string" where
  "connft_Name d = d_name d"

definition connft_init :: "string \<Rightarrow> 'n \<Rightarrow> 'n connft" where
  "connft_init name n =
     \<lparr>d_name = name, d_nft = n, d_table = None, d_groups = [],
      d_heap = (\<lambda>_. \<lparr>cg_name = '''', cg_bySrc = [], cg_byDst = [], cg_flowInfo = [], cg_lastSeen = 0,
                     cg_ttl = 0, cg_enabled = False, cg_closed = True\<rparr>),
      d_next = 0, d_closed = False\<rparr>"

definition NewConnftGroup :: "string \<Rightarrow> int \<Rightarrow> 'n connft \<Rightarrow> (dp_error + gid) \<times> 'n connft" where
  "NewConnftGroup name now d =
     (if d_closed d then (Inl DpErrClosed, d)
      else if map_of (d_groups d) name \<noteq> None then (Inl DpErrGroupAlreadyRegistered, d)
      else let g = d_next d;
               gr = \<lparr>cg_name = name, cg_bySrc = [], cg_byDst = [], cg_flowInfo = [], cg_lastSeen = now,
                     cg_ttl = 0, cg_enabled = False, cg_closed = False\<rparr>
           in (Inr g, d\<lparr>d_heap := (d_heap d)(g := gr), d_next := Suc g,
                        d_groups := AList.update name g (d_groups d)\<rparr>))"

definition NewGroup :: "string \<Rightarrow> int \<Rightarrow> 'n connft \<Rightarrow> (dp_error + gid) \<times> 'n connft" where
  "NewGroup name now d = NewConnftGroup name now d"

fun close_groups :: "'n nft_ops \<Rightarrow> gid list \<Rightarrow> 'n connft \<Rightarrow> dp_error option list \<times> 'n connft" where
  "close_groups K [] d = ([], d)"
| "close_groups K (g # gs) d =
     (let (e, d1) = close_group K g d; (es, d2) = close_groups K gs d1 in (e # es, d2))"

definition connft_Close :: "'n nft_ops \<Rightarrow> 'n connft \<Rightarrow> dp_error option \<times> 'n connft" where
  "connft_Close K d =
     (if d_closed d then (None, d)
      else let d0 = d\<lparr>d_closed := True\<rparr>;
               (es, d1) = close_groups K (map snd (d_groups d0)) d0;
               (e, d2) = ensureTableDeleted K d1
           in (map_option DpJoined (errors_join (es @ [e])), d2\<lparr>d_nft := ct_Close K (d_nft d2)\<rparr>))"

text \<open>\<open>New\<close> after both connections have been opened.\<close>

definition connft_New :: "'n nft_ops \<Rightarrow> string \<Rightarrow> 'n \<Rightarrow> (dp_error + 'n connft) \<times> 'n" where
  "connft_New K name n =
     (case ensureTableAdded K (connft_init name n) of
        (Some e, d) \<Rightarrow> (Inl e, d_nft (snd (connft_Close K d)))
      | (None, d) \<Rightarrow> (Inr d, d_nft d))"

section \<open>Stale groups (connft_ct.go)\<close>

definition flow_hits :: "flow \<Rightarrow> connft_group \<Rightarrow> bool" where
  "flow_hits fl gr \<longleftrightarrow>
     map_of (cg_byDst gr)
       (\<lparr>ap_addr = flow_SourceAddress fl, ap_port = flow_SourcePort fl\<rparr>, flow_Protocol fl) \<noteq> None"

fun scan_flows ::
    "'n connft \<Rightarrow> flow list \<Rightarrow> (string, gid) gomap \<Rightarrow> (string, gid) gomap" where
  "scan_flows d [] notSeen = notSeen"
| "scan_flows d (fl # fls) notSeen =
     (if length notSeen = 0 then notSeen
      else scan_flows d fls (filter (\<lambda>(name, g). \<not> flow_hits fl (d_heap d g)) notSeen))"

text \<open>The second locked region of \<open>StaleGroups\<close>, on the flows dumped before it.\<close>

definition staleGroups_scan :: "flow list \<Rightarrow> 'n connft \<Rightarrow> dp_error + gid list" where
  "staleGroups_scan flows d =
     (if d_closed d then Inl DpErrClosed
      else if length (d_groups d) = 0 then Inr []
      else Inr (map snd (scan_flows d flows (d_groups d))))"

definition StaleGroups :: "'n nft_ops \<Rightarrow> 'n connft \<Rightarrow> (dp_error + gid list) \<times> 'n connft" where
  "StaleGroups K d =
     (if d_closed d then (Inl DpErrClosed, d)
      else if length (d_groups d) = 0 then (Inr [], d)
      else let (r, n) = ct_DumpFilter K (d_nft d); d1 = d\<lparr>d_nft := n\<rparr>
           in case r of
                Inl e \<Rightarrow> (Inl (DpNft '''' e), d1)
              | Inr flows \<Rightarrow> (staleGroups_scan flows d1, d1))"

end
