(* ===== verification/Connft_Tables.thy ===== *)
theory Connft_Tables
  imports Connft
begin

text \<open>
  The tables of the dataplane without the nftables side: the abstraction \<open>tables\<close> forgets the
  connection state and the timeout objects. Every operation is described on it, and the
  invariant of the dataplane is a predicate of it.
\<close>

section \<open>The abstraction\<close>

definition core :: "connft_group \<Rightarrow> connft_group" where
  "core gr = gr\<lparr>cg_flowInfo := []\<rparr>"

definition tables :: "'n connft \<Rightarrow> unit connft" where
  "tables d = \<lparr>d_name = d_name d, d_nft = (), d_table = d_table d, d_groups = d_groups d,
     d_heap = (\<lambda>g. core (d_heap d g)), d_next = d_next d, d_closed = d_closed d\<rparr>"

lemma core_simps [simp]:
  "cg_name (core gr) = cg_name gr" "cg_bySrc (core gr) = cg_bySrc gr"
  "cg_byDst (core gr) = cg_byDst gr" "cg_enabled (core gr) = cg_enabled gr"
  "cg_closed (core gr) = cg_closed gr" "core (core gr) = core gr"
  by (simp_all add: core_def)

lemma tables_simps [simp]:
  "d_name (tables d) = d_name d" "d_groups (tables d) = d_groups d" "d_next (tables d) = d_next d"
  "d_closed (tables d) = d_closed d" "d_heap (tables d) g = core (d_heap d g)"
  "tables (d\<lparr>d_nft := n\<rparr>) = tables d"
  by (simp_all add: tables_def)

lemma tables_upd_flowInfo [simp]:
  "tables (upd_group g (\<lambda>gr. gr\<lparr>cg_flowInfo := f gr\<rparr>) d) = tables d"
  by (auto simp: tables_def upd_group_def core_def)

lemma tables_upd_group:
  assumes "\<And>gr. core (f gr) = f (core gr)"
  shows "tables (upd_group g f d) = upd_group g f (tables d)"
  using assms by (auto simp: tables_def upd_group_def)

lemma core_insert_mapping: "core (insert_mapping m gr) = insert_mapping m (core gr)"
  by (simp add: core_def insert_mapping_def)

lemma core_remove_mapping: "core (remove_mapping m gr) = remove_mapping m (core gr)"
  by (simp add: core_def remove_mapping_def)

lemma tables_eqD:
  assumes "tables d' = tables d"
  shows "d_groups d' = d_groups d" "d_next d' = d_next d" "d_closed d' = d_closed d"
    "core (d_heap d' g) = core (d_heap d g)"
  using assms tables_simps(2-5) [of d] tables_simps(2-5) [of d'] by metis+

lemma tables_eq_group:
  assumes "tables d' = tables d"
  shows "cg_bySrc (d_heap d' g) = cg_bySrc (d_heap d g)"
    "cg_byDst (d_heap d' g) = cg_byDst (d_heap d g)"
    "cg_enabled (d_heap d' g) = cg_enabled (d_heap d g)"
    "cg_closed (d_heap d' g) = cg_closed (d_heap d g)"
    "cg_name (d_heap d' g) = cg_name (d_heap d g)"
  using tables_eqD(4) [OF assms, of g] core_simps by metis+

section \<open>What the nftables helpers leave alone\<close>

lemma tables_nft_do [simp]: "tables (snd (nft_do K msg d)) = tables d"
  by (simp add: nft_do_def split: prod.splits)

lemma tables_nft_do_eq: "nft_do K msg d = (r, d') \<Longrightarrow> tables d' = tables d"
  by (metis snd_conv tables_nft_do)

lemma tables_nft_flush_eq: "nft_flush K d = (r, d') \<Longrightarrow> tables d' = tables d"
  by (auto simp: nft_flush_def split: prod.splits)

lemma tables_nft_do_all [simp]: "tables (nft_do_all K msgs d) = tables d"
  by (induction K msgs d rule: nft_do_all.induct) simp_all

lemma tables_ensureTimeoutDeleted [simp]:
  "tables (snd (ensureTimeoutDeleted K g proto addr d)) = tables d"
  by (auto simp: ensureTimeoutDeleted_def Let_def split: option.splits prod.splits
        dest!: tables_nft_flush_eq tables_nft_do_eq)

lemma tables_ensureTimeoutSet [simp]:
  "tables (snd (ensureTimeoutSet K g proto addr t d)) = tables d"
  by (auto simp: ensureTimeoutSet_def Let_def split: option.splits prod.splits
        dest!: tables_nft_flush_eq)

lemma tables_queue_elements: "queue_elements K f es d = (r, d') \<Longrightarrow> tables d' = tables d"
  by (induction K f es d rule: queue_elements.induct)
    (auto split: prod.splits option.splits dest: tables_nft_do_eq)

lemma tables_ensureDNATAdded: "ensureDNATAdded K ms d = (r, d') \<Longrightarrow> tables d' = tables d"
  by (auto simp: ensureDNATAdded_def split: if_splits prod.splits option.splits
        dest!: tables_queue_elements tables_nft_flush_eq)

lemma tables_ensureDNATDeleted: "ensureDNATDeleted K ms d = (r, d') \<Longrightarrow> tables d' = tables d"
  by (auto simp: ensureDNATDeleted_def split: if_splits prod.splits option.splits
        dest!: tables_queue_elements tables_nft_flush_eq)

lemma tables_ensureTableDeleted: "ensureTableDeleted K d = (r, d') \<Longrightarrow> tables d' = tables d"
  by (auto simp: ensureTableDeleted_def Let_def split: prod.splits dest!: tables_nft_flush_eq)

lemma tables_set_table [simp]: "tables (d\<lparr>d_table := h\<rparr>) = (tables d)\<lparr>d_table := h\<rparr>"
  by (simp add: tables_def)

lemma tables_add_sets: "add_sets K xs d = (r, d') \<Longrightarrow> tables d' = tables d"
  by (induction K xs d rule: add_sets.induct)
    (auto split: prod.splits option.splits dest!: tables_nft_do_eq)

text \<open>Of the tables \<open>ensureTableAdded\<close> changes nothing but the handle of the table.\<close>

lemma tables_ensureTableAdded:
  assumes "ensureTableAdded K d = (r, d')"
  shows "\<exists>h. tables d' = (tables d)\<lparr>d_table := h\<rparr>"
proof -
  have same: "tables d = (tables d)\<lparr>d_table := d_table d\<rparr>" by (simp add: tables_def)
  obtain err0 existing n where l: "nft_ListTable K (d_name d) (d_nft d) = (err0, existing, n)"
    by (metis prod_cases3)
  obtain err d1 where f: "(if err0 = None \<and> existing
      then nft_flush K (snd (nft_do K (DelTable (Some (d_name d))) (d\<lparr>d_nft := n\<rparr>)))
      else (err0, d\<lparr>d_nft := n\<rparr>)) = (err, d1)" by fastforce
  have d1: "tables d1 = tables d"
    using f by (auto split: if_splits dest!: tables_nft_flush_eq)
  let ?d2 = "(snd (nft_do K (CreateTable (d_name d)) d1))\<lparr>d_table := Some (d_name d)\<rparr>"
  have d2: "tables ?d2 = (tables d)\<lparr>d_table := Some (d_name d)\<rparr>" by (simp add: d1)
  show ?thesis
  proof (cases "not_ENOENT err")
    case (Some e)
    with assms l f d1 same show ?thesis by (auto simp: ensureTableAdded_def Let_def)
  next
    case None
    then have "case add_sets K dnat_set_decls ?d2 of
        (Some e, d2) \<Rightarrow> (r, d') = (Some e, d2)
      | (None, d2) \<Rightarrow>
          (case nft_flush K (nft_do_all K [AddChain Prerouting, AddChain Timeouts] d2) of
             (Some e, d3) \<Rightarrow> d' = d3
           | (None, d3) \<Rightarrow> d' = snd (nft_flush K (nft_do_all K (map AddRule addDNATRules) d3)))"
      using assms l f by (auto simp: ensureTableAdded_def Let_def split: prod.splits option.splits)
    then have "tables d' = tables ?d2"
      by (auto split: prod.splits option.splits dest!: tables_add_sets tables_nft_flush_eq)
        (metis prod.collapse tables_nft_flush_eq tables_nft_do_all)
    with d2 show ?thesis by auto
  qed
qed

section \<open>The operations on tables\<close>

definition t_insert :: "gid \<Rightarrow> dnat_mapping list \<Rightarrow> 'n connft \<Rightarrow> 'n connft" where
  "t_insert g ms d = foldl (\<lambda>d m. upd_group g (insert_mapping m) d) d ms"

definition t_remove :: "gid \<Rightarrow> dnat_mapping list \<Rightarrow> 'n connft \<Rightarrow> 'n connft" where
  "t_remove g ms d = foldl (\<lambda>d m. upd_group g (remove_mapping m) d) d ms"

definition t_close :: "gid \<Rightarrow> 'n connft \<Rightarrow> 'n connft" where
  "t_close g d = (upd_group g (\<lambda>gr. gr\<lparr>cg_closed := True\<rparr>) d)
     \<lparr>d_groups := AList.delete (cg_name (d_heap d g)) (d_groups d)\<rparr>"

lemma tables_insert_mappings: "tables (insert_mappings K g ms d) = t_insert g ms (tables d)"
  by (induction K g ms d rule: insert_mappings.induct)
    (simp_all add: t_insert_def tables_upd_group core_insert_mapping)

lemma tables_remove_mappings: "tables (remove_mappings K g ms d) = t_remove g ms (tables d)"
  by (induction K g ms d rule: remove_mappings.induct)
    (simp_all add: t_remove_def tables_upd_group core_remove_mapping)

lemma tables_addMappings:
  "addMappings K g ms d = (r, d') \<Longrightarrow>
     tables d' = (if r = None then t_insert g ms (tables d) else tables d)"
  by (auto simp: addMappings_def tables_insert_mappings t_insert_def
        split: if_splits option.splits prod.splits dest!: tables_ensureDNATAdded)

lemma tables_delMappings:
  "delMappings K g ms d = (r, d') \<Longrightarrow>
     tables d' = (if r = None then t_remove g ms (tables d) else tables d)"
  by (auto simp: delMappings_def tables_remove_mappings t_remove_def
        split: if_splits option.splits prod.splits dest!: tables_ensureDNATDeleted)

lemma tables_clearMappings:
  "clearMappings K g d = (r, d') \<Longrightarrow>
     tables d' = (if r = None then t_remove g (group_mappings (d_heap d g)) (tables d) else tables d)"
  by (simp add: clearMappings_def tables_delMappings)

lemma tables_t_close: "tables (t_close g d) = t_close g (tables d)"
  by (auto simp: t_close_def tables_def upd_group_def core_def)

lemma upd_group_simps [simp]:
  "d_groups (upd_group g f d) = d_groups d" "d_next (upd_group g f d) = d_next d"
  "d_closed (upd_group g f d) = d_closed d" "d_name (upd_group g f d) = d_name d"
  "d_nft (upd_group g f d) = d_nft d"
  "d_heap (upd_group g f d) g' = (if g' = g then f (d_heap d g) else d_heap d g')"
  by (simp_all add: upd_group_def)

lemma close_group_eq:
  "\<not> cg_closed (d_heap d g) \<Longrightarrow> clearMappings K g d = (r, d1) \<Longrightarrow>
     close_group K g d = (r, t_close g d1)"
  by (simp add: close_group_def t_close_def Let_def)

lemma tables_close_group:
  assumes "close_group K g d = (r, d')"
  shows "tables d' =
    (if cg_closed (d_heap d g) then tables d
     else t_close g (if r = None then t_remove g (group_mappings (d_heap d g)) (tables d)
                     else tables d))"
proof (cases "cg_closed (d_heap d g)")
  case True
  with assms show ?thesis by (simp add: close_group_def)
next
  case False
  obtain r1 d1 where c: "clearMappings K g d = (r1, d1)" by (cases "clearMappings K g d")
  with False assms have "r1 = r" "d' = t_close g d1" by (simp_all add: close_group_eq)
  with False tables_clearMappings [OF c] show ?thesis by (simp add: tables_t_close)
qed

section \<open>Effect on one group\<close>

text \<open>The maps of a group after a batch, for every key.\<close>

lemma t_insert_other: "g' \<noteq> g \<Longrightarrow> d_heap (t_insert g ms d) g' = d_heap d g'"
  by (induction ms arbitrary: d) (simp_all add: t_insert_def)

lemma t_remove_other: "g' \<noteq> g \<Longrightarrow> d_heap (t_remove g ms d) g' = d_heap d g'"
  by (induction ms arbitrary: d) (simp_all add: t_remove_def)

lemma t_insert_frame [simp]:
  "d_groups (t_insert g ms d) = d_groups d" "d_next (t_insert g ms d) = d_next d"
  "d_closed (t_insert g ms d) = d_closed d"
  by (induction ms arbitrary: d) (simp_all add: t_insert_def)

lemma t_remove_frame [simp]:
  "d_groups (t_remove g ms d) = d_groups d" "d_next (t_remove g ms d) = d_next d"
  "d_closed (t_remove g ms d) = d_closed d"
  by (induction ms arbitrary: d) (simp_all add: t_remove_def)

lemma t_insert_group [simp]:
  "cg_name (d_heap (t_insert g ms d) g') = cg_name (d_heap d g')"
  "cg_enabled (d_heap (t_insert g ms d) g') = cg_enabled (d_heap d g')"
  "cg_closed (d_heap (t_insert g ms d) g') = cg_closed (d_heap d g')"
  by (induction ms arbitrary: d) (simp_all add: t_insert_def insert_mapping_def)

lemma t_remove_group [simp]:
  "cg_name (d_heap (t_remove g ms d) g') = cg_name (d_heap d g')"
  "cg_enabled (d_heap (t_remove g ms d) g') = cg_enabled (d_heap d g')"
  "cg_closed (d_heap (t_remove g ms d) g') = cg_closed (d_heap d g')"
  by (induction ms arbitrary: d) (simp_all add: t_remove_def remove_mapping_def)

lemma t_insert_snoc: "t_insert g (ms @ [m]) d = upd_group g (insert_mapping m) (t_insert g ms d)"
  by (simp add: t_insert_def)

lemma t_remove_snoc: "t_remove g (ms @ [m]) d = upd_group g (remove_mapping m) (t_remove g ms d)"
  by (simp add: t_remove_def)

lemma t_insert_Cons: "t_insert g (m # ms) d = t_insert g ms (upd_group g (insert_mapping m) d)"
  by (simp add: t_insert_def)

lemma t_remove_Cons: "t_remove g (m # ms) d = t_remove g ms (upd_group g (remove_mapping m) d)"
  by (simp add: t_remove_def)

lemma t_remove_bySrc:
  "map_of (cg_bySrc (d_heap (t_remove g ms d) g)) k =
     (if k \<in> src_key ` set ms then None else map_of (cg_bySrc (d_heap d g)) k)"
  by (induction ms arbitrary: d) (auto simp: t_remove_Cons remove_mapping_def, simp add: t_remove_def)

lemma t_insert_bySrc:
  assumes "inj_on src_key (set ms)"
  shows "map_of (cg_bySrc (d_heap (t_insert g ms d) g)) k =
     (case find (\<lambda>m. src_key m = k) ms of Some m \<Rightarrow> Some m
      | None \<Rightarrow> map_of (cg_bySrc (d_heap d g)) k)"
  using assms
proof (induction ms arbitrary: d)
  case Nil
  then show ?case by (simp add: t_insert_def)
next
  case (Cons m ms)
  have "inj_on src_key (set ms)" using Cons.prems by (rule inj_on_subset) auto
  note IH = Cons.IH [OF this, of "upd_group g (insert_mapping m) d"]
  show ?case
  proof (cases "find (\<lambda>m. src_key m = k) ms")
    case None
    with IH show ?thesis by (auto simp: t_insert_Cons insert_mapping_def)
  next
    case (Some x)
    then have "x \<in> set ms" "src_key x = k" by (auto simp: find_Some_iff)
    with Cons.prems have "src_key m = k \<Longrightarrow> m = x" by (auto simp: inj_on_def)
    with Some IH show ?thesis by (auto simp: t_insert_Cons)
  qed
qed

end
