(* ===== verification/Connft_Inv.thy ===== *)
theory Connft_Inv
  imports Connft_Tables
begin

text \<open>
  The invariant of the dataplane and its preservation by every operation, whatever nftables
  answers: live groups are exactly the registered ones, the two maps of a group describe the same
  valid mappings, and no two mappings of live groups overlap.
\<close>

text \<open>Keys are pairs; quantifiers over keys stay quantifiers over keys.\<close>

declare split_paired_All [simp del] split_paired_Ex [simp del]

section \<open>The invariant\<close>

definition live :: "'n connft \<Rightarrow> gid \<Rightarrow> bool" where
  "live d g \<longleftrightarrow> \<not> cg_closed (d_heap d g)"

definition group_ok :: "connft_group \<Rightarrow> bool" where
  "group_ok gr \<longleftrightarrow> gomap_ok (cg_bySrc gr) \<and> gomap_ok (cg_byDst gr)
     \<and> (\<forall>k m. map_of (cg_bySrc gr) k = Some m \<longrightarrow> src_key m = k \<and> mapping_wf m)
     \<and> (\<forall>k m. map_of (cg_byDst gr) k = Some m \<longleftrightarrow>
            dst_key m = k \<and> map_of (cg_bySrc gr) (src_key m) = Some m)"

definition holds :: "connft_group \<Rightarrow> dnat_mapping \<Rightarrow> bool" where
  "holds gr m \<longleftrightarrow> map_of (cg_bySrc gr) (src_key m) = Some m"

definition no_overlaps :: "'n connft \<Rightarrow> bool" where
  "no_overlaps d \<longleftrightarrow> (\<forall>g g' m m'. live d g \<longrightarrow> live d g' \<longrightarrow> holds (d_heap d g) m \<longrightarrow>
     holds (d_heap d g') m' \<longrightarrow> mapping_Overlaps m m' \<longrightarrow> g = g' \<and> m = m')"

definition registered :: "'n connft \<Rightarrow> bool" where
  "registered d \<longleftrightarrow> gomap_ok (d_groups d)
     \<and> (\<forall>n g. map_of (d_groups d) n = Some g \<longleftrightarrow> live d g \<and> cg_name (d_heap d g) = n)
     \<and> (\<forall>g. live d g \<longrightarrow> g < d_next d)"

definition inv_core :: "'n connft \<Rightarrow> bool" where
  "inv_core d \<longleftrightarrow> registered d \<and> (\<forall>g. live d g \<longrightarrow> group_ok (d_heap d g)) \<and> no_overlaps d"

definition connft_inv :: "'n connft \<Rightarrow> bool" where
  "connft_inv d \<longleftrightarrow> inv_core d \<and> (d_closed d \<longrightarrow> d_groups d = [])"

lemmas inv_defs = connft_inv_def inv_core_def registered_def no_overlaps_def live_def

lemma live_tables [simp]: "live (tables d) g = live d g"
  by (simp add: live_def)

lemma group_ok_core [simp]: "group_ok (core gr) = group_ok gr"
  by (simp add: group_ok_def)

lemma holds_core [simp]: "holds (core gr) m = holds gr m"
  by (simp add: holds_def)

lemma registered_tables [simp]: "registered (tables d) = registered d"
  by (simp add: registered_def)

lemma inv_core_tables [simp]: "inv_core (tables d) = inv_core d"
  by (simp add: inv_core_def no_overlaps_def)

lemma connft_inv_tables [simp]: "connft_inv (tables d) = connft_inv d"
  by (simp add: connft_inv_def)

lemma connft_inv_tables_eq: "tables d' = tables d \<Longrightarrow> connft_inv d' = connft_inv d"
  by (metis connft_inv_tables)

lemma holds_mappings: "group_ok gr \<Longrightarrow> m \<in> set (group_mappings gr) \<longleftrightarrow> holds gr m"
  unfolding group_ok_def holds_def group_mappings_def by (metis gomap_values_iff)

lemma group_ok_byDst:
  "group_ok gr \<Longrightarrow> map_of (cg_byDst gr) k = Some m \<longleftrightarrow> dst_key m = k \<and> holds gr m"
  unfolding group_ok_def holds_def by blast

lemma group_ok_bySrc: "group_ok gr \<Longrightarrow> map_of (cg_bySrc gr) k = Some m \<Longrightarrow> src_key m = k \<and> mapping_wf m"
  unfolding group_ok_def by blast

lemma group_okI:
  assumes "gomap_ok (cg_bySrc gr)" and "gomap_ok (cg_byDst gr)"
    and "\<And>k m. map_of (cg_bySrc gr) k = Some m \<Longrightarrow> src_key m = k \<and> mapping_wf m"
    and "\<And>k m. map_of (cg_byDst gr) k = Some m \<longleftrightarrow> dst_key m = k \<and> holds gr m"
  shows "group_ok gr"
  using assms unfolding group_ok_def holds_def by blast

lemma holds_wf: "group_ok gr \<Longrightarrow> holds gr m \<Longrightarrow> mapping_wf m"
  by (auto simp: group_ok_def holds_def)

lemma same_src_Overlaps: "src_key m = src_key x \<Longrightarrow> mapping_Overlaps m x"
  by (simp add: src_key_def mapping_Overlaps_same_source)

lemma same_dst_Overlaps:
  "mapping_wf m \<Longrightarrow> mapping_wf x \<Longrightarrow> dst_key m = dst_key x \<Longrightarrow> mapping_Overlaps m x"
  by (rule mapping_Overlaps_shared) (auto simp: dst_key_def)

text \<open>The mappings the overlap check of \<open>AddMappings\<close> sees are those of the live groups.\<close>

lemma existing_mappings_iff:
  assumes "inv_core d"
  shows "(n, x) \<in> set (existing_mappings d) \<longleftrightarrow>
    (\<exists>g. live d g \<and> cg_name (d_heap d g) = n \<and> holds (d_heap d g) x)"
proof -
  have "(n, x) \<in> set (existing_mappings d) \<longleftrightarrow>
      (\<exists>g. (n, g) \<in> set (d_groups d) \<and> x \<in> set (group_mappings (d_heap d g)))"
    by (auto simp: existing_mappings_def)
  also have "\<dots> \<longleftrightarrow> (\<exists>g. live d g \<and> cg_name (d_heap d g) = n \<and> x \<in> set (group_mappings (d_heap d g)))"
    using assms by (auto simp: inv_core_def registered_def gomap_mem_iff)
  also have "\<dots> \<longleftrightarrow> (\<exists>g. live d g \<and> cg_name (d_heap d g) = n \<and> holds (d_heap d g) x)"
    using assms by (auto simp: inv_core_def holds_mappings)
  finally show ?thesis .
qed

section \<open>The checks\<close>

lemma check_new_None:
  "check_new existing seen ms = None \<longleftrightarrow>
     list_all mapping_wf ms \<and> sorted_wrt (\<lambda>x m. \<not> mapping_Overlaps m x) ms
     \<and> (\<forall>m \<in> set ms. (\<forall>x \<in> set seen. \<not> mapping_Overlaps m x)
          \<and> (\<forall>(n, x) \<in> set existing. \<not> mapping_Overlaps m x))"
proof (induction existing seen ms rule: check_new.induct)
  case (1 existing seen)
  then show ?case by simp
next
  case (2 existing seen m ms)
  show ?case
  proof (cases "mapping_Validate m")
    case (Some e)
    then have "\<not> mapping_wf m" using mapping_Validate_None [of m] by simp
    with Some show ?thesis by simp
  next
    case None
    then have wf: "mapping_wf m" by (simp add: mapping_Validate_None)
    show ?thesis
    proof (cases "find (mapping_Overlaps m) seen = None \<and>
        find (\<lambda>(n, x). mapping_Overlaps m x) existing = None")
      case True
      with None have "check_new existing seen (m # ms) = check_new existing (seen @ [m]) ms" by simp
      moreover from True have "\<forall>x \<in> set seen. \<not> mapping_Overlaps m x"
        "\<forall>(n, x) \<in> set existing. \<not> mapping_Overlaps m x"
        by (auto simp: find_None_iff)
      ultimately show ?thesis using "2.IH" None True wf by auto
    next
      case False
      then have "\<not> ((\<forall>x \<in> set seen. \<not> mapping_Overlaps m x)
          \<and> (\<forall>(n, x) \<in> set existing. \<not> mapping_Overlaps m x))"
        by (auto simp: find_None_iff)
      moreover from False None have "check_new existing seen (m # ms) \<noteq> None"
        by (auto split: option.splits)
      ultimately show ?thesis by auto
    qed
  qed
qed

lemma check_present_None:
  "check_present gr ms = None \<longleftrightarrow>
     list_all (\<lambda>m. mapping_wf m \<and> (\<exists>x. map_of (cg_bySrc gr) (src_key m) = Some x
        \<and> m_Destination x = m_Destination m)) ms"
proof (induction ms)
  case Nil
  then show ?case by simp
next
  case (Cons m ms)
  show ?case
  proof (cases "mapping_Validate m")
    case (Some e)
    then have "\<not> mapping_wf m" using mapping_Validate_None [of m] by simp
    with Some show ?thesis by simp
  next
    case None
    then have "mapping_wf m" by (simp add: mapping_Validate_None)
    with None Cons.IH show ?thesis by (auto split: option.split)
  qed
qed

section \<open>Inserting\<close>

definition fresh_for :: "'n connft \<Rightarrow> dnat_mapping \<Rightarrow> bool" where
  "fresh_for d m \<longleftrightarrow> mapping_wf m
     \<and> (\<forall>g x. live d g \<longrightarrow> holds (d_heap d g) x \<longrightarrow> \<not> mapping_Overlaps m x)"

lemma group_ok_insert:
  assumes ok: "group_ok gr" and wf: "mapping_wf m"
    and fresh: "\<And>x. holds gr x \<Longrightarrow> \<not> mapping_Overlaps m x"
  shows "group_ok (insert_mapping m gr)"
    and "holds (insert_mapping m gr) x \<longleftrightarrow> holds gr x \<or> x = m"
proof -
  have src: "map_of (cg_bySrc gr) (src_key m) = None"
  proof (cases "map_of (cg_bySrc gr) (src_key m)")
    case (Some x)
    then have "src_key x = src_key m" using group_ok_bySrc [OF ok] by blast
    with Some have "holds gr x" "mapping_Overlaps m x"
      by (simp_all add: holds_def same_src_Overlaps)
    with fresh show ?thesis by blast
  qed
  have dst: "\<And>x. holds gr x \<Longrightarrow> dst_key x \<noteq> dst_key m"
    using fresh holds_wf [OF ok] wf same_dst_Overlaps by metis
  show hold: "holds (insert_mapping m gr) x \<longleftrightarrow> holds gr x \<or> x = m" for x
    using src by (auto simp: holds_def insert_mapping_def)
  show "group_ok (insert_mapping m gr)"
  proof (rule group_okI)
    fix k x
    show "map_of (cg_byDst (insert_mapping m gr)) k = Some x \<longleftrightarrow>
      dst_key x = k \<and> holds (insert_mapping m gr) x"
      unfolding hold using group_ok_byDst [OF ok, of k x] dst [of x]
      by (auto simp: insert_mapping_def)
  next
    fix k x
    assume "map_of (cg_bySrc (insert_mapping m gr)) k = Some x"
    then show "src_key x = k \<and> mapping_wf x"
      using group_ok_bySrc [OF ok, of k x] wf by (auto simp: insert_mapping_def split: if_splits)
  qed (use ok in \<open>simp_all add: group_ok_def insert_mapping_def\<close>)
qed

lemma live_upd_insert [simp]: "live (upd_group g (insert_mapping m) d) g' = live d g'"
  by (simp add: live_def insert_mapping_def)

lemma inv_insert_one:
  assumes inv: "inv_core d" and g: "live d g" and fresh: "fresh_for d m"
  shows "inv_core (upd_group g (insert_mapping m) d)"
    and "live d g' \<Longrightarrow> holds (d_heap (upd_group g (insert_mapping m) d) g') x \<longleftrightarrow>
      holds (d_heap d g') x \<or> (g' = g \<and> x = m)"
proof -
  let ?d = "upd_group g (insert_mapping m) d"
  have ok: "group_ok (d_heap d g)" using inv g by (simp add: inv_core_def)
  have fr: "\<And>x. holds (d_heap d g) x \<Longrightarrow> \<not> mapping_Overlaps m x" and wf: "mapping_wf m"
    using fresh g by (auto simp: fresh_for_def)
  note ins = group_ok_insert [OF ok wf fr]
  show hold: "holds (d_heap ?d g') x \<longleftrightarrow> holds (d_heap d g') x \<or> (g' = g \<and> x = m)"
    if "live d g'" for g' x
    using ins(2) by auto
  have "registered ?d"
    using inv by (simp add: inv_core_def registered_def insert_mapping_def live_def)
  moreover have "group_ok (d_heap ?d g')" if "live ?d g'" for g'
    using that ins(1) inv by (auto simp: inv_core_def)
  moreover have "no_overlaps ?d"
    unfolding no_overlaps_def
  proof (intro allI impI)
    fix g1 g2 m1 m2
    assume h: "live ?d g1" "live ?d g2" "holds (d_heap ?d g1) m1" "holds (d_heap ?d g2) m2"
      and ov: "mapping_Overlaps m1 m2"
    have old: "\<not> mapping_Overlaps m y" "\<not> mapping_Overlaps y m"
      if "live d g'" "holds (d_heap d g') y" for g' y
      using fresh that mapping_Overlaps_sym [of m y] by (auto simp: fresh_for_def)
    have "holds (d_heap d g1) m1 \<or> (g1 = g \<and> m1 = m)" "holds (d_heap d g2) m2 \<or> (g2 = g \<and> m2 = m)"
      using h hold by auto
    then show "g1 = g2 \<and> m1 = m2"
      using h(1,2) ov old inv by (auto simp: inv_core_def no_overlaps_def)
  qed
  ultimately show "inv_core ?d" by (simp add: inv_core_def)
qed

lemma inv_t_insert:
  assumes "inv_core d" and "live d g" and "list_all (fresh_for d) ms"
    and "sorted_wrt (\<lambda>x m. \<not> mapping_Overlaps m x) ms"
  shows "inv_core (t_insert g ms d) \<and> (\<forall>g' x. live d g' \<longrightarrow>
    holds (d_heap (t_insert g ms d) g') x = (holds (d_heap d g') x \<or> (g' = g \<and> x \<in> set ms)))"
  using assms
proof (induction ms arbitrary: d)
  case Nil
  then show ?case by (simp add: t_insert_def)
next
  case (Cons m ms)
  let ?d = "upd_group g (insert_mapping m) d"
  have fm: "fresh_for d m" using Cons.prems(3) by simp
  note one = inv_insert_one [OF Cons.prems(1,2) fm]
  have "list_all (fresh_for ?d) ms"
    using Cons.prems(3,4) one(2) by (auto simp: list_all_iff fresh_for_def)
  moreover have "sorted_wrt (\<lambda>x m. \<not> mapping_Overlaps m x) ms" using Cons.prems(4) by simp
  ultimately have IH: "inv_core (t_insert g ms ?d) \<and> (\<forall>g' x. live ?d g' \<longrightarrow>
      holds (d_heap (t_insert g ms ?d) g') x = (holds (d_heap ?d g') x \<or> (g' = g \<and> x \<in> set ms)))"
    using Cons.IH [of ?d] one(1) Cons.prems(2) by simp
  then show ?case unfolding t_insert_Cons using one(2) by auto
qed

section \<open>Removing\<close>

definition removable :: "connft_group \<Rightarrow> dnat_mapping \<Rightarrow> bool" where
  "removable gr m \<longleftrightarrow>
     (\<forall>x. map_of (cg_bySrc gr) (src_key m) = Some x \<longrightarrow> dst_key x = dst_key m)
     \<and> (\<forall>x. map_of (cg_byDst gr) (dst_key m) = Some x \<longrightarrow> src_key x = src_key m)"

lemma removable_remove: "removable gr m \<Longrightarrow> removable (remove_mapping x gr) m"
  by (simp add: removable_def remove_mapping_def)

lemma present_removable:
  assumes ok: "group_ok gr" and x: "map_of (cg_bySrc gr) (src_key m) = Some x"
    and dst: "m_Destination x = m_Destination m"
  shows "removable gr m"
proof -
  have sx: "src_key x = src_key m" using ok x by (auto simp: group_ok_def)
  then have dx: "dst_key x = dst_key m" using dst by (simp add: src_key_def dst_key_def)
  have "map_of (cg_byDst gr) (dst_key m) = Some x"
    using ok x sx dx by (simp add: group_ok_def)
  with x sx dx show ?thesis by (simp add: removable_def)
qed

lemma group_ok_remove:
  assumes ok: "group_ok gr" and r: "removable gr m"
  shows "group_ok (remove_mapping m gr)"
    and "holds (remove_mapping m gr) x \<longleftrightarrow> holds gr x \<and> src_key x \<noteq> src_key m"
proof -
  show hold: "holds (remove_mapping m gr) x \<longleftrightarrow> holds gr x \<and> src_key x \<noteq> src_key m" for x
    by (auto simp: holds_def remove_mapping_def)
  show "group_ok (remove_mapping m gr)"
  proof (rule group_okI)
    fix k x
    have "dst_key x = dst_key m \<and> holds gr x \<Longrightarrow> src_key x = src_key m"
      using r group_ok_byDst [OF ok, of "dst_key m" x] by (simp add: removable_def)
    moreover have "holds gr x \<Longrightarrow> src_key x = src_key m \<Longrightarrow> dst_key x = dst_key m"
      using r by (simp add: removable_def holds_def)
    ultimately show "map_of (cg_byDst (remove_mapping m gr)) k = Some x \<longleftrightarrow>
      dst_key x = k \<and> holds (remove_mapping m gr) x"
      unfolding hold using group_ok_byDst [OF ok, of k x] by (auto simp: remove_mapping_def)
  next
    fix k x
    assume "map_of (cg_bySrc (remove_mapping m gr)) k = Some x"
    then show "src_key x = k \<and> mapping_wf x"
      using group_ok_bySrc [OF ok, of k x] by (simp add: remove_mapping_def split: if_splits)
  qed (use ok in \<open>simp_all add: group_ok_def remove_mapping_def\<close>)
qed

lemma inv_remove_one:
  assumes inv: "inv_core d" and g: "live d g" and r: "removable (d_heap d g) m"
  shows "inv_core (upd_group g (remove_mapping m) d)"
proof -
  let ?d = "upd_group g (remove_mapping m) d"
  have ok: "group_ok (d_heap d g)" using inv g by (simp add: inv_core_def)
  note rem = group_ok_remove [OF ok r]
  have lv: "live ?d g' = live d g'" for g'
    by (simp add: live_def remove_mapping_def)
  have sub: "holds (d_heap ?d g') x \<Longrightarrow> holds (d_heap d g') x" for g' x
    using rem(2) by (simp split: if_splits)
  have "registered ?d"
    using inv by (simp add: inv_core_def registered_def remove_mapping_def live_def)
  moreover have "group_ok (d_heap ?d g')" if "live ?d g'" for g'
    using that rem(1) inv lv by (auto simp: inv_core_def)
  moreover have "no_overlaps ?d"
    using inv sub lv unfolding inv_core_def no_overlaps_def by metis
  ultimately show ?thesis by (simp add: inv_core_def)
qed

lemma inv_t_remove:
  assumes "inv_core d" and "live d g" and "list_all (removable (d_heap d g)) ms"
  shows "inv_core (t_remove g ms d)"
  using assms
proof (induction ms arbitrary: d)
  case Nil
  then show ?case by (simp add: t_remove_def)
next
  case (Cons m ms)
  let ?d = "upd_group g (remove_mapping m) d"
  have "inv_core ?d" using Cons.prems by (intro inv_remove_one) simp_all
  moreover have "live ?d g" using Cons.prems(2) by (simp add: live_def remove_mapping_def)
  moreover have "list_all (removable (d_heap ?d g)) ms"
    using Cons.prems(3) by (auto simp: list_all_iff removable_remove)
  ultimately show ?case unfolding t_remove_Cons by (rule Cons.IH)
qed

section \<open>Every operation keeps the invariant\<close>

lemma addMappings_fresh:
  assumes inv: "inv_core d" and add: "addMappings K g ms d = (None, d')"
  shows "list_all (fresh_for d) ms \<and> sorted_wrt (\<lambda>x m. \<not> mapping_Overlaps m x) ms"
proof (cases "ms = []")
  case True
  then show ?thesis by simp
next
  case False
  with add have "check_new (existing_mappings d) [] ms = None"
    by (auto simp: addMappings_def split: option.splits)
  then have wf: "list_all mapping_wf ms" and sw: "sorted_wrt (\<lambda>x m. \<not> mapping_Overlaps m x) ms"
    and ex: "\<forall>m \<in> set ms. \<forall>(n, x) \<in> set (existing_mappings d). \<not> mapping_Overlaps m x"
    by (simp_all add: check_new_None)
  have "fresh_for d m" if m: "m \<in> set ms" for m
    unfolding fresh_for_def
  proof (intro conjI allI impI)
    show "mapping_wf m" using wf m by (simp add: list_all_iff)
  next
    fix g x
    assume "live d g" "holds (d_heap d g) x"
    then have "(cg_name (d_heap d g), x) \<in> set (existing_mappings d)"
      using inv by (auto simp: existing_mappings_iff)
    with ex m show "\<not> mapping_Overlaps m x" by auto
  qed
  with sw show ?thesis by (simp add: list_all_iff)
qed

lemma fresh_for_tables [simp]: "fresh_for (tables d) m = fresh_for d m"
  by (simp add: fresh_for_def)

lemma inv_addMappings:
  assumes inv: "inv_core d" and g: "live d g" and add: "addMappings K g ms d = (r, d')"
  shows "inv_core d'"
proof (cases r)
  case None
  with add have fresh: "list_all (fresh_for d) ms" and sw: "sorted_wrt (\<lambda>x m. \<not> mapping_Overlaps m x) ms"
    using addMappings_fresh [OF inv] by auto
  have "list_all (fresh_for (tables d)) ms" using fresh by (simp add: list_all_iff)
  then have "inv_core (t_insert g ms (tables d))"
    using inv_t_insert [of "tables d" g ms] inv g sw by simp
  with None tables_addMappings [OF add] show ?thesis by (metis inv_core_tables)
next
  case (Some e)
  with tables_addMappings [OF add] inv show ?thesis by (metis inv_core_tables option.distinct(1))
qed

lemma removable_core [simp]: "removable (core gr) m = removable gr m"
  by (simp add: removable_def)

lemma check_present_removable:
  assumes "group_ok gr" and "check_present gr ms = None"
  shows "list_all (removable gr) ms"
  using assms present_removable [of gr] by (auto simp: check_present_None list_all_iff)

lemma inv_delMappings:
  assumes inv: "inv_core d" and g: "live d g" and del: "delMappings K g ms d = (r, d')"
  shows "inv_core d'"
proof (cases "r = None \<and> ms \<noteq> []")
  case True
  with del have "check_present (d_heap d g) ms = None"
    by (auto simp: delMappings_def split: option.splits)
  moreover have "group_ok (d_heap d g)" using inv g by (simp add: inv_core_def)
  ultimately have "list_all (removable (d_heap (tables d) g)) ms"
    using check_present_removable by (auto simp: list_all_iff)
  then have "inv_core (t_remove g ms (tables d))"
    using inv g by (intro inv_t_remove) simp_all
  with True tables_delMappings [OF del] show ?thesis by (metis inv_core_tables)
next
  case False
  then have "tables d' = tables d"
    using tables_delMappings [OF del] by (auto simp: t_remove_def)
  with inv show ?thesis by (metis inv_core_tables)
qed

lemma inv_t_close:
  assumes inv: "inv_core d" and g: "live d g"
  shows "inv_core (t_close g d)"
    and "map_of (d_groups (t_close g d)) n =
      (if map_of (d_groups d) n = Some g then None else map_of (d_groups d) n)"
proof -
  let ?d = "t_close g d"
  have name: "map_of (d_groups d) (cg_name (d_heap d g)) = Some g"
    and all: "\<And>n g. map_of (d_groups d) n = Some g \<longleftrightarrow> live d g \<and> cg_name (d_heap d g) = n"
    using inv g by (auto simp: inv_core_def registered_def)
  show "map_of (d_groups ?d) n =
      (if map_of (d_groups d) n = Some g then None else map_of (d_groups d) n)"
  proof (cases "n = cg_name (d_heap d g)")
    case True
    with name show ?thesis by (simp add: t_close_def)
  next
    case False
    then have "map_of (d_groups d) n \<noteq> Some g" using all [of n g] by blast
    with False show ?thesis by (simp add: t_close_def)
  qed
  have heap: "d_heap ?d g' = (if g' = g then (d_heap d g)\<lparr>cg_closed := True\<rparr> else d_heap d g')" for g'
    by (simp add: t_close_def)
  then have lv: "live ?d g' \<longleftrightarrow> live d g' \<and> g' \<noteq> g" for g' by (simp add: live_def)
  have uniq: "ga = g" if "live d ga" "cg_name (d_heap d ga) = cg_name (d_heap d g)" for ga
  proof -
    have "map_of (d_groups d) (cg_name (d_heap d g)) = Some ga" using that all by blast
    with name show ?thesis by simp
  qed
  have grp: "map_of (d_groups ?d) n = Some ga \<longleftrightarrow> live ?d ga \<and> cg_name (d_heap ?d ga) = n" for n ga
  proof -
    have "map_of (d_groups ?d) n = Some ga \<longleftrightarrow>
        map_of (d_groups d) n = Some ga \<and> n \<noteq> cg_name (d_heap d g)"
      by (simp add: t_close_def)
    also have "\<dots> \<longleftrightarrow> live d ga \<and> cg_name (d_heap d ga) = n \<and> ga \<noteq> g"
      unfolding all using uniq [of ga] by metis
    also have "\<dots> \<longleftrightarrow> live ?d ga \<and> cg_name (d_heap ?d ga) = n"
      unfolding lv heap by (cases "ga = g") simp_all
    finally show ?thesis .
  qed
  have "registered ?d"
    unfolding registered_def using grp lv inv
    by (simp add: inv_core_def registered_def) (simp add: t_close_def)
  moreover have "group_ok (d_heap ?d g')" if "live ?d g'" for g'
    using that inv lv heap by (simp add: inv_core_def)
  moreover have "no_overlaps ?d"
    unfolding no_overlaps_def lv heap using inv by (auto simp: inv_core_def no_overlaps_def)
  ultimately show "inv_core ?d" by (simp add: inv_core_def)
qed

lemma live_tables_eq: "tables d' = tables d \<Longrightarrow> live d' g = live d g"
  by (metis live_tables)

lemma inv_close_group:
  assumes inv: "inv_core d" and g: "live d g" and cl: "close_group K g d = (r, d')"
  shows "inv_core d'" and "\<not> live d' g" and "d_closed d' = d_closed d"
    and "map_of (d_groups d') n =
      (if map_of (d_groups d) n = Some g then None else map_of (d_groups d) n)"
    and "g' \<noteq> g \<Longrightarrow> core (d_heap d' g') = core (d_heap d g')"
proof -
  obtain d1 where c: "clearMappings K g d = (r, d1)" and d': "d' = t_close g d1"
    using cl g by (cases "clearMappings K g d") (auto simp: close_group_eq live_def)
  have inv1: "inv_core d1"
    using c inv g inv_delMappings by (auto simp: clearMappings_def)
  have t1: "tables d1 = (if r = None then t_remove g (group_mappings (d_heap d g)) (tables d) else tables d)"
    using tables_clearMappings [OF c] .
  have "cg_closed (d_heap (tables d1) x) = cg_closed (d_heap d x)" for x
    unfolding t1 by simp
  then have lv: "live d1 x = live d x" for x by (simp add: live_def)
  have grps: "d_groups d1 = d_groups d" "d_closed d1 = d_closed d"
    using t1 tables_simps(2,4) by (metis t_remove_frame(1,3))+
  show "inv_core d'" and "\<not> live d' g" and "d_closed d' = d_closed d"
    using inv_t_close(1) [of d1 g] inv1 lv g grps unfolding d'
    by (auto simp: t_close_def live_def)
  show "map_of (d_groups d') n =
      (if map_of (d_groups d) n = Some g then None else map_of (d_groups d) n)"
    using inv_t_close(2) [of d1 g n] inv1 lv g grps unfolding d' by simp
  show "core (d_heap d' g') = core (d_heap d g')" if "g' \<noteq> g"
  proof -
    have "core (d_heap d1 g') = core (d_heap d g')"
      using t1 that t_remove_other [of g' g _ "tables d"] tables_simps(5) by metis
    with that show ?thesis by (simp add: d' t_close_def)
  qed
qed

end
