(* ===== verification/Connft_Ops.thy ===== *)
theory Connft_Ops
  imports Connft_Inv
begin

text \<open>
  The exported operations of the dataplane against the invariant: each keeps it, each answers
  \<open>ErrClosed\<close> and changes nothing once the group or the dataplane is closed, a failed call leaves
  the tables as they were, and a successful one has the documented effect on the mappings of the
  group and none on other groups. The reachable states of the dataplane close these facts under
  any sequence of calls.
\<close>

section \<open>Preservation\<close>

lemma connft_inv_init: "connft_inv (connft_init name n)"
  by (simp add: inv_defs connft_init_def)

lemma unusable_iff: "unusable d g \<longleftrightarrow> \<not> live d g \<or> d_closed d"
  by (auto simp: unusable_def live_def)

lemma connft_inv_live: "connft_inv d \<Longrightarrow> live d g \<Longrightarrow> \<not> d_closed d"
proof
  assume inv: "connft_inv d" and "live d g" and "d_closed d"
  then have "map_of (d_groups d) (cg_name (d_heap d g)) = Some g"
    unfolding connft_inv_def inv_core_def registered_def by blast
  moreover have "d_groups d = []" using inv \<open>d_closed d\<close> by (simp add: connft_inv_def)
  ultimately show False by simp
qed

lemma connft_inv_unusable: "connft_inv d \<Longrightarrow> unusable d g \<longleftrightarrow> \<not> live d g"
  using connft_inv_live by (auto simp: unusable_iff)

lemma connft_invI: "inv_core d \<Longrightarrow> \<not> d_closed d \<Longrightarrow> connft_inv d"
  by (simp add: connft_inv_def)

lemma addMappings_closed: "addMappings K g ms d = (r, d') \<Longrightarrow> d_closed d' = d_closed d"
  using tables_addMappings [of K g ms d r d'] tables_simps(4) [of d'] by (auto split: if_splits)

lemma delMappings_closed: "delMappings K g ms d = (r, d') \<Longrightarrow> d_closed d' = d_closed d"
  using tables_delMappings [of K g ms d r d'] tables_simps(4) [of d'] by (auto split: if_splits)

lemma group_AddMappings_inv [inv_rules]:
  assumes "connft_inv d" and "group_AddMappings K g ms d = (r, d')"
  shows "connft_inv d'"
proof (cases "unusable d g")
  case True
  with assms show ?thesis by (simp add: group_AddMappings_def)
next
  case False
  with assms have add: "addMappings K g ms d = (r, d')" and "inv_core d" "live d g" "\<not> d_closed d"
    by (simp_all add: group_AddMappings_def connft_inv_def unusable_iff)
  then show ?thesis
    using inv_addMappings [OF _ _ add] addMappings_closed [OF add] by (simp add: connft_invI)
qed

lemma group_DelMappings_inv [inv_rules]:
  assumes "connft_inv d" and "group_DelMappings K g ms d = (r, d')"
  shows "connft_inv d'"
proof (cases "unusable d g")
  case True
  with assms show ?thesis by (simp add: group_DelMappings_def)
next
  case False
  with assms have del: "delMappings K g ms d = (r, d')" and "inv_core d" "live d g" "\<not> d_closed d"
    by (simp_all add: group_DelMappings_def connft_inv_def unusable_iff)
  then show ?thesis
    using inv_delMappings [OF _ _ del] delMappings_closed [OF del] by (simp add: connft_invI)
qed

lemma group_ClearMappings_Del:
  "group_ClearMappings K g d = group_DelMappings K g (group_mappings (d_heap d g)) d"
  by (simp add: group_ClearMappings_def group_DelMappings_def clearMappings_def)

lemma group_ClearMappings_inv [inv_rules]:
  "connft_inv d \<Longrightarrow> group_ClearMappings K g d = (r, d') \<Longrightarrow> connft_inv d'"
  unfolding group_ClearMappings_Del by (rule group_DelMappings_inv)

lemma tables_group_Enable:
  assumes "group_Enable K g d = (r, d')"
  shows "tables d' = (if r = None then upd_group g (\<lambda>gr. gr\<lparr>cg_enabled := True\<rparr>) (tables d)
    else tables d)"
proof (cases "unusable d g \<or> cg_enabled (d_heap d g)")
  case True
  then have "unusable d g \<or> upd_group g (\<lambda>gr. gr\<lparr>cg_enabled := True\<rparr>) (tables d) = tables d"
    by (auto simp: upd_group_def tables_def core_def)
  with True assms show ?thesis by (auto simp: group_Enable_def split: if_splits)
next
  case False
  obtain r1 d1 where e: "ensureDNATAdded K (group_mappings (d_heap d g)) d = (r1, d1)"
    by (cases "ensureDNATAdded K (group_mappings (d_heap d g)) d")
  have up: "tables (upd_group g (\<lambda>gr. gr\<lparr>cg_enabled := True\<rparr>) d1) =
      upd_group g (\<lambda>gr. gr\<lparr>cg_enabled := True\<rparr>) (tables d1)"
    by (rule tables_upd_group) (simp add: core_def)
  show ?thesis
    using assms False tables_ensureDNATAdded [OF e] up
    by (cases r1) (auto simp: group_Enable_def e)
qed

lemma tables_group_Disable:
  assumes "group_Disable K g d = (r, d')"
  shows "tables d' = (if r = None then upd_group g (\<lambda>gr. gr\<lparr>cg_enabled := False\<rparr>) (tables d)
    else tables d)"
proof (cases "unusable d g \<or> \<not> cg_enabled (d_heap d g)")
  case True
  then have "unusable d g \<or> upd_group g (\<lambda>gr. gr\<lparr>cg_enabled := False\<rparr>) (tables d) = tables d"
    by (auto simp: upd_group_def tables_def core_def)
  with True assms show ?thesis by (auto simp: group_Disable_def split: if_splits)
next
  case False
  obtain r1 d1 where e: "ensureDNATDeleted K (group_mappings (d_heap d g)) d = (r1, d1)"
    by (cases "ensureDNATDeleted K (group_mappings (d_heap d g)) d")
  have up: "tables (upd_group g (\<lambda>gr. gr\<lparr>cg_enabled := False\<rparr>) d1) =
      upd_group g (\<lambda>gr. gr\<lparr>cg_enabled := False\<rparr>) (tables d1)"
    by (rule tables_upd_group) (simp add: core_def)
  show ?thesis
    using assms False tables_ensureDNATDeleted [OF e] up
    by (cases r1) (auto simp: group_Disable_def e)
qed

text \<open>The invariant reads a group through its name, its closed flag and what it holds.\<close>

lemma connft_inv_frame:
  assumes inv: "connft_inv d"
    and grps: "gomap_ok (d_groups d')" "map_of (d_groups d') = map_of (d_groups d)"
    and same: "d_next d' = d_next d" "d_closed d' = d_closed d"
    and heap: "\<And>x. cg_name (d_heap d' x) = cg_name (d_heap d x)"
      "\<And>x. cg_closed (d_heap d' x) = cg_closed (d_heap d x)"
    and ok: "\<And>x. live d x \<Longrightarrow> group_ok (d_heap d x) \<Longrightarrow> group_ok (d_heap d' x)"
    and hold: "\<And>x m. live d x \<Longrightarrow> group_ok (d_heap d x) \<Longrightarrow> holds (d_heap d' x) m = holds (d_heap d x) m"
  shows "connft_inv d'"
proof -
  have lv: "live d' x = live d x" for x by (simp add: live_def heap)
  have core: "inv_core d" and cl: "d_closed d \<longrightarrow> d_groups d = []"
    using inv by (simp_all add: connft_inv_def)
  have gok: "live d x \<Longrightarrow> group_ok (d_heap d x)" for x using core by (simp add: inv_core_def)
  have "registered d'"
    using core by (simp add: inv_core_def registered_def grps same lv heap)
  moreover have "no_overlaps d'"
    using core hold gok unfolding inv_core_def no_overlaps_def lv by metis
  moreover have "d_groups d' = []" if "d_groups d = []"
    using grps(2) that by (cases "d_groups d'") (auto simp: fun_eq_iff split: if_splits)
  ultimately show ?thesis
    using ok gok cl same by (auto simp: connft_inv_def inv_core_def lv)
qed

lemma group_ok_maps:
  assumes "group_ok gr" and "gomap_ok (cg_bySrc gr')" "gomap_ok (cg_byDst gr')"
    and "map_of (cg_bySrc gr') = map_of (cg_bySrc gr)" "map_of (cg_byDst gr') = map_of (cg_byDst gr)"
  shows "group_ok gr'"
  using assms unfolding group_ok_def by metis

lemma connft_inv_enabled:
  assumes "connft_inv d"
  shows "connft_inv (upd_group g (\<lambda>gr. gr\<lparr>cg_enabled := b\<rparr>) d)"
  using assms
proof (rule connft_inv_frame)
  show "gomap_ok (d_groups (upd_group g (\<lambda>gr. gr\<lparr>cg_enabled := b\<rparr>) d))"
    using assms by (simp add: connft_inv_def inv_core_def registered_def)
  fix x
  assume "group_ok (d_heap d x)"
  then show "group_ok (d_heap (upd_group g (\<lambda>gr. gr\<lparr>cg_enabled := b\<rparr>) d) x)"
    using group_ok_maps [of "d_heap d x" "(d_heap d x)\<lparr>cg_enabled := b\<rparr>"]
    by (auto simp: group_ok_def [of "d_heap d x"])
qed (simp_all add: holds_def)

lemma group_Enable_inv [inv_rules]:
  "connft_inv d \<Longrightarrow> group_Enable K g d = (r, d') \<Longrightarrow> connft_inv d'"
  using tables_group_Enable [of K g d r d'] connft_inv_enabled [of "tables d" g True]
  by (metis connft_inv_tables)

lemma group_Disable_inv [inv_rules]:
  "connft_inv d \<Longrightarrow> group_Disable K g d = (r, d') \<Longrightarrow> connft_inv d'"
  using tables_group_Disable [of K g d r d'] connft_inv_enabled [of "tables d" g False]
  by (metis connft_inv_tables)

subsection \<open>Timeouts\<close>

definition retime :: "dnat_mapping \<Rightarrow> ttl \<Rightarrow> connft_group \<Rightarrow> connft_group" where
  "retime m t gr = gr\<lparr>cg_bySrc := AList.update (src_key m) (m\<lparr>m_Timeout := t\<rparr>) (cg_bySrc gr),
                      cg_byDst := AList.update (dst_key m) (m\<lparr>m_Timeout := t\<rparr>) (cg_byDst gr)\<rparr>"

lemma keys_retimed [simp]:
  "src_key (m\<lparr>m_Timeout := t\<rparr>) = src_key m" "dst_key (m\<lparr>m_Timeout := t\<rparr>) = dst_key m"
  "mapping_wf (m\<lparr>m_Timeout := t\<rparr>) = mapping_wf m"
  "mapping_Overlaps (m\<lparr>m_Timeout := t\<rparr>) x = mapping_Overlaps m x"
  "mapping_Overlaps x (m\<lparr>m_Timeout := t\<rparr>) = mapping_Overlaps x m"
  by (simp_all add: src_key_def dst_key_def mapping_wf_def mapping_Overlaps_def)

lemma core_retime: "core (retime m t gr) = retime m t (core gr)"
  by (simp add: retime_def core_def)

lemma tables_group_SetTimeout:
  assumes "group_SetTimeout K g proto source t d = (r, d')" and ok: "group_ok (d_heap d g)"
  shows "tables d' = tables d \<or> (\<exists>m. r = None \<and> live d g \<and> \<not> d_closed d \<and> holds (d_heap d g) m
    \<and> src_key m = (source, proto) \<and> tables d' = upd_group g (retime m t) (tables d))"
proof -
  consider (err) "unusable d g \<or> map_of (cg_bySrc (d_heap d g)) (source, proto) = None"
    | (found) m where "\<not> unusable d g" "map_of (cg_bySrc (d_heap d g)) (source, proto) = Some m"
    by blast
  then show ?thesis
  proof cases
    case err
    with assms(1) show ?thesis by (auto simp: group_SetTimeout_def split: if_splits)
  next
    case found
    then have key: "src_key m = (source, proto)" using group_ok_bySrc [OF ok] by blast
    with found have h: "holds (d_heap d g) m" by (simp add: holds_def)
    obtain r1 d1 where e: "ensureTimeoutSet K g proto source t d = (r1, d1)"
      by (cases "ensureTimeoutSet K g proto source t d")
    have t1: "tables d1 = tables d"
      using tables_ensureTimeoutSet [of K g proto source t d] e by simp
    show ?thesis
    proof (cases "m_Timeout m = t \<or> r1 \<noteq> None")
      case True
      with assms(1) found e t1 show ?thesis
        by (auto simp: group_SetTimeout_def split: if_splits)
    next
      case False
      with assms(1) found e key have "r = None" "d' = upd_group g (retime m t) d1"
        by (simp_all add: group_SetTimeout_def retime_def [abs_def])
      with t1 h key found(1) show ?thesis
        by (auto simp: tables_upd_group core_retime unusable_iff)
    qed
  qed
qed

lemma group_ok_retime:
  assumes ok: "group_ok gr" and h: "holds gr m"
  shows "group_ok (retime m t gr)"
    and "holds (retime m t gr) x \<longleftrightarrow> (holds gr x \<and> src_key x \<noteq> src_key m) \<or> x = m\<lparr>m_Timeout := t\<rparr>"
proof -
  let ?m = "m\<lparr>m_Timeout := t\<rparr>"
  show hold: "holds (retime m t gr) x \<longleftrightarrow> (holds gr x \<and> src_key x \<noteq> src_key m) \<or> x = ?m" for x
    by (auto simp: holds_def retime_def)
  have dst: "map_of (cg_byDst gr) (dst_key m) = Some m"
    using group_ok_byDst [OF ok, of "dst_key m" m] h by simp
  show "group_ok (retime m t gr)"
  proof (rule group_okI)
    fix k x
    have "holds gr x \<Longrightarrow> dst_key x = dst_key m \<Longrightarrow> x = m"
      using dst group_ok_byDst [OF ok, of "dst_key m" x] by simp
    moreover have "holds gr x \<Longrightarrow> src_key x = src_key m \<Longrightarrow> x = m"
      using h by (simp add: holds_def)
    ultimately show "map_of (cg_byDst (retime m t gr)) k = Some x \<longleftrightarrow>
        dst_key x = k \<and> holds (retime m t gr) x"
      unfolding hold using group_ok_byDst [OF ok, of k x] by (auto simp: retime_def)
  next
    fix k x
    assume "map_of (cg_bySrc (retime m t gr)) k = Some x"
    then show "src_key x = k \<and> mapping_wf x"
      using group_ok_bySrc [OF ok, of k x] holds_wf [OF ok h]
      by (auto simp: retime_def split: if_splits)
  qed (use ok in \<open>simp_all add: group_ok_def retime_def\<close>)
qed

lemma inv_retime:
  assumes inv: "inv_core d" and g: "live d g" and h: "holds (d_heap d g) m"
  shows "inv_core (upd_group g (retime m t) d)"
proof -
  let ?d = "upd_group g (retime m t) d" and ?m = "m\<lparr>m_Timeout := t\<rparr>"
  have ok: "group_ok (d_heap d g)" using inv g by (simp add: inv_core_def)
  note ret = group_ok_retime [OF ok h]
  have lv: "live ?d g' = live d g'" for g' by (simp add: live_def retime_def)
  have old: "\<exists>y. holds (d_heap d g') y \<and> src_key y = src_key x
      \<and> (\<forall>z. mapping_Overlaps x z = mapping_Overlaps y z)
      \<and> (\<forall>z. mapping_Overlaps z x = mapping_Overlaps z y)"
    if "holds (d_heap ?d g') x" for g' x
  proof (cases "g' = g \<and> x = ?m")
    case True
    with h show ?thesis by (intro exI [of _ m]) simp
  next
    case False
    with that ret(2) have "holds (d_heap d g') x" by (auto split: if_splits)
    then show ?thesis by blast
  qed
  have "registered ?d"
    using inv by (simp add: inv_core_def registered_def retime_def live_def)
  moreover have "group_ok (d_heap ?d g')" if "live ?d g'" for g'
    using that ret(1) inv lv by (auto simp: inv_core_def)
  moreover have "no_overlaps ?d"
    unfolding no_overlaps_def
  proof (intro allI impI)
    fix g1 g2 m1 m2
    assume l: "live ?d g1" "live ?d g2" and h12: "holds (d_heap ?d g1) m1" "holds (d_heap ?d g2) m2"
      and ov: "mapping_Overlaps m1 m2"
    from old [OF h12(1)] obtain y1 where y1: "holds (d_heap d g1) y1" "src_key y1 = src_key m1"
      "\<And>z. mapping_Overlaps m1 z = mapping_Overlaps y1 z" by blast
    from old [OF h12(2)] obtain y2 where y2: "holds (d_heap d g2) y2" "src_key y2 = src_key m2"
      "\<And>z. mapping_Overlaps z m2 = mapping_Overlaps z y2" by blast
    have "mapping_Overlaps y1 y2" using ov y1(3) y2(3) by simp
    then have "g1 = g2" "y1 = y2"
      using inv l y1(1) y2(1) unfolding inv_core_def no_overlaps_def lv by blast+
    with y1(2) y2(2) h12 show "g1 = g2 \<and> m1 = m2" by (auto simp: holds_def)
  qed
  ultimately show ?thesis by (simp add: inv_core_def)
qed

lemma group_SetTimeout_inv [inv_rules]:
  assumes inv: "connft_inv d" and set: "group_SetTimeout K g proto source t d = (r, d')"
  shows "connft_inv d'"
proof (cases "unusable d g")
  case True
  with set inv show ?thesis by (simp add: group_SetTimeout_def)
next
  case False
  with inv have live: "live d g" "\<not> d_closed d" and core: "inv_core d"
    by (auto simp: unusable_iff connft_inv_def)
  then have ok: "group_ok (d_heap d g)" by (simp add: inv_core_def)
  from tables_group_SetTimeout [OF set ok] show ?thesis
  proof (elim disjE exE conjE)
    assume "tables d' = tables d"
    with inv show ?thesis by (metis connft_inv_tables)
  next
    fix m
    assume h: "holds (d_heap d g) m" and t: "tables d' = upd_group g (retime m t) (tables d)"
    have "inv_core (upd_group g (retime m t) (tables d))"
      using core live h by (intro inv_retime) simp_all
    then have "inv_core d'" using t by (metis inv_core_tables)
    moreover have "d_closed d' = d_closed d" using t tables_simps(4) [of d'] by simp
    ultimately show ?thesis using live(2) by (simp add: connft_invI)
  qed
qed

subsection \<open>Creating and closing\<close>

lemma NewGroup_inv [inv_rules]:
  assumes inv: "connft_inv d" and new: "NewGroup name now d = (r, d')"
  shows "connft_inv d'"
proof (cases "d_closed d \<or> map_of (d_groups d) name \<noteq> None")
  case True
  with inv new show ?thesis by (auto simp: NewGroup_def NewConnftGroup_def split: if_splits)
next
  case False
  define g where "g = d_next d"
  from False new have d': "d_closed d' = d_closed d" "d_next d' = Suc g"
    "d_groups d' = AList.update name g (d_groups d)"
    "\<And>x. x \<noteq> g \<Longrightarrow> d_heap d' x = d_heap d x" "cg_name (d_heap d' g) = name"
    "cg_bySrc (d_heap d' g) = []" "cg_byDst (d_heap d' g) = []" "\<not> cg_closed (d_heap d' g)"
    by (auto simp: NewGroup_def NewConnftGroup_def Let_def g_def)
  have core: "inv_core d" using inv by (simp add: connft_inv_def)
  have dead: "\<not> live d g" using core by (auto simp: inv_core_def registered_def g_def)
  have lv: "live d' x \<longleftrightarrow> live d x \<or> x = g" for x
    using d'(4,8) dead by (cases "x = g") (auto simp: live_def)
  have all: "map_of (d_groups d) n = Some x \<longleftrightarrow> live d x \<and> cg_name (d_heap d x) = n" for n x
    using core by (simp add: inv_core_def registered_def)
  have unused: "cg_name (d_heap d x) \<noteq> name" if "live d x" for x
    using all [of name x] that False by auto
  have "map_of (d_groups d') n = Some x \<longleftrightarrow> live d' x \<and> cg_name (d_heap d' x) = n" for n x
    using all [of n x] unused [of x] dead d'(4) [of x] d'(5)
    by (cases "x = g") (auto simp: d'(3) lv)
  moreover have "live d' x \<Longrightarrow> x < d_next d'" for x
    using core by (auto simp: lv d'(2) inv_core_def registered_def g_def less_Suc_eq)
  ultimately have "registered d'"
    using core by (simp add: registered_def inv_core_def d'(3))
  moreover have "group_ok (d_heap d' g)"
    using d'(6,7) by (intro group_okI) (simp_all add: holds_def)
  then have "\<forall>x. live d' x \<longrightarrow> group_ok (d_heap d' x)"
    using core d'(4) unfolding lv inv_core_def by metis
  moreover have "\<not> holds (d_heap d' g) m" for m using d'(6) by (simp add: holds_def)
  then have "no_overlaps d'"
    using core d'(4) unfolding no_overlaps_def lv inv_core_def by metis
  ultimately show ?thesis using False d'(1) by (intro connft_invI) (simp_all add: inv_core_def)
qed

lemma group_Close_inv [inv_rules]:
  assumes "connft_inv d" and "group_Close K g d = (r, d')"
  shows "connft_inv d'"
proof (cases "live d g")
  case True
  with assms have "inv_core d" "\<not> d_closed d"
    using connft_inv_live by (auto simp: connft_inv_def)
  moreover from assms(2) have "close_group K g d = (r, d')" by (simp add: group_Close_def)
  ultimately show ?thesis
    using inv_close_group(1,3) [of d g K r d'] True by (simp add: connft_invI)
next
  case False
  with assms show ?thesis by (simp add: group_Close_def close_group_def live_def)
qed

lemma close_groups_inv:
  assumes "inv_core d" and "close_groups K gs d = (es, d')"
  shows "inv_core d' \<and> (\<forall>g. live d' g \<longleftrightarrow> live d g \<and> g \<notin> set gs) \<and> d_closed d' = d_closed d"
  using assms
proof (induction gs arbitrary: d es)
  case Nil
  then show ?case by simp
next
  case (Cons g gs)
  obtain e d1 where c: "close_group K g d = (e, d1)" by (cases "close_group K g d")
  obtain es1 where rest: "close_groups K gs d1 = (es1, d')"
    using Cons.prems(2) c by (auto simp: Let_def split: prod.splits)
  have "inv_core d1 \<and> (\<forall>x. live d1 x \<longleftrightarrow> live d x \<and> x \<noteq> g) \<and> d_closed d1 = d_closed d"
  proof (cases "live d g")
    case True
    have "live d1 x = live d x" if "x \<noteq> g" for x
      using inv_close_group(5) [OF Cons.prems(1) True c that] core_simps(5) unfolding live_def by metis
    then show ?thesis
      using inv_close_group(1-3) [OF Cons.prems(1) True c] by metis
  next
    case False
    with c Cons.prems(1) show ?thesis by (auto simp: close_group_def live_def)
  qed
  with Cons.IH [OF _ rest] show ?case by auto
qed

lemma connft_Close_inv [inv_rules]:
  assumes inv: "connft_inv d" and cl: "connft_Close K d = (r, d')"
  shows "connft_inv d'" and "d_closed d'" and "\<not> live d' g"
proof -
  have "connft_inv d' \<and> d_closed d' \<and> (\<forall>g. \<not> live d' g)"
  proof (cases "d_closed d")
    case True
    with assms show ?thesis using connft_inv_live by (auto simp: connft_Close_def)
  next
    case False
    let ?d0 = "d\<lparr>d_closed := True\<rparr>"
    obtain es d1 where c: "close_groups K (map snd (d_groups ?d0)) ?d0 = (es, d1)"
      by (cases "close_groups K (map snd (d_groups ?d0)) ?d0")
    obtain e d2 where t: "ensureTableDeleted K d1 = (e, d2)" by (cases "ensureTableDeleted K d1")
    have d': "d' = d2\<lparr>d_nft := ct_Close K (d_nft d2)\<rparr>"
      using cl False c t by (simp add: connft_Close_def Let_def)
    then have td: "tables d' = tables d1" using tables_ensureTableDeleted [OF t] by simp
    have "inv_core ?d0" using inv by (simp add: inv_defs)
    from close_groups_inv [OF this c]
    have d1: "inv_core d1" "\<And>g. live d1 g \<longleftrightarrow> live ?d0 g \<and> g \<notin> snd ` set (d_groups d)" "d_closed d1"
      by simp_all
    have "live d g \<Longrightarrow> (cg_name (d_heap d g), g) \<in> set (d_groups d)" for g
      using inv by (simp add: connft_inv_def inv_core_def registered_def gomap_mem_iff)
    then have dead: "\<not> live d1 g" for g
      unfolding d1(2) by (force simp: live_def)
    have "map_of (d_groups d1) n = None" for n
      using d1(1) dead by (cases "map_of (d_groups d1) n") (auto simp: inv_core_def registered_def)
    then have "d_groups d1 = []"
      by (metis domIff dom_map_of_conv_image_fst image_is_empty set_empty2 ex_in_conv)
    then have "connft_inv d1" using d1 by (simp add: connft_inv_def)
    then show ?thesis
      using td dead d1(3) by (metis connft_inv_tables live_tables tables_simps(4))
  qed
  then show "connft_inv d'" and "d_closed d'" and "\<not> live d' g" by blast+
qed

section \<open>Reachable states\<close>

text \<open>
  One call of the dataplane's API by some goroutine, the runtime choosing another iteration order
  for the maps, or the kernel changing behind the connection.
\<close>

datatype dp_call = CallNewGroup string int | CallAdd gid "dnat_mapping list"
  | CallDel gid "dnat_mapping list" | CallClear gid | CallEnable gid | CallDisable gid
  | CallSetTimeout gid protocol addr_port ttl | CallCloseGroup gid | CallClose

fun dp_exec :: "'n nft_ops \<Rightarrow> dp_call \<Rightarrow> 'n connft \<Rightarrow> 'n connft" where
  "dp_exec K (CallNewGroup name now) d = snd (NewGroup name now d)"
| "dp_exec K (CallAdd g ms) d = snd (group_AddMappings K g ms d)"
| "dp_exec K (CallDel g ms) d = snd (group_DelMappings K g ms d)"
| "dp_exec K (CallClear g) d = snd (group_ClearMappings K g d)"
| "dp_exec K (CallEnable g) d = snd (group_Enable K g d)"
| "dp_exec K (CallDisable g) d = snd (group_Disable K g d)"
| "dp_exec K (CallSetTimeout g proto source t) d = snd (group_SetTimeout K g proto source t d)"
| "dp_exec K (CallCloseGroup g) d = snd (group_Close K g d)"
| "dp_exec K CallClose d = snd (connft_Close K d)"

inductive dp_step :: "'n nft_ops \<Rightarrow> 'n connft \<Rightarrow> 'n connft \<Rightarrow> bool" for K where
  call: "dp_step K d (dp_exec K c d)"
| reorder_groups: "mset gs = mset (d_groups d) \<Longrightarrow> dp_step K d (d\<lparr>d_groups := gs\<rparr>)"
| reorder_mappings: "mset xs = mset (cg_bySrc (d_heap d g)) \<Longrightarrow> mset ys = mset (cg_byDst (d_heap d g)) \<Longrightarrow>
    dp_step K d (upd_group g (\<lambda>gr. gr\<lparr>cg_bySrc := xs, cg_byDst := ys\<rparr>) d)"
| kernel: "dp_step K d (d\<lparr>d_nft := n\<rparr>)"

inductive dp_reach :: "'n nft_ops \<Rightarrow> 'n connft \<Rightarrow> bool" for K where
  init: "connft_New K name n = (Inr d, n') \<Longrightarrow> dp_reach K d"
| step: "dp_reach K d \<Longrightarrow> dp_step K d d' \<Longrightarrow> dp_reach K d'"

lemma inv_snd:
  "(\<And>r d'. f = (r, d') \<Longrightarrow> connft_inv d') \<Longrightarrow> connft_inv (snd f)"
  by (cases f) simp

lemma dp_exec_inv: "connft_inv d \<Longrightarrow> connft_inv (dp_exec K c d)"
  by (cases c) (simp, rule inv_snd, erule (1) inv_rules)+

lemma dp_step_inv:
  assumes "dp_step K d d'" and inv: "connft_inv d"
  shows "connft_inv d'"
  using assms(1)
proof cases
  case (call c)
  with inv show ?thesis by (simp add: dp_exec_inv)
next
  case (reorder_groups gs)
  have "gomap_ok (d_groups d)" using inv by (simp add: connft_inv_def inv_core_def registered_def)
  then have "gomap_ok gs \<and> map_of gs = map_of (d_groups d)"
    using gomap_perm_lookup [OF _ reorder_groups(2)] by blast
  with inv show ?thesis
    by (intro connft_inv_frame [of d d']) (simp_all add: reorder_groups(1))
next
  case (reorder_mappings xs g ys)
  have eq: "gomap_ok xs \<and> map_of xs = map_of (cg_bySrc (d_heap d g))"
    "gomap_ok ys \<and> map_of ys = map_of (cg_byDst (d_heap d g))" if "group_ok (d_heap d g)"
    using that gomap_perm_lookup [OF _ reorder_mappings(2)] gomap_perm_lookup [OF _ reorder_mappings(3)]
    by (simp_all add: group_ok_def)
  have "gomap_ok (d_groups d)" using inv by (simp add: connft_inv_def inv_core_def registered_def)
  then show ?thesis
    unfolding reorder_mappings(1)
  proof (intro connft_inv_frame [OF inv], simp_all only: upd_group_simps)
    fix x
    assume "group_ok (d_heap d x)"
    then show "group_ok (if x = g then d_heap d g\<lparr>cg_bySrc := xs, cg_byDst := ys\<rparr> else d_heap d x)"
      using eq group_ok_maps [of "d_heap d g" "d_heap d g\<lparr>cg_bySrc := xs, cg_byDst := ys\<rparr>"]
      by (cases "x = g") simp_all
  next
    fix x m
    assume "group_ok (d_heap d x)"
    then show "holds (if x = g then d_heap d g\<lparr>cg_bySrc := xs, cg_byDst := ys\<rparr> else d_heap d x) m
        = holds (d_heap d x) m"
      using eq by (cases "x = g") (simp_all add: holds_def)
  qed simp_all
next
  case (kernel n)
  with inv show ?thesis by (metis connft_inv_tables tables_simps(6))
qed

lemma connft_New_inv:
  assumes "connft_New K name n = (Inr d, n')"
  shows "connft_inv d"
proof -
  have "ensureTableAdded K (connft_init name n) = (None, d)"
    using assms by (auto simp: connft_New_def split: prod.splits option.splits)
  then obtain h where h: "tables d = (tables (connft_init name n))\<lparr>d_table := h\<rparr>"
    using tables_ensureTableAdded by blast
  have "connft_inv ((tables (connft_init name n))\<lparr>d_table := h\<rparr>)"
    by (simp add: inv_defs connft_init_def tables_def)
  then show ?thesis by (metis h connft_inv_tables)
qed

lemma dp_reach_inv: "dp_reach K d \<Longrightarrow> connft_inv d"
  by (induction rule: dp_reach.induct) (auto simp: connft_New_inv dp_step_inv)

end
