(* ===== verification/Dataplane.thy ===== *)
theory Dataplane
  imports Connft_Ops
begin

text \<open>
  \<open>pkg/dataplane/dataplane.go\<close> and \<open>group.go\<close>: the interface the targets, the frontends and the
  engine call. The two Go interfaces are the record of operations \<open>dataplane_ops\<close>; the contract
  their comments state is the locale \<open>dataplane_contract\<close>, over an abstract view of a group: whether
  it is usable, whether it is enabled, and the mapping it has for each source. The clients' lemmas
  are proved once in the locale; \<open>Connft\<close> is shown to satisfy it.
\<close>

section \<open>The interface\<close>

record 'd dataplane_ops =
  dp_NewGroup :: "string \<Rightarrow> int \<Rightarrow> 'd \<Rightarrow> (dp_error + gid) \<times> 'd"
  dp_StaleGroups :: "'d \<Rightarrow> (dp_error + gid list) \<times> 'd"
  dp_Close :: "'d \<Rightarrow> dp_error option \<times> 'd"
  g_Enable :: "gid \<Rightarrow> 'd \<Rightarrow> dp_error option \<times> 'd"
  g_Disable :: "gid \<Rightarrow> 'd \<Rightarrow> dp_error option \<times> 'd"
  g_AddMappings :: "gid \<Rightarrow> dnat_mapping list \<Rightarrow> 'd \<Rightarrow> dp_error option \<times> 'd"
  g_DelMappings :: "gid \<Rightarrow> dnat_mapping list \<Rightarrow> 'd \<Rightarrow> dp_error option \<times> 'd"
  g_ClearMappings :: "gid \<Rightarrow> 'd \<Rightarrow> dp_error option \<times> 'd"
  g_Timeout :: "gid \<Rightarrow> protocol \<Rightarrow> addr_port \<Rightarrow> 'd \<Rightarrow> dp_error + ttl"
  g_SetTimeout :: "gid \<Rightarrow> protocol \<Rightarrow> addr_port \<Rightarrow> ttl \<Rightarrow> 'd \<Rightarrow> dp_error option \<times> 'd"
  g_Close :: "gid \<Rightarrow> 'd \<Rightarrow> dp_error option \<times> 'd"

definition connft_dataplane :: "'n nft_ops \<Rightarrow> 'n connft dataplane_ops" where
  "connft_dataplane K =
     \<lparr>dp_NewGroup = NewGroup, dp_StaleGroups = StaleGroups K, dp_Close = connft_Close K,
      g_Enable = group_Enable K, g_Disable = group_Disable K, g_AddMappings = group_AddMappings K,
      g_DelMappings = group_DelMappings K, g_ClearMappings = group_ClearMappings K,
      g_Timeout = group_Timeout, g_SetTimeout = group_SetTimeout K, g_Close = group_Close K\<rparr>"

text \<open>The methods of a group that can fail with \<open>ErrClosed\<close>, as data.\<close>

datatype group_call = GEnable | GDisable | GAdd "dnat_mapping list" | GDel "dnat_mapping list"
  | GClear | GSetTimeout protocol addr_port ttl

fun g_exec :: "'d dataplane_ops \<Rightarrow> group_call \<Rightarrow> gid \<Rightarrow> 'd \<Rightarrow> dp_error option \<times> 'd" where
  "g_exec P GEnable g d = g_Enable P g d"
| "g_exec P GDisable g d = g_Disable P g d"
| "g_exec P (GAdd ms) g d = g_AddMappings P g ms d"
| "g_exec P (GDel ms) g d = g_DelMappings P g ms d"
| "g_exec P GClear g d = g_ClearMappings P g d"
| "g_exec P (GSetTimeout proto source t) g d = g_SetTimeout P g proto source t d"

section \<open>The specification of a group\<close>

type_synonym group_table = "dnat_key \<Rightarrow> dnat_mapping option"

fun spec_table :: "group_call \<Rightarrow> group_table \<Rightarrow> group_table" where
  "spec_table (GAdd ms) t = (\<lambda>k. case find (\<lambda>m. src_key m = k) ms of Some m \<Rightarrow> Some m | None \<Rightarrow> t k)"
| "spec_table (GDel ms) t = (\<lambda>k. if k \<in> src_key ` set ms then None else t k)"
| "spec_table GClear t = (\<lambda>k. None)"
| "spec_table (GSetTimeout proto source ttl) t =
     (case t (source, proto) of None \<Rightarrow> t
      | Some m \<Rightarrow> t((source, proto) := Some (m\<lparr>m_Timeout := ttl\<rparr>)))"
| "spec_table _ t = t"

fun spec_enabled :: "group_call \<Rightarrow> bool \<Rightarrow> bool" where
  "spec_enabled GEnable b = True"
| "spec_enabled GDisable b = False"
| "spec_enabled _ b = b"

text \<open>What a client may do to the dataplane, and the run of a sequence of such calls.\<close>

datatype client_call = OnGroup gid group_call | CloseGroup gid | OpenGroup string int | CloseAll

fun client_exec :: "'d dataplane_ops \<Rightarrow> client_call \<Rightarrow> 'd \<Rightarrow> 'd" where
  "client_exec P (OnGroup g c) d = snd (g_exec P c g d)"
| "client_exec P (CloseGroup g) d = snd (g_Close P g d)"
| "client_exec P (OpenGroup name now) d = snd (dp_NewGroup P name now d)"
| "client_exec P CloseAll d = snd (dp_Close P d)"

definition client_run :: "'d dataplane_ops \<Rightarrow> client_call list \<Rightarrow> 'd \<Rightarrow> 'd" where
  "client_run P cs d = foldl (\<lambda>d c. client_exec P c d) d cs"

locale dataplane_contract =
  fixes P :: "'d dataplane_ops"
    and inv :: "'d \<Rightarrow> bool"
    and allocated :: "'d \<Rightarrow> gid \<Rightarrow> bool"
    and usable :: "'d \<Rightarrow> gid \<Rightarrow> bool"
    and enabled :: "'d \<Rightarrow> gid \<Rightarrow> bool"
    and table :: "'d \<Rightarrow> gid \<Rightarrow> group_table"
  assumes usable_allocated: "inv d \<Longrightarrow> usable d g \<Longrightarrow> allocated d g"
    and closed_call: "inv d \<Longrightarrow> \<not> usable d g \<Longrightarrow> g_exec P c g d = (Some DpErrClosed, d)"
    and call_inv: "inv d \<Longrightarrow> g_exec P c g d = (r, d') \<Longrightarrow> inv d'"
    and call_frame: "inv d \<Longrightarrow> g_exec P c g d = (r, d') \<Longrightarrow>
      usable d' = usable d \<and> allocated d' = allocated d"
    and call_other: "inv d \<Longrightarrow> g_exec P c g d = (r, d') \<Longrightarrow> g' \<noteq> g \<Longrightarrow>
      table d' g' = table d g' \<and> enabled d' g' = enabled d g'"
    and call_failed: "inv d \<Longrightarrow> g_exec P c g d = (Some e, d') \<Longrightarrow>
      table d' g = table d g \<and> enabled d' g = enabled d g"
    and call_done: "inv d \<Longrightarrow> g_exec P c g d = (None, d') \<Longrightarrow>
      table d' g = spec_table c (table d g) \<and> enabled d' g = spec_enabled c (enabled d g)"
    and add_fresh: "inv d \<Longrightarrow> g_exec P (GAdd ms) g d = (None, d') \<Longrightarrow> m \<in> set ms \<Longrightarrow>
      table d g (src_key m) = None"
    and close_again: "inv d \<Longrightarrow> \<not> usable d g \<Longrightarrow> g_Close P g d = (None, d)"
    and close_inv: "inv d \<Longrightarrow> g_Close P g d = (r, d') \<Longrightarrow> inv d'"
    and close_usable: "inv d \<Longrightarrow> g_Close P g d = (r, d') \<Longrightarrow>
      (usable d' g' \<longleftrightarrow> usable d g' \<and> g' \<noteq> g) \<and> allocated d' = allocated d"
    and close_other: "inv d \<Longrightarrow> g_Close P g d = (r, d') \<Longrightarrow> g' \<noteq> g \<Longrightarrow>
      table d' g' = table d g' \<and> enabled d' g' = enabled d g'"
    and new_inv: "inv d \<Longrightarrow> dp_NewGroup P name now d = (res, d') \<Longrightarrow> inv d'"
    and new_failed: "inv d \<Longrightarrow> dp_NewGroup P name now d = (Inl e, d') \<Longrightarrow> d' = d"
    and new_group: "inv d \<Longrightarrow> dp_NewGroup P name now d = (Inr g, d') \<Longrightarrow>
      \<not> allocated d g \<and> (\<forall>g'. allocated d' g' \<longleftrightarrow> allocated d g' \<or> g' = g)
      \<and> (\<forall>g'. usable d' g' \<longleftrightarrow> usable d g' \<or> g' = g)
      \<and> table d' g = (\<lambda>k. None) \<and> \<not> enabled d' g
      \<and> (\<forall>g'. g' \<noteq> g \<longrightarrow> table d' g' = table d g' \<and> enabled d' g' = enabled d g')"
    and stale_frame: "inv d \<Longrightarrow> dp_StaleGroups P d = (stale, d') \<Longrightarrow>
      inv d' \<and> usable d' = usable d \<and> allocated d' = allocated d \<and> enabled d' = enabled d \<and> table d' = table d"
    and dp_close: "inv d \<Longrightarrow> dp_Close P d = (r, d') \<Longrightarrow>
      inv d' \<and> (\<forall>g. \<not> usable d' g) \<and> allocated d' = allocated d"
begin

lemma step_keeps:
  assumes "inv d"
  shows "inv (client_exec P c d)"
    and "allocated d g \<Longrightarrow> allocated (client_exec P c d) g"
    and "allocated d g \<Longrightarrow> \<not> usable d g \<Longrightarrow> \<not> usable (client_exec P c d) g"
proof -
  have "inv (client_exec P c d) \<and> (allocated d g \<longrightarrow> allocated (client_exec P c d) g)
      \<and> (allocated d g \<longrightarrow> \<not> usable d g \<longrightarrow> \<not> usable (client_exec P c d) g)"
  proof (cases c)
    case (OnGroup g' gc)
    obtain r d' where e: "g_exec P gc g' d = (r, d')" by (cases "g_exec P gc g' d")
    show ?thesis using call_inv [OF assms e] call_frame [OF assms e] by (simp add: OnGroup e)
  next
    case (CloseGroup g')
    obtain r d' where e: "g_Close P g' d = (r, d')" by (cases "g_Close P g' d")
    show ?thesis using close_inv [OF assms e] close_usable [OF assms e] by (simp add: CloseGroup e)
  next
    case (OpenGroup name now)
    obtain res d' where e: "dp_NewGroup P name now d = (res, d')" by (cases "dp_NewGroup P name now d")
    show ?thesis
    proof (cases res)
      case (Inl err)
      with e assms new_failed [of d name now err d'] show ?thesis by (simp add: OpenGroup)
    next
      case (Inr g')
      note e' = e [unfolded Inr]
      show ?thesis using new_inv [OF assms e'] new_group [OF assms e'] by (auto simp: OpenGroup e')
    qed
  next
    case CloseAll
    obtain r d' where e: "dp_Close P d = (r, d')" by (cases "dp_Close P d")
    show ?thesis using dp_close [OF assms e] by (simp add: CloseAll e)
  qed
  then show "inv (client_exec P c d)"
    and "allocated d g \<Longrightarrow> allocated (client_exec P c d) g"
    and "allocated d g \<Longrightarrow> \<not> usable d g \<Longrightarrow> \<not> usable (client_exec P c d) g"
    by blast+
qed

lemma run_keeps:
  assumes "inv d"
  shows "inv (client_run P cs d) \<and> (allocated d g \<longrightarrow> \<not> usable d g \<longrightarrow>
    allocated (client_run P cs d) g \<and> \<not> usable (client_run P cs d) g)"
  using assms
proof (induction cs arbitrary: d)
  case Nil
  then show ?case by (simp add: client_run_def)
next
  case (Cons c cs)
  have "client_run P (c # cs) d = client_run P cs (client_exec P c d)"
    by (simp add: client_run_def)
  then show ?case using Cons.IH [of "client_exec P c d"] step_keeps [OF Cons.prems] by auto
qed

text \<open>A closed group stays closed: whatever is called in between, its methods answer \<open>ErrClosed\<close>.\<close>

lemma closed_for_good:
  assumes inv: "inv d" and close: "g_Close P g d = (r, d1)" and alloc: "allocated d g"
  shows "g_exec P c g (client_run P cs d1) = (Some DpErrClosed, client_run P cs d1)"
    and "g_Close P g (client_run P cs d1) = (None, client_run P cs d1)"
proof -
  have "inv d1" "allocated d1 g" "\<not> usable d1 g"
    using close_inv [OF inv close] close_usable [OF inv close, of g] alloc by auto
  then have "inv (client_run P cs d1)" "\<not> usable (client_run P cs d1) g"
    using run_keeps by blast+
  then show "g_exec P c g (client_run P cs d1) = (Some DpErrClosed, client_run P cs d1)"
    and "g_Close P g (client_run P cs d1) = (None, client_run P cs d1)"
    by (rule closed_call, rule close_again)
qed

text \<open>Deleting what was just added gives back the table of the group.\<close>

lemma add_then_del:
  assumes inv: "inv d" and add: "g_exec P (GAdd ms) g d = (None, d1)"
    and del: "g_exec P (GDel ms) g d1 = (None, d2)"
  shows "table d2 g' = table d g'"
proof (cases "g' = g")
  case False
  with call_other [OF inv add] call_other [OF call_inv [OF inv add] del] show ?thesis by simp
next
  case True
  have "table d2 g k = table d g k" for k
  proof (cases "k \<in> src_key ` set ms")
    case True
    then obtain m where "m \<in> set ms" "k = src_key m" by blast
    with add_fresh [OF inv add] call_done [OF call_inv [OF inv add] del] show ?thesis by simp
  next
    case False
    then have "find (\<lambda>m. src_key m = k) ms = None" by (auto simp: find_None_iff)
    with False call_done [OF inv add] call_done [OF call_inv [OF inv add] del] show ?thesis by simp
  qed
  with True show ?thesis by auto
qed

end

end
