(* ===== verification/Connft_Contract.thy ===== *)
theory Connft_Contract
  imports Dataplane
begin

text \<open>
  \<open>Connft\<close> keeps the contract of the dataplane interface: the laws of \<open>dataplane_contract\<close> hold of
  its groups, for any behaviour of nftables and conntrack.
\<close>

section \<open>The abstract view of a connft group\<close>

definition cg_table :: "'n connft \<Rightarrow> gid \<Rightarrow> group_table" where
  "cg_table d g = map_of (cg_bySrc (d_heap d g))"

definition cg_isEnabled :: "'n connft \<Rightarrow> gid \<Rightarrow> bool" where
  "cg_isEnabled d g = cg_enabled (d_heap d g)"

definition cg_allocated :: "'n connft \<Rightarrow> gid \<Rightarrow> bool" where
  "cg_allocated d g \<longleftrightarrow> g < d_next d"

lemmas cg_view_defs = cg_table_def cg_isEnabled_def cg_allocated_def live_def

lemma view_tables [simp]:
  "cg_table (tables d) = cg_table d" "cg_isEnabled (tables d) = cg_isEnabled d"
  "cg_allocated (tables d) = cg_allocated d" "live (tables d) = live d"
  by (simp_all add: cg_view_defs fun_eq_iff)

lemma view_eq:
  assumes "tables d' = tables d"
  shows "cg_table d' = cg_table d" "cg_isEnabled d' = cg_isEnabled d"
    "cg_allocated d' = cg_allocated d" "live d' = live d"
  using assms view_tables by metis+

lemma view_upd_group:
  assumes "\<And>gr. cg_closed (f gr) = cg_closed gr"
  shows "live (upd_group g f d) = live d" "cg_allocated (upd_group g f d) = cg_allocated d"
    "g' \<noteq> g \<Longrightarrow> cg_table (upd_group g f d) g' = cg_table d g'"
    "g' \<noteq> g \<Longrightarrow> cg_isEnabled (upd_group g f d) g' = cg_isEnabled d g'"
  using assms by (simp_all add: cg_view_defs fun_eq_iff)

lemma view_t_insert [simp]:
  "live (t_insert g ms d) = live d" "cg_allocated (t_insert g ms d) = cg_allocated d"
  "cg_isEnabled (t_insert g ms d) = cg_isEnabled d"
  "g' \<noteq> g \<Longrightarrow> cg_table (t_insert g ms d) g' = cg_table d g'"
  by (simp_all add: cg_view_defs fun_eq_iff t_insert_other)

lemma view_t_remove [simp]:
  "live (t_remove g ms d) = live d" "cg_allocated (t_remove g ms d) = cg_allocated d"
  "cg_isEnabled (t_remove g ms d) = cg_isEnabled d"
  "g' \<noteq> g \<Longrightarrow> cg_table (t_remove g ms d) g' = cg_table d g'"
  by (simp_all add: cg_view_defs fun_eq_iff t_remove_other)

section \<open>One call\<close>

text \<open>What a call does to the tables: nothing when it fails, one of four updates when it succeeds.\<close>

fun t_exec :: "group_call \<Rightarrow> gid \<Rightarrow> unit connft \<Rightarrow> unit connft" where
  "t_exec GEnable g d = upd_group g (\<lambda>gr. gr\<lparr>cg_enabled := True\<rparr>) d"
| "t_exec GDisable g d = upd_group g (\<lambda>gr. gr\<lparr>cg_enabled := False\<rparr>) d"
| "t_exec (GAdd ms) g d = t_insert g ms d"
| "t_exec (GDel ms) g d = t_remove g ms d"
| "t_exec GClear g d = t_remove g (group_mappings (d_heap d g)) d"
| "t_exec (GSetTimeout proto source t) g d =
     (case map_of (cg_bySrc (d_heap d g)) (source, proto) of None \<Rightarrow> d
      | Some m \<Rightarrow> upd_group g (if m_Timeout m = t then (\<lambda>gr. gr) else retime m t) d)"

lemma group_SetTimeout_exec:
  assumes "group_SetTimeout K g proto source t d = (r, d')" and "group_ok (d_heap d g)"
    and "\<not> unusable d g"
  shows "tables d' = (if r = None then t_exec (GSetTimeout proto source t) g (tables d) else tables d)"
proof (cases "map_of (cg_bySrc (d_heap d g)) (source, proto)")
  case None
  with assms(1,3) show ?thesis by (simp add: group_SetTimeout_def)
next
  case (Some m)
  have key: "src_key m = (source, proto)" using group_ok_bySrc [OF assms(2) Some] by simp
  obtain r1 d1 where e: "ensureTimeoutSet K g proto source t d = (r1, d1)"
    by (cases "ensureTimeoutSet K g proto source t d")
  have t1: "tables d1 = tables d"
    using tables_ensureTimeoutSet [of K g proto source t d] e by simp
  have id: "upd_group g (\<lambda>gr. gr) d0 = d0" for d0 :: "unit connft" by (simp add: upd_group_def)
  have re: "tables (upd_group g (retime m t) d1) = upd_group g (retime m t) (tables d)"
    by (simp add: tables_upd_group core_retime t1)
  show ?thesis
  proof (cases "m_Timeout m = t")
    case True
    with assms(1,3) Some id show ?thesis by (simp add: group_SetTimeout_def)
  next
    case False
    with assms(1,3) Some e key t1 re show ?thesis
      by (cases r1) (auto simp: group_SetTimeout_def retime_def [abs_def])
  qed
qed

lemma connft_exec:
  assumes inv: "connft_inv d" and call: "g_exec (connft_dataplane K) c g d = (r, d')"
  shows "tables d' = (if r = None then t_exec c g (tables d) else tables d)"
    and "r = None \<Longrightarrow> live d g \<and> group_ok (d_heap d g)"
    and "\<not> live d g \<Longrightarrow> (r, d') = (Some DpErrClosed, d)"
proof -
  have use: "unusable d g \<longleftrightarrow> \<not> live d g" using inv by (rule connft_inv_unusable)
  show closed: "\<not> live d g \<Longrightarrow> (r, d') = (Some DpErrClosed, d)"
    using call use by (cases c) (simp_all add: connft_dataplane_def group_Enable_def group_Disable_def
        group_AddMappings_def group_DelMappings_def group_ClearMappings_def group_SetTimeout_def)
  then have lv: "r = None \<Longrightarrow> live d g" by auto
  moreover have ok: "live d g \<Longrightarrow> group_ok (d_heap d g)"
    using inv by (simp add: connft_inv_def inv_core_def)
  ultimately show "r = None \<Longrightarrow> live d g \<and> group_ok (d_heap d g)" by blast
  show "tables d' = (if r = None then t_exec c g (tables d) else tables d)"
  proof (cases "live d g")
    case False
    with closed show ?thesis by simp
  next
    case True
    then have u: "\<not> unusable d g" using use by simp
    show ?thesis
    proof (cases c)
      case (GSetTimeout proto source t)
      with call group_SetTimeout_exec [OF _ ok [OF True] u] show ?thesis
        by (simp add: connft_dataplane_def)
    qed (use call u in \<open>simp_all add: connft_dataplane_def tables_group_Enable tables_group_Disable
          group_AddMappings_def tables_addMappings group_DelMappings_def tables_delMappings
          group_ClearMappings_def tables_clearMappings group_mappings_def\<close>)
  qed
qed

lemma t_exec_frame:
  "live (t_exec c g d) = live d" "cg_allocated (t_exec c g d) = cg_allocated d"
  "g' \<noteq> g \<Longrightarrow> cg_table (t_exec c g d) g' = cg_table d g'"
  "g' \<noteq> g \<Longrightarrow> cg_isEnabled (t_exec c g d) g' = cg_isEnabled d g'"
  by (cases c; simp add: view_upd_group retime_def split: option.split)+

lemma inj_src_of_sorted:
  assumes "sorted_wrt (\<lambda>x m. \<not> mapping_Overlaps m x) ms"
  shows "inj_on src_key (set ms)"
  using assms
proof (induction ms)
  case Nil
  then show ?case by simp
next
  case (Cons m ms)
  then have "\<forall>x \<in> set ms. src_key x \<noteq> src_key m" using same_src_Overlaps by auto
  with Cons show ?case by (auto simp: inj_on_def)
qed

lemma t_exec_done:
  assumes inv: "connft_inv d" and call: "g_exec (connft_dataplane K) c g d = (None, d')"
  shows "cg_table (t_exec c g (tables d)) g = spec_table c (cg_table d g)"
    and "cg_isEnabled (t_exec c g (tables d)) g = spec_enabled c (cg_isEnabled d g)"
proof -
  have lv: "live d g" and ok: "group_ok (d_heap d g)" using connft_exec(2) [OF inv call] by simp_all
  show "cg_table (t_exec c g (tables d)) g = spec_table c (cg_table d g)"
  proof (cases c)
    case (GAdd ms)
    have core: "inv_core d" and u: "\<not> unusable d g"
      using inv lv connft_inv_unusable by (auto simp: connft_inv_def)
    then have "addMappings K g ms d = (None, d')"
      using call GAdd by (simp add: connft_dataplane_def group_AddMappings_def)
    then have "inj_on src_key (set ms)"
      using addMappings_fresh [OF core] inj_src_of_sorted by blast
    then show ?thesis by (auto simp: GAdd cg_table_def t_insert_bySrc split: option.split)
  next
    case GClear
    have "k \<in> src_key ` set (group_mappings (d_heap d g))" if "map_of (cg_bySrc (d_heap d g)) k = Some m" for k m
      using group_ok_bySrc [OF ok that] that holds_mappings [OF ok, of m] by (auto simp: holds_def)
    then have "cg_table (t_exec c g (tables d)) g k = None" for k
      by (cases "map_of (cg_bySrc (d_heap d g)) k")
        (auto simp: GClear cg_table_def t_remove_bySrc group_mappings_def)
    then show ?thesis by (auto simp: GClear)
  next
    case (GSetTimeout proto source t)
    then show ?thesis
      using group_ok_bySrc [OF ok, of "(source, proto)"]
      by (auto simp: cg_table_def retime_def fun_eq_iff split: option.split)
  qed (auto simp: cg_table_def t_remove_bySrc)
  show "cg_isEnabled (t_exec c g (tables d)) g = spec_enabled c (cg_isEnabled d g)"
    by (cases c) (auto simp: cg_isEnabled_def retime_def split: option.split)
qed

lemma connft_exec_inv:
  "connft_inv d \<Longrightarrow> g_exec (connft_dataplane K) c g d = (r, d') \<Longrightarrow> connft_inv d'"
  by (cases c) (simp add: connft_dataplane_def, erule (1) inv_rules)+

section \<open>Opening and closing\<close>

lemma close_group_view:
  assumes inv: "inv_core d" and cl: "close_group K g d = (r, d')"
  shows "live d' g' \<longleftrightarrow> live d g' \<and> g' \<noteq> g" and "cg_allocated d' = cg_allocated d"
    and "g' \<noteq> g \<Longrightarrow> cg_table d' g' = cg_table d g' \<and> cg_isEnabled d' g' = cg_isEnabled d g'"
    and "inv_core d'" and "d_closed d' = d_closed d"
proof -
  have "(live d' g' \<longleftrightarrow> live d g' \<and> g' \<noteq> g) \<and> cg_allocated d' = cg_allocated d \<and> (g' \<noteq> g \<longrightarrow>
      cg_table d' g' = cg_table d g' \<and> cg_isEnabled d' g' = cg_isEnabled d g')
      \<and> inv_core d' \<and> d_closed d' = d_closed d"
  proof (cases "live d g")
    case False
    with cl inv show ?thesis by (auto simp: close_group_def live_def)
  next
    case True
    note c = inv_close_group [OF inv True cl]
    have "d_next d' = d_next d"
      using tables_close_group [OF cl] True tables_simps(3) [of d']
      by (simp add: live_def t_close_def split: if_splits)
    then have a: "cg_allocated d' = cg_allocated d" by (simp add: cg_allocated_def fun_eq_iff)
    have "core (d_heap d' g') = core (d_heap d g')" if "g' \<noteq> g" using c(5) [OF that] .
    then have "g' \<noteq> g \<Longrightarrow> cg_table d' g' = cg_table d g' \<and> cg_isEnabled d' g' = cg_isEnabled d g'
        \<and> live d' g' = live d g'"
      unfolding cg_view_defs using core_simps(2,4,5) by metis
    with c a show ?thesis by (cases "g' = g") auto
  qed
  then show "live d' g' \<longleftrightarrow> live d g' \<and> g' \<noteq> g" and "cg_allocated d' = cg_allocated d"
    and "g' \<noteq> g \<Longrightarrow> cg_table d' g' = cg_table d g' \<and> cg_isEnabled d' g' = cg_isEnabled d g'"
    and "inv_core d'" and "d_closed d' = d_closed d" by blast+
qed

lemma close_groups_next:
  "inv_core d \<Longrightarrow> close_groups K gs d = (es, d') \<Longrightarrow> cg_allocated d' = cg_allocated d"
proof (induction gs arbitrary: d es)
  case Nil
  then show ?case by simp
next
  case (Cons g gs)
  obtain e d1 where c: "close_group K g d = (e, d1)" by (cases "close_group K g d")
  then show ?case
    using Cons.IH [of d1] Cons.prems close_group_view(2,4) [OF Cons.prems(1) c]
    by (auto split: prod.splits)
qed

lemma connft_Close_next:
  assumes "connft_inv d" and "connft_Close K d = (r, d')"
  shows "cg_allocated d' = cg_allocated d"
proof (cases "d_closed d")
  case True
  with assms show ?thesis by (simp add: connft_Close_def)
next
  case False
  let ?d0 = "d\<lparr>d_closed := True\<rparr>"
  obtain es d1 where c: "close_groups K (map snd (d_groups ?d0)) ?d0 = (es, d1)"
    by (cases "close_groups K (map snd (d_groups ?d0)) ?d0")
  obtain e d2 where t: "ensureTableDeleted K d1 = (e, d2)" by (cases "ensureTableDeleted K d1")
  have "d' = d2\<lparr>d_nft := ct_Close K (d_nft d2)\<rparr>"
    using assms(2) False c t by (simp add: connft_Close_def Let_def)
  then have td: "tables d' = tables d1" using tables_ensureTableDeleted [OF t] by simp
  have "inv_core ?d0" using assms(1) by (simp add: inv_defs)
  from close_groups_next [OF this c] have "cg_allocated d1 = cg_allocated d"
    by (simp add: cg_allocated_def fun_eq_iff)
  with view_eq(3) [OF td] show ?thesis by simp
qed

lemma NewGroup_view:
  assumes "connft_inv d" and "NewGroup name now d = (Inr g, d')"
  shows "\<not> cg_allocated d g \<and> (\<forall>g'. cg_allocated d' g' \<longleftrightarrow> cg_allocated d g' \<or> g' = g)
    \<and> (\<forall>g'. live d' g' \<longleftrightarrow> live d g' \<or> g' = g)
    \<and> cg_table d' g = (\<lambda>k. None) \<and> \<not> cg_isEnabled d' g
    \<and> (\<forall>g'. g' \<noteq> g \<longrightarrow> cg_table d' g' = cg_table d g' \<and> cg_isEnabled d' g' = cg_isEnabled d g')"
  using assms(2)
  by (auto simp: NewGroup_def NewConnftGroup_def Let_def cg_view_defs split: if_splits)

lemma tables_StaleGroups: "StaleGroups K d = (res, d') \<Longrightarrow> tables d' = tables d"
  by (auto simp: StaleGroups_def Let_def split: if_splits prod.splits sum.splits)

section \<open>The contract holds\<close>

lemma connft_call_frame:
  assumes inv: "connft_inv d" and call: "g_exec (connft_dataplane K) c g d = (r, d')"
  shows "live d' = live d \<and> cg_allocated d' = cg_allocated d"
    and "g' \<noteq> g \<Longrightarrow> cg_table d' g' = cg_table d g' \<and> cg_isEnabled d' g' = cg_isEnabled d g'"
proof -
  have "live d' = live (tables d')" "cg_allocated d' = cg_allocated (tables d')"
    "cg_table d' = cg_table (tables d')" "cg_isEnabled d' = cg_isEnabled (tables d')" by simp_all
  then show "live d' = live d \<and> cg_allocated d' = cg_allocated d"
    and "g' \<noteq> g \<Longrightarrow> cg_table d' g' = cg_table d g' \<and> cg_isEnabled d' g' = cg_isEnabled d g'"
    using connft_exec(1) [OF inv call] t_exec_frame [where c = c and g = g and d = "tables d"]
    by (simp_all split: if_splits)
qed

lemma connft_call_failed:
  assumes "connft_inv d" and "g_exec (connft_dataplane K) c g d = (Some e, d')"
  shows "cg_table d' g = cg_table d g \<and> cg_isEnabled d' g = cg_isEnabled d g"
  using connft_exec(1) [OF assms] view_eq [of d' d] by simp

lemma connft_call_done:
  assumes "connft_inv d" and "g_exec (connft_dataplane K) c g d = (None, d')"
  shows "cg_table d' g = spec_table c (cg_table d g) \<and> cg_isEnabled d' g = spec_enabled c (cg_isEnabled d g)"
  using connft_exec(1) [OF assms] t_exec_done [OF assms]
    view_tables(1,2) [of d'] by simp

lemma connft_add_fresh:
  assumes inv: "connft_inv d" and call: "g_exec (connft_dataplane K) (GAdd ms) g d = (None, d')"
    and m: "m \<in> set ms"
  shows "cg_table d g (src_key m) = None"
proof (cases "cg_table d g (src_key m)")
  case (Some x)
  have lv: "live d g" and ok: "group_ok (d_heap d g)" using connft_exec(2) [OF inv call] by simp_all
  have core: "inv_core d" and u: "\<not> unusable d g"
    using inv lv connft_inv_unusable by (auto simp: connft_inv_def)
  then have "addMappings K g ms d = (None, d')"
    using call by (simp add: connft_dataplane_def group_AddMappings_def)
  then have "fresh_for d m" using addMappings_fresh [OF core] m by (auto simp: list_all_iff)
  moreover from Some have "src_key x = src_key m" "holds (d_heap d g) x"
    using group_ok_bySrc [OF ok, of "src_key m" x] by (auto simp: cg_table_def holds_def)
  ultimately show ?thesis using lv same_src_Overlaps [of m x] by (auto simp: fresh_for_def)
qed

interpretation cdp: dataplane_contract "connft_dataplane K" connft_inv cg_allocated live cg_isEnabled
  cg_table for K :: "'n nft_ops"
proof unfold_locales
  fix d d' :: "'n connft" and g g' r name now res
  assume inv: "connft_inv d"
  then have core: "inv_core d" by (simp add: connft_inv_def)
  show "live d g \<Longrightarrow> cg_allocated d g"
    using core by (simp add: inv_core_def registered_def cg_allocated_def)
  show "\<not> live d g \<Longrightarrow> g_exec (connft_dataplane K) c g d = (Some DpErrClosed, d)" for c
    using connft_exec(3) [OF inv] by (metis prod.collapse)
  show "\<not> live d g \<Longrightarrow> g_Close (connft_dataplane K) g d = (None, d)"
    by (simp add: connft_dataplane_def group_Close_def close_group_def live_def)
  show "g_Close (connft_dataplane K) g d = (r, d') \<Longrightarrow> connft_inv d'"
    using inv by (simp add: connft_dataplane_def group_Close_inv)
  show "g_Close (connft_dataplane K) g d = (r, d') \<Longrightarrow>
      (live d' g' \<longleftrightarrow> live d g' \<and> g' \<noteq> g) \<and> cg_allocated d' = cg_allocated d"
    using close_group_view(1,2) [OF core] by (simp add: connft_dataplane_def group_Close_def)
  show "g_Close (connft_dataplane K) g d = (r, d') \<Longrightarrow> g' \<noteq> g \<Longrightarrow>
      cg_table d' g' = cg_table d g' \<and> cg_isEnabled d' g' = cg_isEnabled d g'"
    using close_group_view(3) [OF core] by (simp add: connft_dataplane_def group_Close_def)
  show "dp_StaleGroups (connft_dataplane K) d = (stale, d') \<Longrightarrow>
      connft_inv d' \<and> live d' = live d \<and> cg_allocated d' = cg_allocated d \<and> cg_isEnabled d' = cg_isEnabled d
      \<and> cg_table d' = cg_table d" for stale
    using inv tables_StaleGroups [of K d stale d'] view_eq [of d' d] connft_inv_tables_eq [of d' d]
    by (simp add: connft_dataplane_def)
  show "dp_NewGroup (connft_dataplane K) name now d = (res, d') \<Longrightarrow> connft_inv d'"
    using inv by (simp add: connft_dataplane_def NewGroup_inv)
  show "dp_NewGroup (connft_dataplane K) name now d = (Inl e, d') \<Longrightarrow> d' = d" for e
    by (auto simp: connft_dataplane_def NewGroup_def NewConnftGroup_def Let_def split: if_splits)
  show "dp_Close (connft_dataplane K) d = (r, d') \<Longrightarrow>
      connft_inv d' \<and> (\<forall>g. \<not> live d' g) \<and> cg_allocated d' = cg_allocated d"
    using connft_Close_inv [OF inv] connft_Close_next [OF inv] by (simp add: connft_dataplane_def)
  show "dp_NewGroup (connft_dataplane K) name now d = (Inr g, d') \<Longrightarrow>
      \<not> cg_allocated d g \<and> (\<forall>g'. cg_allocated d' g' \<longleftrightarrow> cg_allocated d g' \<or> g' = g)
      \<and> (\<forall>g'. live d' g' \<longleftrightarrow> live d g' \<or> g' = g)
      \<and> cg_table d' g = (\<lambda>k. None) \<and> \<not> cg_isEnabled d' g
      \<and> (\<forall>g'. g' \<noteq> g \<longrightarrow> cg_table d' g' = cg_table d g' \<and> cg_isEnabled d' g' = cg_isEnabled d g')"
    using NewGroup_view [OF inv] by (simp add: connft_dataplane_def)
qed (fact connft_exec_inv connft_call_frame connft_call_failed connft_call_done connft_add_fresh)+

end
