(* ===== verification/Dataplane_Spec.thy ===== *)
theory Dataplane_Spec
  imports Connft_Contract
begin

text \<open>
  The properties of the dataplane: what the groups of any reachable state hold, what each exported
  operation does to them on success and on failure, and what a closed group answers.
\<close>

section \<open>Helpers\<close>

lemma inv_mappings:
  assumes inv: "connft_inv d"
  shows "m \<in> set (group_Mappings g d) \<longleftrightarrow> live d g \<and> holds (d_heap d g) m"
proof -
  have "live d g \<Longrightarrow> group_ok (d_heap d g)" using inv by (simp add: connft_inv_def inv_core_def)
  then show ?thesis
    using connft_inv_unusable [OF inv, of g] holds_mappings by (auto simp: group_Mappings_def)
qed

lemma inv_disjoint:
  assumes "connft_inv d" and "m \<in> set (group_Mappings g d)" and "m' \<in> set (group_Mappings g' d)"
    and "mapping_Overlaps m m'"
  shows "g = g' \<and> m = m'"
  using assms unfolding inv_mappings [OF assms(1)] connft_inv_def inv_core_def no_overlaps_def by blast

lemma reach_live:
  assumes "dp_reach K d"
  shows "m \<in> set (group_Mappings g d) \<longleftrightarrow> live d g \<and> holds (d_heap d g) m"
  by (rule inv_mappings [OF dp_reach_inv [OF assms]])

lemma reach_pair:
  assumes "dp_reach K d" and "m \<in> set (group_Mappings g d)" and "m' \<in> set (group_Mappings g' d)"
    and "mapping_Overlaps m m'"
  shows "g = g' \<and> m = m'"
  by (rule inv_disjoint [OF dp_reach_inv [OF assms(1)] assms(2-4)])

lemma reach_wf:
  assumes "dp_reach K d" and "m \<in> set (group_Mappings g d)"
  shows "mapping_wf m"
  using assms dp_reach_inv [OF assms(1)] holds_wf [of "d_heap d g" m]
  unfolding reach_live [OF assms(1)] by (simp add: connft_inv_def inv_core_def)

lemma reach_table:
  assumes "dp_reach K d"
  shows "m \<in> set (group_Mappings g d) \<longleftrightarrow> live d g \<and> cg_table d g (src_key m) = Some m"
  unfolding reach_live [OF assms] by (simp add: holds_def cg_table_def)

lemma reach_exec:
  assumes "dp_reach K d" and "g_exec (connft_dataplane K) c g d = (r, d')"
  shows "dp_reach K d'"
proof -
  have "\<exists>c'. dp_exec K c' d = d'"
    by (cases c) (use assms(2) in \<open>simp_all add: connft_dataplane_def\<close>,
        (metis dp_exec.simps snd_conv)+)
  with assms(1) show ?thesis by (metis dp_reach.step dp_step.call)
qed

text \<open>A connection on which nftables accepts every request, and three demonstration values.\<close>

definition accepting_nft :: "flow list nft_ops" where
  "accepting_nft = \<lparr>nft_Call = (\<lambda>_ n. (None, n)), nft_Flush = (\<lambda>n. (None, n)),
     nft_ListTable = (\<lambda>_ n. (None, False, n)), ct_DumpFilter = (\<lambda>n. (Inr n, n)), ct_Close = (\<lambda>n. n)\<rparr>"

definition demo_mapping :: dnat_mapping where
  "demo_mapping = \<lparr>m_Source = \<lparr>ap_addr = IP4 0x0A000001, ap_port = 80\<rparr>,
     m_Destination = \<lparr>ap_addr = IP4 0x0A000002, ap_port = 8080\<rparr>, m_Timeout = 0, m_Protocol = ProtocolTCP\<rparr>"

text \<open>A dataplane that has been opened, and one with a group.\<close>

definition demo_dplane :: "flow list connft" where
  "demo_dplane = (connft_init ''proxygw'' [])\<lparr>d_table := Some ''proxygw''\<rparr>"

lemma accepting_do [simp]:
  "nft_do accepting_nft msg d = (None, d)" "nft_flush accepting_nft d = (None, d)"
  "nft_ListTable accepting_nft name n = (None, False, n)"
  by (simp_all add: nft_do_def nft_flush_def accepting_nft_def)

lemma accepting_do_all [simp]: "nft_do_all accepting_nft msgs d = d" "add_sets accepting_nft xs d = (None, d)"
  by (induction msgs; simp) (induction xs; auto)

lemma demo_dplane_New: "connft_New accepting_nft ''proxygw'' [] = (Inr demo_dplane, [])"
  by (simp add: connft_New_def ensureTableAdded_def not_ENOENT_def demo_dplane_def connft_init_def Let_def)

definition demo_group :: "flow list connft" where
  "demo_group = dp_exec accepting_nft (CallNewGroup ''web'' 0) demo_dplane"

definition demo_added :: "flow list connft" where
  "demo_added = dp_exec accepting_nft (CallAdd 0 [demo_mapping]) demo_group"

lemma demo_group_reach: "dp_reach accepting_nft demo_group"
  unfolding demo_group_def by (rule dp_reach.step [OF dp_reach.init [OF demo_dplane_New] dp_step.call])

lemma demo_added_reach: "dp_reach accepting_nft demo_added"
  unfolding demo_added_def by (rule dp_reach.step [OF demo_group_reach dp_step.call])

lemma demo_group_values:
  "group_Mappings 0 demo_group = []" "unusable demo_group 0 = False"
  "cg_enabled (d_heap demo_group 0) = False" "d_next demo_group = 1" "existing_mappings demo_group = []"
  by code_simp+

lemma demo_added_values:
  "group_Mappings 0 demo_added = [demo_mapping]" "unusable demo_added 0 = False"
  "cg_enabled (d_heap demo_added 0) = False" "d_next demo_added = 1"
  "fst (group_AddMappings accepting_nft 0 [demo_mapping] demo_group) = None"
  by code_simp+

lemma demo_add: "group_AddMappings accepting_nft 0 [demo_mapping] demo_group = (None, demo_added)"
  using demo_added_values(5) by (simp add: demo_added_def prod_eq_iff)

section \<open>The mappings of a reachable dataplane\<close>

text \<open>
  C4. In every reachable state of the dataplane, over all its groups: every mapping is valid, and
  two mappings overlap only when they are the same mapping of the same group.
\<close>

theorem mappings_never_overlap:
  assumes "dp_reach K d" and "m \<in> set (group_Mappings g d)" and "m' \<in> set (group_Mappings g' d)"
  shows "mapping_Validate m = None \<and> (mapping_Overlaps m m' \<longrightarrow> g = g' \<and> m = m')"
  using assms reach_wf reach_pair mapping_Validate_None by blast

theorem mappings_never_overlap_witness:
  "demo_mapping \<in> set (group_Mappings 0 demo_added) \<and> mapping_Validate demo_mapping = None"
  using mappings_never_overlap [OF demo_added_reach, of demo_mapping 0 demo_mapping 0]
  by (simp add: demo_added_values)

text \<open>
  No packet is claimed twice: in every reachable state at most one mapping of one group
  matches the protocol, address family, address and port of a packet, wildcards included.
\<close>

theorem packet_claimed_once:
  assumes "dp_reach K d" and "m \<in> set (group_Mappings g d)" and "m' \<in> set (group_Mappings g' d)"
    and "mapping_claims pkt m" and "mapping_claims pkt m'"
  shows "g = g' \<and> m = m'"
  using assms mapping_claims_Overlaps reach_pair by blast

theorem packet_claimed_once_witness:
  "(0::gid) = 0 \<and> demo_mapping = demo_mapping"
  by (rule packet_claimed_once [OF demo_added_reach, where g = 0 and g' = 0 and
        pkt = "\<lparr>pkt_proto = ProtocolTCP, pkt_dst = \<lparr>ap_addr = IP4 0x0A000001, ap_port = 80\<rparr>\<rparr>"])
    (simp_all add: demo_added_values, code_simp+)

text \<open>
  The comment on \<open>Mapping\<close>, formally: in every reachable state and for every protocol the
  mappings of all groups denote a one-to-one function from listen addresses to target addresses
  whose domain is disjoint from its codomain.
\<close>

theorem dataplane_denotes_injection:
  assumes "dp_reach K d" and "m \<in> set (group_Mappings g d)" and "m' \<in> set (group_Mappings g' d)"
    and "m_Protocol m = m_Protocol m'"
  shows "(m_Source m = m_Source m' \<longleftrightarrow> m_Destination m = m_Destination m')
    \<and> m_Source m \<noteq> m_Destination m'"
proof -
  note wf = reach_wf [OF assms(1,2)] reach_wf [OF assms(1,3)]
  have one: "m = m'" if "{m_Source m, m_Destination m} \<inter> {m_Source m', m_Destination m'} \<noteq> {}"
    using mapping_Overlaps_shared [OF wf assms(4) that] reach_pair [OF assms(1-3)] by simp
  moreover have "m_Source m \<noteq> m_Destination m" using wf(1) by (simp add: mapping_wf_def)
  ultimately show ?thesis by auto
qed

theorem dataplane_denotes_injection_witness:
  "(m_Source demo_mapping = m_Source demo_mapping \<longleftrightarrow> m_Destination demo_mapping = m_Destination demo_mapping)
    \<and> m_Source demo_mapping \<noteq> m_Destination demo_mapping"
  by (rule dataplane_denotes_injection [OF demo_added_reach, where g = 0 and g' = 0]) (simp_all add: demo_added_values)

section \<open>Adding and deleting\<close>

text \<open>
  C5. When \<open>AddMappings\<close> returns no error, the group holds its old mappings and the new ones and
  every other group is as before.
\<close>

theorem AddMappings_adds:
  assumes "dp_reach K d" and "group_AddMappings K g ms d = (None, d')"
  shows "set (group_Mappings g d') = set (group_Mappings g d) \<union> set ms
    \<and> (g' \<noteq> g \<longrightarrow> set (group_Mappings g' d') = set (group_Mappings g' d))"
proof -
  have call: "g_exec (connft_dataplane K) (GAdd ms) g d = (None, d')"
    using assms(2) by (simp add: connft_dataplane_def)
  have inv: "connft_inv d" using assms(1) by (rule dp_reach_inv)
  have reach: "dp_reach K d'" by (rule reach_exec [OF assms(1) call])
  note frame = connft_call_frame [OF inv call] and live = connft_exec(2) [OF inv call]
  have "inv_core d" and u: "\<not> unusable d g"
    using inv live connft_inv_unusable [OF inv] by (simp_all add: connft_inv_def)
  moreover have "addMappings K g ms d = (None, d')" using assms(2) u by (simp add: group_AddMappings_def)
  ultimately have inj: "inj_on src_key (set ms)" using addMappings_fresh inj_src_of_sorted by blast
  have find: "find (\<lambda>x. src_key x = src_key m) ms = Some m" if "m \<in> set ms" for m
  proof (cases "find (\<lambda>x. src_key x = src_key m) ms")
    case None
    with that show ?thesis by (auto simp: find_None_iff)
  next
    case (Some x)
    then have "x \<in> set ms" "src_key x = src_key m" by (auto simp: find_Some_iff)
    with inj that Some show ?thesis by (auto simp: inj_on_def)
  qed
  have "m \<in> set (group_Mappings g d') \<longleftrightarrow> m \<in> set (group_Mappings g d) \<or> m \<in> set ms" for m
  proof -
    have tab: "cg_table d' g = spec_table (GAdd ms) (cg_table d g)"
      using connft_call_done [OF inv call] by simp
    have fresh: "m \<in> set ms \<Longrightarrow> cg_table d g (src_key m) = None"
      by (rule connft_add_fresh [OF inv call])
    have "spec_table (GAdd ms) (cg_table d g) (src_key m) = Some m \<longleftrightarrow>
        cg_table d g (src_key m) = Some m \<or> m \<in> set ms"
    proof (cases "m \<in> set ms")
      case True
      with find fresh show ?thesis by simp
    next
      case False
      have "x \<in> set ms \<and> src_key x = src_key m" if "find (\<lambda>x. src_key x = src_key m) ms = Some x" for x
        using that by (auto simp: find_Some_iff)
      moreover have "cg_table d g (src_key m) = None" if "x \<in> set ms" "src_key x = src_key m" for x
        using connft_add_fresh [OF inv call that(1)] that(2) by simp
      ultimately show ?thesis
        using False by (cases "find (\<lambda>x. src_key x = src_key m) ms") (simp, metis option.distinct(1)
            option.simps(5) option.inject spec_table.simps(1))
    qed
    then show ?thesis
      unfolding reach_table [OF assms(1)] reach_table [OF reach] tab using frame(1) live by simp
  qed
  moreover have "m \<in> set (group_Mappings g' d') \<longleftrightarrow> m \<in> set (group_Mappings g' d)" if "g' \<noteq> g" for m
    unfolding reach_table [OF assms(1)] reach_table [OF reach] using frame that by simp
  ultimately show ?thesis by blast
qed

theorem AddMappings_adds_witness:
  "set (group_Mappings 0 demo_added) = set (group_Mappings 0 demo_group) \<union> set [demo_mapping]
    \<and> set (group_Mappings 1 demo_added) = set (group_Mappings 1 demo_group)"
  using AddMappings_adds [OF demo_group_reach demo_add, of 1] by simp

text \<open>
  C8. When \<open>DelMappings\<close> returns no error, every mapping named had its source mapped to that
  destination, exactly the mappings of the named sources are gone, and every other group is as before.
\<close>

theorem DelMappings_removes:
  assumes "dp_reach K d" and "group_DelMappings K g ms d = (None, d')"
  shows "(\<forall>m \<in> set ms. \<exists>x \<in> set (group_Mappings g d). src_key x = src_key m \<and> m_Destination x = m_Destination m)
    \<and> set (group_Mappings g d') = {x \<in> set (group_Mappings g d). src_key x \<notin> src_key ` set ms}
    \<and> (g' \<noteq> g \<longrightarrow> set (group_Mappings g' d') = set (group_Mappings g' d))"
proof -
  have call: "g_exec (connft_dataplane K) (GDel ms) g d = (None, d')"
    using assms(2) by (simp add: connft_dataplane_def)
  have inv: "connft_inv d" using assms(1) by (rule dp_reach_inv)
  have reach: "dp_reach K d'" by (rule reach_exec [OF assms(1) call])
  note frame = connft_call_frame [OF inv call] and live = connft_exec(2) [OF inv call]
  have tab: "cg_table d' g = spec_table (GDel ms) (cg_table d g)"
    using connft_call_done [OF inv call] by simp
  have u: "\<not> unusable d g" using live connft_inv_unusable [OF inv] by simp
  then have "ms = [] \<or> check_present (d_heap d g) ms = None"
    using assms(2) by (auto simp: group_DelMappings_def delMappings_def split: option.splits if_splits)
  then have "\<exists>x \<in> set (group_Mappings g d). src_key x = src_key m \<and> m_Destination x = m_Destination m"
    if "m \<in> set ms" for m
    using that live group_ok_bySrc [of "d_heap d g" "src_key m"]
    by (fastforce simp: check_present_None list_all_iff reach_table [OF assms(1)] cg_table_def)
  moreover have "m \<in> set (group_Mappings g d') \<longleftrightarrow>
      m \<in> set (group_Mappings g d) \<and> src_key m \<notin> src_key ` set ms" for m
    unfolding reach_table [OF assms(1)] reach_table [OF reach] tab using frame(1) live by auto
  moreover have "m \<in> set (group_Mappings g' d') \<longleftrightarrow> m \<in> set (group_Mappings g' d)" if "g' \<noteq> g" for m
    unfolding reach_table [OF assms(1)] reach_table [OF reach] using frame that by simp
  ultimately show ?thesis by blast
qed

theorem DelMappings_removes_witness:
  "\<exists>d'. group_DelMappings accepting_nft 0 [demo_mapping] demo_added = (None, d')
     \<and> set (group_Mappings 0 d') = {x \<in> set [demo_mapping]. src_key x \<notin> src_key ` set [demo_mapping]}"
proof -
  have "fst (group_DelMappings accepting_nft 0 [demo_mapping] demo_added) = None" by code_simp
  then have e: "group_DelMappings accepting_nft 0 [demo_mapping] demo_added =
      (None, snd (group_DelMappings accepting_nft 0 [demo_mapping] demo_added))"
    by (simp add: prod_eq_iff)
  from DelMappings_removes [OF demo_added_reach e, of 0] e show ?thesis
    unfolding demo_added_values(1) by blast
qed

text \<open>
  C7. A call that fails changes nothing: whatever \<open>Enable\<close>, \<open>Disable\<close>, \<open>AddMappings\<close>,
  \<open>DelMappings\<close>, \<open>ClearMappings\<close> or \<open>SetTimeout\<close> answers with an error, the mappings of every group,
  its enabled flag and the table of groups are what they were.
\<close>

theorem failed_calls_change_nothing:
  assumes "dp_reach K d" and "g_exec (connft_dataplane K) c g d = (Some e, d')"
  shows "group_Mappings g' d' = group_Mappings g' d \<and> group_IsEnabled g' d' = group_IsEnabled g' d
    \<and> d_groups d' = d_groups d"
proof -
  have "tables d' = tables d" using connft_exec(1) [OF dp_reach_inv [OF assms(1)] assms(2)] by simp
  note eq = tables_eq_group [OF this, of g'] tables_eqD(1,3) [OF this]
  then show ?thesis
    by (simp add: group_Mappings_def group_IsEnabled_def group_mappings_def unusable_def)
qed

text \<open>The witness adds a mapping twice; the second call is refused.\<close>

theorem failed_calls_change_nothing_witness:
  "\<exists>e d'. g_exec (connft_dataplane accepting_nft) (GAdd [demo_mapping]) 0 demo_added = (Some e, d')
     \<and> group_Mappings 0 d' = [demo_mapping]"
proof -
  obtain r d' where e: "g_exec (connft_dataplane accepting_nft) (GAdd [demo_mapping]) 0 demo_added = (r, d')"
    by (cases "g_exec (connft_dataplane accepting_nft) (GAdd [demo_mapping]) 0 demo_added")
  have "fst (g_exec (connft_dataplane accepting_nft) (GAdd [demo_mapping]) 0 demo_added) \<noteq> None"
    by code_simp
  with e obtain err where "r = Some err" by auto
  with e failed_calls_change_nothing [OF demo_added_reach, of "GAdd [demo_mapping]" 0 err d' 0]
  show ?thesis by (auto simp: demo_added_values(1))
qed

text \<open>
  C6. When \<open>AddMappings\<close> is accepted: on an open group that is not enabled it succeeds exactly when
  every mapping is valid, none overlaps a mapping of any group, and none overlaps an earlier one of
  the same call.
\<close>

theorem AddMappings_accepts_iff:
  assumes "dp_reach K d" and "\<not> unusable d g" and "\<not> group_IsEnabled g d"
  shows "fst (group_AddMappings K g ms d) = None \<longleftrightarrow>
    (\<forall>m \<in> set ms. mapping_Validate m = None
       \<and> (\<forall>g' x. x \<in> set (group_Mappings g' d) \<longrightarrow> \<not> mapping_Overlaps m x))
    \<and> (\<forall>i j. i < j \<and> j < length ms \<longrightarrow> \<not> mapping_Overlaps (ms ! j) (ms ! i))"
proof -
  have inv: "inv_core d" using dp_reach_inv [OF assms(1)] by (simp add: connft_inv_def)
  have off: "\<not> cg_enabled (d_heap d g)" using assms(2,3) by (simp add: group_IsEnabled_def)
  have ex: "(\<forall>(n, x) \<in> set (existing_mappings d). \<not> mapping_Overlaps m x) \<longleftrightarrow>
      (\<forall>g' x. x \<in> set (group_Mappings g' d) \<longrightarrow> \<not> mapping_Overlaps m x)" for m
    unfolding reach_live [OF assms(1)] using existing_mappings_iff [OF inv] by fastforce
  have "fst (group_AddMappings K g ms d) = None \<longleftrightarrow> check_new (existing_mappings d) [] ms = None"
    using assms(2) off by (cases "check_new (existing_mappings d) [] ms")
      (auto simp: group_AddMappings_def addMappings_def)
  also have "\<dots> \<longleftrightarrow> (\<forall>m \<in> set ms. mapping_wf m
       \<and> (\<forall>(n, x) \<in> set (existing_mappings d). \<not> mapping_Overlaps m x))
    \<and> (\<forall>i j. i < j \<and> j < length ms \<longrightarrow> \<not> mapping_Overlaps (ms ! j) (ms ! i))"
    unfolding check_new_None by (auto simp: list_all_iff sorted_wrt_iff_nth_less)
  finally show ?thesis by (simp only: ex mapping_Validate_None)
qed

theorem AddMappings_accepts_iff_witness:
  "fst (group_AddMappings accepting_nft 0 [demo_mapping, demo_mapping] demo_group) \<noteq> None"
  using AddMappings_accepts_iff [OF demo_group_reach, of 0 "[demo_mapping, demo_mapping]"]
  by (fastforce simp: demo_group_values group_IsEnabled_def)

text \<open>
  A closed group is closed for good: after its \<open>Close\<close>, and whatever is then done to the
  dataplane and its groups, each of its methods answers \<open>ErrClosed\<close> and changes nothing, and
  another \<open>Close\<close> answers no error and changes nothing.
\<close>

theorem closed_group_stays_closed:
  assumes "dp_reach K d" and "g < d_next d" and "group_Close K g d = (r, d1)"
  shows "(let d2 = client_run (connft_dataplane K) cs d1
     in g_exec (connft_dataplane K) c g d2 = (Some DpErrClosed, d2) \<and> group_Close K g d2 = (None, d2))"
proof -
  have "connft_inv d" using assms(1) by (rule dp_reach_inv)
  moreover have "g_Close (connft_dataplane K) g d = (r, d1)"
    using assms(3) by (simp add: connft_dataplane_def)
  moreover have "cg_allocated d g" using assms(2) by (simp add: cg_allocated_def)
  ultimately show ?thesis
    using cdp.closed_for_good [of d K g r d1] by (simp add: connft_dataplane_def Let_def)
qed

theorem closed_group_stays_closed_witness:
  "(let d2 = client_run (connft_dataplane accepting_nft) [OpenGroup ''web'' 5]
       (snd (group_Close accepting_nft 0 demo_added))
    in g_exec (connft_dataplane accepting_nft) GEnable 0 d2 = (Some DpErrClosed, d2)
       \<and> group_Close accepting_nft 0 d2 = (None, d2))"
  by (rule closed_group_stays_closed [OF demo_added_reach, where r = None])
    (simp add: demo_added_values, simp add: prod_eq_iff, code_simp)

text \<open>
  Deleting what was just added restores the mapping of every source in every group.
\<close>

theorem add_delete_roundtrip:
  assumes "dp_reach K d" and "group_AddMappings K g ms d = (None, d1)"
    and "group_DelMappings K g ms d1 = (None, d2)"
  shows "map_of (cg_bySrc (d_heap d2 g')) = map_of (cg_bySrc (d_heap d g'))"
  using cdp.add_then_del [of d K ms g d1 d2 g'] dp_reach_inv [OF assms(1)] assms(2,3)
  by (simp add: connft_dataplane_def cg_table_def)

theorem add_delete_roundtrip_witness:
  "map_of (cg_bySrc (d_heap (snd (group_DelMappings accepting_nft 0 [demo_mapping] demo_added)) 0))
     = map_of (cg_bySrc (d_heap demo_group 0))"
  by (rule add_delete_roundtrip [OF demo_group_reach demo_add]) (simp add: prod_eq_iff, code_simp)

text \<open>
  When \<open>SetTimeout\<close> returns no error, \<open>Timeout\<close> of that protocol and source answers the new
  value, and every other source of the group keeps its mapping; when the source has no mapping
  both answer \<open>ErrNoSuchMapping\<close>.
\<close>

theorem SetTimeout_Timeout:
  assumes "dp_reach K d" and "\<not> unusable d g" and "group_SetTimeout K g proto source t d = (r, d')"
  shows "if map_of (cg_bySrc (d_heap d g)) (source, proto) = None
     then r = Some DpErrNoSuchMapping \<and> d' = d \<and> group_Timeout g proto source d = Inl DpErrNoSuchMapping
     else r = None \<longrightarrow> group_Timeout g proto source d' = Inr t
       \<and> (k = (source, proto) \<or> map_of (cg_bySrc (d_heap d' g)) k = map_of (cg_bySrc (d_heap d g)) k)"
proof (cases "map_of (cg_bySrc (d_heap d g)) (source, proto)")
  case None
  with assms(2,3) show ?thesis by (simp add: group_SetTimeout_def group_Timeout_def)
next
  case (Some m)
  have inv: "connft_inv d" using assms(1) by (rule dp_reach_inv)
  have call: "g_exec (connft_dataplane K) (GSetTimeout proto source t) g d = (r, d')"
    using assms(3) by (simp add: connft_dataplane_def)
  show ?thesis
  proof (cases r)
    case None
    note call' = call [unfolded None]
    have "cg_table d' g = (cg_table d g)((source, proto) := Some (m\<lparr>m_Timeout := t\<rparr>))"
      using connft_call_done [OF inv call'] Some by (simp add: cg_table_def)
    moreover have "\<not> unusable d' g"
      using connft_call_frame(1) [OF inv call'] connft_exec_inv [OF inv call'] assms(2)
        connft_inv_unusable [OF inv] connft_inv_unusable by metis
    ultimately show ?thesis using Some by (simp add: cg_table_def group_Timeout_def fun_eq_iff)
  next
    case (Some e)
    with \<open>map_of (cg_bySrc (d_heap d g)) (source, proto) = Some m\<close> show ?thesis by simp
  qed
qed

theorem SetTimeout_Timeout_witness:
  "group_SetTimeout accepting_nft 0 ProtocolUDP \<lparr>ap_addr = NoAddr, ap_port = 1\<rparr> 5 demo_added
     = (Some DpErrNoSuchMapping, demo_added)"
proof -
  obtain r d' where e: "group_SetTimeout accepting_nft 0 ProtocolUDP \<lparr>ap_addr = NoAddr, ap_port = 1\<rparr> 5 demo_added
      = (r, d')" by (cases "group_SetTimeout accepting_nft 0 ProtocolUDP \<lparr>ap_addr = NoAddr, ap_port = 1\<rparr> 5 demo_added")
  have "map_of (cg_bySrc (d_heap demo_added 0)) (\<lparr>ap_addr = NoAddr, ap_port = 1\<rparr>, ProtocolUDP) = None"
    by code_simp
  with SetTimeout_Timeout [OF demo_added_reach _ e] show ?thesis by (simp add: demo_added_values(2) e)
qed

section \<open>Closing and stale groups\<close>



lemma scan_flows_filter:
  "scan_flows d fls ns = filter (\<lambda>(n, g). \<forall>fl \<in> set fls. \<not> flow_hits fl (d_heap d g)) ns"
  by (induction d fls ns rule: scan_flows.induct) (auto simp: intro: filter_cong)

text \<open>
  C9. \<open>StaleGroups\<close> answers exactly the open groups none of whose destinations is the source of the
  reply direction of a tracked flow, each once.
\<close>

theorem StaleGroups_exact:
  assumes "dp_reach K d" and "StaleGroups K d = (Inr gs, d')" and "ct_DumpFilter K (d_nft d) = (Inr flows, n)"
  shows "distinct gs \<and> (g \<in> set gs \<longleftrightarrow> \<not> unusable d g \<and>
    \<not> (\<exists>fl \<in> set flows. \<exists>m \<in> set (group_Mappings g d). m_Protocol m = flow_Protocol fl
        \<and> m_Destination m = \<lparr>ap_addr = flow_SourceAddress fl, ap_port = flow_SourcePort fl\<rparr>))"
proof -
  have inv: "connft_inv d" using assms(1) by (rule dp_reach_inv)
  then have reg: "gomap_ok (d_groups d)"
    "\<And>n g. map_of (d_groups d) n = Some g \<longleftrightarrow> live d g \<and> cg_name (d_heap d g) = n"
    by (simp_all add: connft_inv_def inv_core_def registered_def)
  then have mem: "(n, g) \<in> set (d_groups d) \<longleftrightarrow> live d g \<and> cg_name (d_heap d g) = n" for n g
    by (simp add: gomap_mem_iff)
  let ?idle = "\<lambda>(n :: string, g). \<forall>fl \<in> set flows. \<not> flow_hits fl (d_heap d g)"
  have gs: "gs = map snd (filter ?idle (d_groups d))"
    using assms(2,3) by (auto simp: StaleGroups_def staleGroups_scan_def scan_flows_filter
        split: if_splits)
  have "distinct (d_groups d)" using reg(1) by (auto simp: gomap_ok_def distinct_map)
  moreover have "inj_on snd (set (d_groups d))" using mem by (auto simp: inj_on_def)
  ultimately have "distinct gs"
    by (simp add: gs distinct_map distinct_filter inj_on_def)
  moreover have "flow_hits fl (d_heap d g) \<longleftrightarrow> (\<exists>m \<in> set (group_Mappings g d). m_Protocol m = flow_Protocol fl
        \<and> m_Destination m = \<lparr>ap_addr = flow_SourceAddress fl, ap_port = flow_SourcePort fl\<rparr>)"
    if "live d g" for fl
  proof -
    have "group_ok (d_heap d g)" using inv that by (simp add: connft_inv_def inv_core_def)
    then show ?thesis
      unfolding Bex_def reach_live [OF assms(1)] flow_hits_def not_None_eq
      using that by (simp add: group_ok_byDst dst_key_def) blast
  qed
  moreover have "g \<in> set gs \<longleftrightarrow> live d g \<and> (\<forall>fl \<in> set flows. \<not> flow_hits fl (d_heap d g))"
    unfolding gs set_map set_filter using mem [of _ g] mem
    by (auto simp del: split_paired_Ex intro!: image_eqI [of g snd "(cg_name (d_heap d g), g)"])
  ultimately show ?thesis using connft_inv_unusable [OF inv] by blast
qed

theorem StaleGroups_exact_witness:
  "fst (StaleGroups accepting_nft demo_added) = Inr [0] \<and> distinct [0 :: gid]"
proof -
  have "fst (StaleGroups accepting_nft demo_added) = Inr [0]" by code_simp
  moreover from this have e: "StaleGroups accepting_nft demo_added =
      (Inr [0], snd (StaleGroups accepting_nft demo_added))"
    by (simp add: prod_eq_iff)
  moreover have "ct_DumpFilter accepting_nft (d_nft demo_added) = (Inr (d_nft demo_added), d_nft demo_added)"
    by (simp add: accepting_nft_def)
  ultimately show ?thesis using StaleGroups_exact [OF demo_added_reach e] by blast
qed

end
