(* ===== verification/Target.thy ===== *)
theory Target
  imports Dataplane Config_Validate
begin

text \<open>
  \<open>pkg/target\<close>: a target, its endpoints and its event loop. The exported methods are functions on
  the record of the target, one per region that holds its lock. The loop is a program counter in
  the record and one function per region between two blocking points; the step relations put
  them together with every interleaving of callers, context cancellation and handler results.
  The handler is code of a plugin: what its calls return is the label of the step.
\<close>

section \<open>Endpoints (endpoint.go)\<close>

record Endpoint =
  e_Name :: string
  e_Address :: addr_port
  e_Protocol :: protocol

definition endpoint_IsValid :: "Endpoint \<Rightarrow> bool" where
  "endpoint_IsValid e \<longleftrightarrow> e_Name e \<noteq> '''' \<and> ap_IsValid (e_Address e) \<and> ap_port (e_Address e) \<noteq> 0
     \<and> \<not> addr_IsUnspecified (ap_addr (e_Address e))"

definition endpoint_Overlaps :: "Endpoint \<Rightarrow> Endpoint \<Rightarrow> bool" where
  "endpoint_Overlaps e x =
     (if e_Name e = e_Name x then True
      else if e_Protocol e \<noteq> e_Protocol x then False
      else if addr_Is4 (ap_addr (e_Address e)) \<noteq> addr_Is4 (ap_addr (e_Address x)) then False
      else if ap_port (e_Address e) \<noteq> ap_port (e_Address x) then False
      else ap_addr (e_Address x) = ap_addr (e_Address e))"

section \<open>State (state.go, target.go)\<close>

datatype target_state = Inactive | Active | Warming | Draining | Closed

fun target_state_String :: "target_state \<Rightarrow> string" where
  "target_state_String Inactive = ''inactive''"
| "target_state_String Active = ''active''"
| "target_state_String Warming = ''warming''"
| "target_state_String Draining = ''draining''"
| "target_state_String Closed = ''closed''"

datatype target_error =
    TgtClosed
  | TgtHandler string
  | TgtEnable dp_error
  | TgtDisable dp_error
  | TgtDataplane dp_error
  | TgtJoined "target_error list"
  | TgtCtxNil | TgtDnatNil | TgtHandlerNil
  | TgtInvalidEndpoint Endpoint
  | TgtOverlaps Endpoint Endpoint

text \<open>
  Where the loop is: in the \<open>select\<close>, with a request it has received, inside the handler call for
  it, and the stages of \<open>endBlocking\<close>.
\<close>

datatype target_pc = TSelect | TGot target_state | TInHandler target_state
  | TEnding | TInHandlerClose | TCloseGroup "string option" | TSetError "target_error option" | TExited

type_synonym hid = nat

record target =
  t_name :: string
  t_kind :: string
  t_timeout :: ttl
  t_handler :: hid
  t_group :: gid
  t_requests :: "target_state list"
  t_endpoints :: "(string, Endpoint) gomap"
  t_done :: bool
  t_cancelling :: bool
  t_err :: "target_error option"
  t_state :: target_state
  t_pc :: target_pc

section \<open>Exported methods\<close>

fun check_endpoints :: "TargetEndpoint list \<Rightarrow> (string, Endpoint) gomap \<Rightarrow> target_error + (string, Endpoint) gomap"
where
  "check_endpoints [] eps = Inr eps"
| "check_endpoints (c # cs) eps =
     (let next = \<lparr>e_Name = ep_Name c, e_Address = ep_Address c, e_Protocol = ep_Protocol c\<rparr>
      in if \<not> endpoint_IsValid next then Inl (TgtInvalidEndpoint next)
         else check_endpoints cs (AList.update (e_Name next) next eps))"

text \<open>
  \<open>New\<close>: a \<open>nil\<close> argument is \<^const>\<open>None\<close>, the context is whether it is already done.
\<close>

definition target_New ::
    "bool option \<Rightarrow> gid option \<Rightarrow> hid option \<Rightarrow> TargetCfg \<Rightarrow> target_error + target" where
  "target_New ctx dnat handler cfg =
     (case ctx of None \<Rightarrow> Inl TgtCtxNil | Some parent_done \<Rightarrow>
      (case dnat of None \<Rightarrow> Inl TgtDnatNil | Some g \<Rightarrow>
       (case handler of None \<Rightarrow> Inl TgtHandlerNil | Some h \<Rightarrow>
        (case check_endpoints (tc_Endpoints cfg) [] of
           Inl e \<Rightarrow> Inl e
         | Inr eps \<Rightarrow>
             Inr \<lparr>t_name = tc_Name cfg, t_kind = ref_String (tc_Kind cfg), t_timeout = tc_IdleTimeout cfg,
                  t_handler = h, t_group = g, t_requests = [], t_endpoints = eps,
                  t_done = parent_done, t_cancelling = False, t_err = None, t_state = Inactive,
                  t_pc = TSelect\<rparr>))))"

text \<open>The accessors, which the engine and the control server read a target through.\<close>

definition target_Name :: "target \<Rightarrow> string" where
  "target_Name t = t_name t"

definition target_Timeout :: "target \<Rightarrow> ttl" where
  "target_Timeout t = t_timeout t"

definition target_Kind :: "target \<Rightarrow> string" where
  "target_Kind t = t_kind t"

definition target_Group :: "target \<Rightarrow> gid" where
  "target_Group t = t_group t"

definition target_State :: "target \<Rightarrow> target_state" where
  "target_State t = t_state t"

definition target_Error :: "target \<Rightarrow> target_error option" where
  "target_Error t = t_err t"

text \<open>\<open>Wait\<close> returns once the context is done and the loop has ended.\<close>

definition target_Wait_returns :: "target \<Rightarrow> bool" where
  "target_Wait_returns t \<longleftrightarrow> t_done t \<and> t_pc t = TExited"

lemmas target_accessors [simp] = target_Name_def target_Timeout_def target_Kind_def target_Group_def
  target_State_def target_Error_def target_Wait_returns_def

definition target_SetTimeout :: "ttl \<Rightarrow> target \<Rightarrow> target" where
  "target_SetTimeout timeout t = t\<lparr>t_timeout := timeout\<rparr>"

definition target_Endpoint :: "string \<Rightarrow> target \<Rightarrow> Endpoint option" where
  "target_Endpoint name t = map_of (t_endpoints t) name"

definition target_Endpoints :: "target \<Rightarrow> Endpoint list" where
  "target_Endpoints t = map snd (t_endpoints t)"

definition target_AddEndpoint :: "Endpoint \<Rightarrow> target \<Rightarrow> target_error option \<times> target" where
  "target_AddEndpoint e t =
     (if t_state t = Closed then (Some TgtClosed, t)
      else case find (endpoint_Overlaps e) (map snd (t_endpoints t)) of
        Some ep \<Rightarrow> (Some (TgtOverlaps e ep), t)
      | None \<Rightarrow> (None, t\<lparr>t_endpoints := AList.update (e_Name e) e (t_endpoints t)\<rparr>))"

definition target_RemoveEndpoint :: "string \<Rightarrow> target \<Rightarrow> target_error option \<times> target" where
  "target_RemoveEndpoint name t =
     (if t_state t = Closed then (Some TgtClosed, t)
      else if map_of (t_endpoints t) name = None then (None, t)
      else (None, t\<lparr>t_endpoints := AList.delete name (t_endpoints t)\<rparr>))"

text \<open>
  A send on the request channel, whose buffer holds one element: \<^const>\<open>None\<close> when the sender
  blocks, which it would do holding the lock.
\<close>

definition chan_send :: "'a \<Rightarrow> 'a list \<Rightarrow> 'a list option" where
  "chan_send x buf = (if length buf < 1 then Some (buf @ [x]) else None)"

definition target_request :: "target_state \<Rightarrow> target \<Rightarrow> (bool \<times> target) option" where
  "target_request s t =
     map_option (\<lambda>buf. (True, t\<lparr>t_err := None, t_state := s, t_requests := buf\<rparr>))
       (chan_send s (t_requests t))"

fun target_Warm :: "target \<Rightarrow> (bool \<times> target) option" where
  "target_Warm t =
     (case t_state t of
        Active \<Rightarrow> Some (True, t)
      | Warming \<Rightarrow> Some (True, t)
      | Draining \<Rightarrow> Some (False, t)
      | Closed \<Rightarrow> Some (False, t)
      | Inactive \<Rightarrow> target_request Warming t)"

fun target_Drain :: "target \<Rightarrow> (bool \<times> target) option" where
  "target_Drain t =
     (case t_state t of
        Inactive \<Rightarrow> Some (True, t)
      | Draining \<Rightarrow> Some (True, t)
      | Warming \<Rightarrow> Some (False, t)
      | Closed \<Rightarrow> Some (False, t)
      | Active \<Rightarrow> target_request Draining t)"

text \<open>\<open>Close\<close> cancels the context after it has released the lock; \<open>t_cancelling\<close> is the gap.\<close>

definition target_Close :: "target \<Rightarrow> target" where
  "target_Close t =
     (if t_state t = Closed then t else t\<lparr>t_state := Closed, t_cancelling := True\<rparr>)"

definition target_cancel :: "target \<Rightarrow> target" where
  "target_cancel t = t\<lparr>t_done := True, t_cancelling := False\<rparr>"

section \<open>The event loop\<close>

text \<open>A received request; anything but \<open>Warming\<close> and \<open>Draining\<close> is logged and dropped.\<close>

definition target_receive :: "target \<Rightarrow> target" where
  "target_receive t =
     (case t_requests t of
        [] \<Rightarrow> t
      | r # rs \<Rightarrow> t\<lparr>t_requests := rs, t_pc := (if r = Warming \<or> r = Draining then TGot r else TSelect)\<rparr>)"

text \<open>The first region of \<open>warmBlocking\<close> and \<open>drainBlocking\<close>, up to the handler call.\<close>

definition target_begin :: "target_state \<Rightarrow> target \<Rightarrow> target" where
  "target_begin r t =
     (if t_state t = Closed then t\<lparr>t_pc := TSelect\<rparr> else t\<lparr>t_pc := TInHandler r\<rparr>)"

text \<open>Their second region, with what the handler returned.\<close>

definition warm_finish :: "'d dataplane_ops \<Rightarrow> string option \<Rightarrow> target \<Rightarrow> 'd \<Rightarrow> target \<times> 'd" where
  "warm_finish P err t d =
     (let t0 = t\<lparr>t_pc := TSelect\<rparr>
      in if t_state t = Closed then (t0, d)
         else let t1 = t0\<lparr>t_err := map_option TgtHandler err\<rparr>
              in if t_err t1 \<noteq> None then (t1\<lparr>t_state := Inactive\<rparr>, d)
                 else (case g_Enable P (t_group t) d of
                         (Some e, d') \<Rightarrow> (t1\<lparr>t_state := Active, t_err := Some (TgtEnable e)\<rparr>, d')
                       | (None, d') \<Rightarrow> (t1\<lparr>t_state := Active\<rparr>, d')))"

definition drain_finish :: "'d dataplane_ops \<Rightarrow> string option \<Rightarrow> target \<Rightarrow> 'd \<Rightarrow> target \<times> 'd" where
  "drain_finish P err t d =
     (let t0 = t\<lparr>t_pc := TSelect\<rparr>
      in if t_state t = Closed then (t0, d)
         else let t1 = t0\<lparr>t_err := map_option TgtHandler err\<rparr>
              in if t_err t1 \<noteq> None then (t1\<lparr>t_state := Active\<rparr>, d)
                 else (case g_Disable P (t_group t) d of
                         (Some e, d') \<Rightarrow> (t1\<lparr>t_state := Inactive, t_err := Some (TgtDisable e)\<rparr>, d')
                       | (None, d') \<Rightarrow> (t1\<lparr>t_state := Inactive\<rparr>, d')))"

text \<open>\<open>endBlocking\<close>: close the state, the handler, the group, then publish the joined error.\<close>

definition end_begin :: "target \<Rightarrow> target" where
  "end_begin t = t\<lparr>t_state := Closed, t_pc := TInHandlerClose\<rparr>"

definition end_group :: "'d dataplane_ops \<Rightarrow> string option \<Rightarrow> target \<Rightarrow> 'd \<Rightarrow> target \<times> 'd" where
  "end_group P err t d =
     (let (gerr, d') = g_Close P (t_group t) d
      in (t\<lparr>t_pc := TSetError (map_option TgtJoined
            (errors_join [map_option TgtHandler err, map_option TgtDataplane gerr]))\<rparr>, d'))"

definition end_finish :: "target_error option \<Rightarrow> target \<Rightarrow> target" where
  "end_finish err t = t\<lparr>t_err := err, t_pc := TExited\<rparr>"

section \<open>Steps\<close>

datatype target_label = HWarm "string option" | HDrain "string option" | HClose "string option" | Tau

inductive target_loop :: "'d dataplane_ops \<Rightarrow> target \<times> 'd \<Rightarrow> target_label \<Rightarrow> target \<times> 'd \<Rightarrow> bool"
  for P where
  receive: "t_pc t = TSelect \<Longrightarrow> t_requests t \<noteq> [] \<Longrightarrow> target_loop P (t, d) Tau (target_receive t, d)"
| ctx_done: "t_pc t = TSelect \<Longrightarrow> t_done t \<Longrightarrow> target_loop P (t, d) Tau (t\<lparr>t_pc := TEnding\<rparr>, d)"
| enter: "t_pc t = TGot r \<Longrightarrow> target_loop P (t, d) Tau (target_begin r t, d)"
| warm: "t_pc t = TInHandler Warming \<Longrightarrow> target_loop P (t, d) (HWarm err) (warm_finish P err t d)"
| drain: "t_pc t = TInHandler Draining \<Longrightarrow> target_loop P (t, d) (HDrain err) (drain_finish P err t d)"
| ending: "t_pc t = TEnding \<Longrightarrow> target_loop P (t, d) Tau (end_begin t, d)"
| hclose: "t_pc t = TInHandlerClose \<Longrightarrow>
    target_loop P (t, d) (HClose err) (t\<lparr>t_pc := TCloseGroup err\<rparr>, d)"
| gclose: "t_pc t = TCloseGroup err \<Longrightarrow> target_loop P (t, d) Tau (end_group P err t d)"
| finish: "t_pc t = TSetError err \<Longrightarrow> target_loop P (t, d) Tau (end_finish err t, d)"

text \<open>
  The callers: the exported methods, the parent context, and every use of the dataplane by others,
  who never switch this target's group.
\<close>

definition foreign_call :: "gid \<Rightarrow> client_call \<Rightarrow> bool" where
  "foreign_call g c \<longleftrightarrow> c \<noteq> OnGroup g GEnable \<and> c \<noteq> OnGroup g GDisable"

inductive target_client :: "'d dataplane_ops \<Rightarrow> target \<times> 'd \<Rightarrow> target \<times> 'd \<Rightarrow> bool" for P where
  warm: "target_Warm t = Some (b, t') \<Longrightarrow> target_client P (t, d) (t', d)"
| drain: "target_Drain t = Some (b, t') \<Longrightarrow> target_client P (t, d) (t', d)"
| close: "target_client P (t, d) (target_Close t, d)"
| cancel: "t_cancelling t \<Longrightarrow> target_client P (t, d) (target_cancel t, d)"
| parent: "target_client P (t, d) (t\<lparr>t_done := True\<rparr>, d)"
| timeout: "target_client P (t, d) (target_SetTimeout ttl t, d)"
| add: "target_client P (t, d) (snd (target_AddEndpoint e t), d)"
| remove: "target_client P (t, d) (snd (target_RemoveEndpoint name t), d)"
| foreign: "foreign_call (t_group t) c \<Longrightarrow> target_client P (t, d) (t, client_exec P c d)"

inductive_cases target_loopE: "target_loop P s l s'"
inductive_cases target_clientE: "target_client P s s'"

text \<open>A run from a new target, with the handler calls it has made so far.\<close>

inductive target_run ::
    "'d dataplane_ops \<Rightarrow> target \<times> 'd \<Rightarrow> target_label list \<Rightarrow> target \<times> 'd \<Rightarrow> bool" for P s0 where
  start: "target_run P s0 [] s0"
| loop: "target_run P s0 tr s \<Longrightarrow> target_loop P s l s' \<Longrightarrow> target_run P s0 (tr @ [l]) s'"
| client: "target_run P s0 tr s \<Longrightarrow> target_client P s s' \<Longrightarrow> target_run P s0 tr s'"

end
