(* ===== verification/Target_Inv.thy ===== *)
theory Target_Inv
  imports Target Connft_Contract
begin

text \<open>
  The invariant of a target under every interleaving: a request is pending or being served exactly
  in the transitional states, so a sender never blocks; the handler sees a well-formed sequence of
  calls; and the DNAT switch of the group follows the state.
\<close>

section \<open>State, buffer and loop\<close>

definition closing_pc :: "target_pc \<Rightarrow> bool" where
  "closing_pc pc \<longleftrightarrow> (case pc of TInHandlerClose \<Rightarrow> True | TCloseGroup _ \<Rightarrow> True | TSetError _ \<Rightarrow> True
     | TExited \<Rightarrow> True | _ \<Rightarrow> False)"

definition being_served :: "target_state \<Rightarrow> target \<Rightarrow> bool" where
  "being_served r t \<longleftrightarrow> (case t_pc t of
        TSelect \<Rightarrow> t_requests t = [r] | TEnding \<Rightarrow> t_requests t = [r]
      | TGot s \<Rightarrow> s = r \<and> t_requests t = [] | TInHandler s \<Rightarrow> s = r \<and> t_requests t = []
      | _ \<Rightarrow> False)"

definition target_inv :: "target \<Rightarrow> bool" where
  "target_inv t \<longleftrightarrow> gomap_ok (t_endpoints t) \<and> (t_pc t = TEnding \<or> closing_pc (t_pc t) \<longrightarrow> t_done t) \<and>
     (case t_state t of
        Inactive \<Rightarrow> t_requests t = [] \<and> (t_pc t = TSelect \<or> t_pc t = TEnding)
      | Active \<Rightarrow> t_requests t = [] \<and> (t_pc t = TSelect \<or> t_pc t = TEnding)
      | Warming \<Rightarrow> being_served Warming t
      | Draining \<Rightarrow> being_served Draining t
      | Closed \<Rightarrow> (t_cancelling t \<or> t_done t) \<and>
          (closing_pc (t_pc t) \<and> length (t_requests t) \<le> 1 \<or> being_served Warming t \<or> being_served Draining t
           \<or> t_requests t = [] \<and> (t_pc t = TSelect \<or> t_pc t = TEnding)))"

lemmas target_inv_defs = target_inv_def being_served_def closing_pc_def

text \<open>No sender ever blocks.\<close>

lemma target_inv_sends:
  assumes "target_inv t"
  shows "target_Warm t \<noteq> None" and "target_Drain t \<noteq> None"
  using assms by (auto simp: target_inv_def target_request_def chan_send_def split: target_state.splits)

section \<open>The calls the handler sees\<close>

datatype handler_phase = HDown | HUp | HGone

fun handler_next :: "handler_phase \<Rightarrow> target_label \<Rightarrow> handler_phase option" where
  "handler_next p Tau = Some p"
| "handler_next HDown (HWarm None) = Some HUp"
| "handler_next HDown (HWarm (Some e)) = Some HDown"
| "handler_next HUp (HDrain None) = Some HDown"
| "handler_next HUp (HDrain (Some e)) = Some HUp"
| "handler_next HDown (HClose r) = Some HGone"
| "handler_next HUp (HClose r) = Some HGone"
| "handler_next _ _ = None"

fun handler_run :: "handler_phase \<Rightarrow> target_label list \<Rightarrow> handler_phase option" where
  "handler_run p [] = Some p"
| "handler_run p (l # ls) = (case handler_next p l of None \<Rightarrow> None | Some q \<Rightarrow> handler_run q ls)"

lemma handler_run_snoc:
  "handler_run p (ls @ [l]) = (case handler_run p ls of None \<Rightarrow> None | Some q \<Rightarrow> handler_next q l)"
  by (induction p ls rule: handler_run.induct) (auto split: option.split)

definition phase_ok :: "handler_phase \<Rightarrow> target \<Rightarrow> bool" where
  "phase_ok p t \<longleftrightarrow>
     (p = HGone \<longleftrightarrow> (case t_pc t of TCloseGroup _ \<Rightarrow> True | TSetError _ \<Rightarrow> True | TExited \<Rightarrow> True | _ \<Rightarrow> False))
     \<and> (t_state t = Inactive \<or> t_state t = Warming \<or> t_pc t = TInHandler Warming \<longrightarrow> p = HDown)
     \<and> (t_state t = Active \<or> t_state t = Draining \<or> t_pc t = TInHandler Draining \<longrightarrow> p = HUp)"

section \<open>Preservation\<close>

lemmas target_op_defs = target_receive_def target_begin_def warm_finish_def drain_finish_def end_begin_def
  end_group_def end_finish_def Let_def

lemma target_loop_inv:
  assumes "target_loop P (t, d) l (t', d')" and "target_inv t" and "phase_ok p t"
  shows "target_inv t' \<and> (\<exists>q. handler_next p l = Some q \<and> phase_ok q t') \<and> t_group t' = t_group t"
  using assms(1)
proof cases
  case receive
  with assms(2,3) show ?thesis
    by (cases "t_state t"; cases "t_requests t") (auto simp: target_inv_defs phase_ok_def target_receive_def)
next
  case ctx_done
  with assms(2,3) show ?thesis
    by (auto simp: target_inv_defs phase_ok_def split: target_state.splits)
next
  case (enter r)
  with assms(2,3) show ?thesis
    by (auto simp: target_inv_defs phase_ok_def target_begin_def split: target_state.splits)
next
  case (warm err)
  with assms(2,3) show ?thesis
    by (cases err) (auto simp: target_inv_defs phase_ok_def warm_finish_def Let_def
        split: target_state.splits prod.splits option.splits if_splits)
next
  case (drain err)
  with assms(2,3) show ?thesis
    by (cases err) (auto simp: target_inv_defs phase_ok_def drain_finish_def Let_def
        split: target_state.splits prod.splits option.splits if_splits)
next
  case ending
  with assms(2,3) show ?thesis
    by (cases p) (auto simp: target_inv_defs phase_ok_def end_begin_def split: target_state.splits)
next
  case (hclose err)
  with assms(2,3) show ?thesis
    by (cases p) (auto simp: target_inv_defs phase_ok_def split: target_state.splits)
next
  case (gclose err)
  with assms(2,3) show ?thesis
    by (cases p) (auto simp: target_inv_defs phase_ok_def end_group_def split: target_state.splits prod.splits)
next
  case (finish err)
  with assms(2,3) show ?thesis
    by (cases p) (auto simp: target_inv_defs phase_ok_def end_finish_def split: target_state.splits)
qed

lemma target_request_inv:
  assumes "target_inv t" and "phase_ok p t" and "target_request s t = Some (b, t')"
    and "s = Warming \<and> t_state t = Inactive \<or> s = Draining \<and> t_state t = Active"
  shows "target_inv t' \<and> phase_ok p t' \<and> t_group t' = t_group t"
  using assms by (cases "t_pc t") (auto simp: target_request_def chan_send_def target_inv_defs phase_ok_def
      split: if_splits)

text \<open>Updates that leave the state, the buffer and the loop alone.\<close>

lemma target_inv_frame:
  assumes "target_inv t" and "phase_ok p t"
    and "t_state t' = t_state t" "t_requests t' = t_requests t" "t_pc t' = t_pc t"
    and "t_done t \<Longrightarrow> t_done t'" "t_cancelling t \<or> t_done t \<Longrightarrow> t_cancelling t' \<or> t_done t'"
    and "gomap_ok (t_endpoints t) \<Longrightarrow> gomap_ok (t_endpoints t')"
  shows "target_inv t' \<and> phase_ok p t'"
proof -
  have served: "being_served r t' = being_served r t" for r
    by (simp only: being_served_def assms(4,5))
  have "phase_ok p t'" using assms(2) unfolding phase_ok_def assms(3,5) .
  with assms(1,6-8) show ?thesis
    unfolding target_inv_def served assms(3-5) by (cases "t_state t") auto
qed

lemma target_client_inv:
  assumes "target_client P (t, d) (t', d')" and "target_inv t" and "phase_ok p t"
  shows "target_inv t' \<and> phase_ok p t' \<and> t_group t' = t_group t"
  using assms(1)
proof cases
  case (warm b)
  with assms(2,3) target_request_inv [OF assms(2,3)] show ?thesis
    by (auto split: target_state.splits)
next
  case (drain b)
  with assms(2,3) target_request_inv [OF assms(2,3)] show ?thesis
    by (auto split: target_state.splits)
next
  case close
  with assms(2,3) show ?thesis
    by (cases "t_state t"; cases "t_pc t") (simp_all add: target_Close_def target_inv_defs phase_ok_def)
next
  case cancel
  show ?thesis
    using target_inv_frame [OF assms(2,3), of t'] unfolding cancel
    by (auto simp: target_cancel_def split: option.split)
next
  case parent
  show ?thesis
    using target_inv_frame [OF assms(2,3), of t'] unfolding parent
    by (auto simp:  split: option.split)
next
  case (timeout ttl)
  show ?thesis
    using target_inv_frame [OF assms(2,3), of t'] unfolding timeout
    by (auto simp: target_SetTimeout_def split: option.split)
next
  case (add e)
  show ?thesis
    using target_inv_frame [OF assms(2,3), of t'] unfolding add
    by (auto simp: target_AddEndpoint_def split: option.split)
next
  case (remove name)
  show ?thesis
    using target_inv_frame [OF assms(2,3), of t'] unfolding remove
    by (auto simp: target_RemoveEndpoint_def split: option.split)
next
  case (foreign c)
  with assms(2,3) show ?thesis by simp
qed

lemma check_endpoints_ok: "gomap_ok eps \<Longrightarrow> check_endpoints cs eps = Inr eps' \<Longrightarrow> gomap_ok eps'"
  by (induction cs eps rule: check_endpoints.induct) (auto simp: Let_def split: if_splits)

lemma target_New_inv:
  assumes "target_New ctx g h cfg = Inr t"
  shows "target_inv t" and "phase_ok HDown t" and "g = Some (t_group t)" and "t_err t = None"
    and "t_state t = Inactive" and "t_requests t = []" and "t_pc t = TSelect"
  using assms check_endpoints_ok [of "[]" "tc_Endpoints cfg"]
  by (auto simp: target_New_def target_inv_defs phase_ok_def split: option.splits sum.splits)

section \<open>The DNAT switch of the group\<close>

text \<open>
  Over any dataplane that keeps its contract: while the group is open, an active target without an
  error has its mappings installed and an inactive one without an error has not; a target whose
  loop has ended has closed its group.
\<close>

context dataplane_contract
begin

definition switch_ok :: "target \<Rightarrow> 'd \<Rightarrow> bool" where
  "switch_ok t d \<longleftrightarrow> inv d \<and> allocated d (t_group t)
     \<and> (usable d (t_group t) \<and> t_err t = None \<longrightarrow>
          (t_state t = Active \<longrightarrow> enabled d (t_group t)) \<and> (t_state t = Inactive \<longrightarrow> \<not> enabled d (t_group t)))
     \<and> ((\<exists>e. t_pc t = TSetError e) \<or> t_pc t = TExited \<longrightarrow> \<not> usable d (t_group t))"

lemma enable_call:
  assumes "inv d" and "g_Enable P g d = (r, d')"
  shows "inv d' \<and> usable d' = usable d \<and> allocated d' = allocated d \<and> (r = None \<longrightarrow> enabled d' g)"
  using assms call_inv [of d GEnable g r d'] call_frame [of d GEnable g r d'] call_done [of d GEnable g d']
  by auto

lemma disable_call:
  assumes "inv d" and "g_Disable P g d = (r, d')"
  shows "inv d' \<and> usable d' = usable d \<and> allocated d' = allocated d \<and> (r = None \<longrightarrow> \<not> enabled d' g)"
  using assms call_inv [of d GDisable g r d'] call_frame [of d GDisable g r d'] call_done [of d GDisable g d']
  by auto

lemma foreign_call_keeps:
  assumes i: "inv d" and a: "allocated d g" and f: "foreign_call g c"
  shows "inv (client_exec P c d) \<and> allocated (client_exec P c d) g
    \<and> (usable (client_exec P c d) g \<longrightarrow> usable d g \<and> enabled (client_exec P c d) g = enabled d g)"
proof -
  have keeps: "inv (client_exec P c d)" "allocated (client_exec P c d) g"
    "\<not> usable d g \<Longrightarrow> \<not> usable (client_exec P c d) g"
    using step_keeps [OF i] a by blast+
  have "enabled (client_exec P c d) g = enabled d g" if u: "usable (client_exec P c d) g"
  proof (cases c)
    case (OnGroup g' gc)
    obtain r d' where e: "g_exec P gc g' d = (r, d')" by (cases "g_exec P gc g' d")
    have "enabled d' g = enabled d g"
    proof (cases "g' = g")
      case False
      then show ?thesis using call_other [OF i e, of g] by simp
    next
      case True
      then have "gc \<noteq> GEnable" "gc \<noteq> GDisable" using f OnGroup by (auto simp: foreign_call_def)
      then have "spec_enabled gc b = b" for b by (cases gc) simp_all
      with call_done [OF i, of gc g d'] call_failed [OF i, of gc g _ d'] e True show ?thesis
        by (cases r) auto
    qed
    then show ?thesis by (simp add: OnGroup e)
  next
    case (CloseGroup g')
    obtain r d' where e: "g_Close P g' d = (r, d')" by (cases "g_Close P g' d")
    have "g' \<noteq> g" using u close_usable [OF i e, of g] by (auto simp: CloseGroup e)
    then show ?thesis using close_other [OF i e, of g] by (simp add: CloseGroup e)
  next
    case (OpenGroup name now)
    obtain res d' where e: "dp_NewGroup P name now d = (res, d')" by (cases "dp_NewGroup P name now d")
    show ?thesis
    proof (cases res)
      case (Inl err)
      with e i new_failed [of d name now err d'] show ?thesis by (simp add: OpenGroup)
    next
      case (Inr g')
      have "enabled d' g = enabled d g"
        using new_group [OF i e [unfolded Inr]] a by metis
      then show ?thesis by (simp add: OpenGroup e)
    qed
  next
    case CloseAll
    obtain r d' where e: "dp_Close P d = (r, d')" by (cases "dp_Close P d")
    show ?thesis using u dp_close [OF i e] by (simp add: CloseAll e)
  qed
  with keeps show ?thesis by blast
qed

lemma target_loop_switch:
  assumes "target_loop P (t, d) l (t', d')" and ok: "switch_ok t d"
  shows "switch_ok t' d'"
  using assms(1)
proof cases
  case receive
  with ok show ?thesis
    by (cases "t_requests t") (simp_all add: switch_ok_def target_receive_def)
next
  case ctx_done
  with ok show ?thesis by (simp add: switch_ok_def)
next
  case (enter r)
  with ok show ?thesis by (simp add: switch_ok_def target_begin_def)
next
  case (warm err)
  obtain r d1 where e: "g_Enable P (t_group t) d = (r, d1)" by (cases "g_Enable P (t_group t) d")
  with warm ok enable_call [OF _ e] show ?thesis
    by (cases err; cases r; cases "t_state t = Closed") (simp_all add: switch_ok_def warm_finish_def)
next
  case (drain err)
  obtain r d1 where e: "g_Disable P (t_group t) d = (r, d1)" by (cases "g_Disable P (t_group t) d")
  with drain ok disable_call [OF _ e] show ?thesis
    by (cases err; cases r; cases "t_state t = Closed") (simp_all add: switch_ok_def drain_finish_def)
next
  case ending
  with ok show ?thesis by (simp add: switch_ok_def end_begin_def)
next
  case (hclose err)
  with ok show ?thesis by (simp add: switch_ok_def)
next
  case (gclose err)
  obtain r d1 where e: "g_Close P (t_group t) d = (r, d1)" by (cases "g_Close P (t_group t) d")
  have i: "inv d" using ok by (simp add: switch_ok_def)
  with gclose ok close_inv [OF i e] close_usable [OF i e] show ?thesis
    by (simp add: switch_ok_def end_group_def e)
next
  case (finish err)
  with ok show ?thesis by (auto simp: switch_ok_def end_finish_def)
qed

lemma target_request_switch:
  "target_request s t = Some (b, t') \<Longrightarrow> s = Warming \<or> s = Draining \<Longrightarrow> switch_ok t d \<Longrightarrow> switch_ok t' d"
  by (auto simp: target_request_def switch_ok_def)

lemma target_client_switch:
  assumes "target_client P (t, d) (t', d')" and ok: "switch_ok t d"
  shows "switch_ok t' d'"
  using assms(1)
proof cases
  case (warm b)
  with ok target_request_switch [of Warming t b t' d] show ?thesis
    by (auto split: target_state.splits)
next
  case (drain b)
  with ok target_request_switch [of Draining t b t' d] show ?thesis
    by (auto split: target_state.splits)
next
  case (foreign c)
  have "inv d" "allocated d (t_group t)" using ok by (simp_all add: switch_ok_def)
  from foreign_call_keeps [OF this foreign(3)] foreign ok show ?thesis by (auto simp: switch_ok_def)
next
  case (add e)
  have "snd (target_AddEndpoint e t) = t \<or> (\<exists>m. snd (target_AddEndpoint e t) = t\<lparr>t_endpoints := m\<rparr>)"
    by (auto simp: target_AddEndpoint_def split: option.split)
  with add ok show ?thesis by (auto simp: switch_ok_def)
next
  case (remove name)
  have "snd (target_RemoveEndpoint name t) = t \<or> (\<exists>m. snd (target_RemoveEndpoint name t) = t\<lparr>t_endpoints := m\<rparr>)"
    by (auto simp: target_RemoveEndpoint_def)
  with remove ok show ?thesis by (auto simp: switch_ok_def)
qed (use ok in \<open>auto simp: switch_ok_def target_Close_def target_cancel_def target_SetTimeout_def\<close>)

lemma target_run_ok:
  assumes "target_run P (t0, d0) tr s"
    and "target_inv t0" and "phase_ok HDown t0" and "switch_ok t0 d0"
  shows "target_inv (fst s) \<and> switch_ok (fst s) (snd s) \<and> t_group (fst s) = t_group t0
    \<and> (\<exists>p. handler_run HDown tr = Some p \<and> phase_ok p (fst s))"
  using assms(1)
proof (induction rule: target_run.induct)
  case start
  with assms(2-4) show ?case by simp
next
  case (loop tr s l s')
  obtain t d t' d' where s: "s = (t, d)" "s' = (t', d')" by (cases s; cases s')
  from loop.IH obtain p where p: "handler_run HDown tr = Some p" "phase_ok p t" and i: "target_inv t"
    by (auto simp: s)
  show ?case
    using target_loop_inv [OF loop.hyps(2) [unfolded s] i p(2)]
      target_loop_switch [OF loop.hyps(2) [unfolded s]] loop.IH p
    by (auto simp: s handler_run_snoc)
next
  case (client tr s s')
  obtain t d t' d' where s: "s = (t, d)" "s' = (t', d')" by (cases s; cases s')
  from client.IH obtain p where p: "handler_run HDown tr = Some p" "phase_ok p t" and i: "target_inv t"
    by (auto simp: s)
  show ?case
    using target_client_inv [OF client.hyps(2) [unfolded s] i p(2)]
      target_client_switch [OF client.hyps(2) [unfolded s]] client.IH p
    by (auto simp: s)
qed

end

section \<open>The loop ends\<close>

text \<open>
  Once the state is \<open>Closed\<close> every step of the loop brings it closer to its end, and with the context
  done it always has a next step until it has ended.
\<close>

fun pc_rank :: "target_pc \<Rightarrow> nat" where
  "pc_rank TExited = 0"
| "pc_rank (TSetError _) = 1"
| "pc_rank (TCloseGroup _) = 2"
| "pc_rank TInHandlerClose = 3"
| "pc_rank TEnding = 4"
| "pc_rank TSelect = 5"
| "pc_rank (TInHandler _) = 6"
| "pc_rank (TGot _) = 7"

definition target_rank :: "target \<Rightarrow> nat" where
  "target_rank t = pc_rank (t_pc t) + 3 * length (t_requests t)"

lemma target_loop_rank:
  assumes "target_loop P (t, d) l (t', d')" and "t_state t = Closed"
  shows "target_rank t' < target_rank t \<and> t_state t' = Closed \<and> (t_done t \<longrightarrow> t_done t')"
  using assms(1)
proof cases
  case receive
  with assms(2) show ?thesis
    by (cases "t_requests t") (simp_all add: target_rank_def target_receive_def)
qed (use assms(2) in \<open>auto simp: target_rank_def target_op_defs split: prod.splits\<close>)

lemma target_loop_progress:
  assumes "target_inv t" and "t_done t" and "t_pc t \<noteq> TExited"
  shows "\<exists>l s'. target_loop P (t, d) l s'"
proof (cases "t_pc t")
  case (TInHandler r)
  then have "r = Warming \<or> r = Draining"
    using assms(1) by (cases "t_state t") (auto simp: target_inv_defs)
  with TInHandler show ?thesis by (metis target_loop.warm target_loop.drain)
qed (metis assms(2,3) target_loop.intros)+

lemma target_rank_bound: "target_inv t \<Longrightarrow> target_rank t \<le> 8"
  by (cases "t_state t"; cases "t_pc t") (auto simp: target_rank_def target_inv_defs)

end
