(* ===== verification/Target_Spec.thy ===== *)
theory Target_Spec
  imports Target_Inv Dataplane_Spec
begin

text \<open>The properties of a target over the connft dataplane, under every interleaving.\<close>

section \<open>Runs over connft\<close>

text \<open>A target built by \<open>New\<close> on a group the dataplane has just registered for it.\<close>

definition target_starts :: "'n nft_ops \<Rightarrow> TargetCfg \<Rightarrow> target \<Rightarrow> 'n connft \<Rightarrow> bool" where
  "target_starts K cfg t d \<longleftrightarrow> (\<exists>d0 name now pd h.
     dp_reach K d0 \<and> NewGroup name now d0 = (Inr (t_group t), d)
     \<and> target_New (Some pd) (Some (t_group t)) (Some h) cfg = Inr t)"

lemma target_starts_ok:
  assumes "target_starts K cfg t d"
  shows "target_inv t \<and> phase_ok HDown t \<and> cdp.switch_ok t d \<and> connft_inv d"
proof -
  from assms obtain d0 name now pd h where d0: "dp_reach K d0" "NewGroup name now d0 = (Inr (t_group t), d)"
    and t: "target_New (Some pd) (Some (t_group t)) (Some h) cfg = Inr t"
    by (auto simp: target_starts_def)
  note inv0 = dp_reach_inv [OF d0(1)]
  have "connft_inv d" using NewGroup_inv [OF inv0 d0(2)] .
  with NewGroup_view [OF inv0 d0(2)] target_New_inv [OF t] show ?thesis
    unfolding cdp.switch_ok_def by simp
qed

lemma target_starts_run:
  assumes "target_starts K cfg t0 d0" and "target_run (connft_dataplane K) (t0, d0) tr (t, d)"
  shows "target_inv t" "cdp.switch_ok t d" "\<exists>p. handler_run HDown tr = Some p \<and> phase_ok p t"
  using cdp.target_run_ok [OF assms(2)] target_starts_ok [OF assms(1)] by simp_all

definition demo_target_cfg :: TargetCfg where
  "demo_target_cfg = \<lparr>tc_Name = ''web'', tc_Kind = \<lparr>ref_Namespace = ''static'', ref_Name = ''none''\<rparr>,
     tc_IdleTimeout = 60, tc_Endpoints = [\<lparr>ep_Name = ''http'', ep_Protocol = ProtocolTCP,
       ep_Address = \<lparr>ap_addr = IP4 0x0A000002, ap_port = 8080\<rparr>\<rparr>], tc_Options = []\<rparr>"

definition demo_target :: target where
  "demo_target = \<lparr>t_name = ''web'', t_kind = ''static:none'', t_timeout = 60, t_handler = 0, t_group = 0,
     t_requests = [], t_endpoints = [(''http'', \<lparr>e_Name = ''http'',
       e_Address = \<lparr>ap_addr = IP4 0x0A000002, ap_port = 8080\<rparr>, e_Protocol = ProtocolTCP\<rparr>)],
     t_done = False, t_cancelling = False, t_err = None, t_state = Inactive, t_pc = TSelect\<rparr>"

definition demo_warm :: "target \<times> flow list connft" where
  "demo_warm = warm_finish (connft_dataplane accepting_nft) None
     (demo_target\<lparr>t_state := Warming, t_pc := TInHandler Warming\<rparr>) demo_group"

lemma demo_target_starts: "target_starts accepting_nft demo_target_cfg demo_target demo_group"
proof -
  have "fst (NewGroup ''web'' 0 demo_dplane) = Inr 0" by code_simp
  then have "NewGroup ''web'' 0 demo_dplane = (Inr 0, demo_group)"
    by (simp add: demo_group_def prod_eq_iff)
  moreover have "target_New (Some False) (Some 0) (Some 0) demo_target_cfg = Inr demo_target" by code_simp
  moreover have "t_group demo_target = 0" by (simp add: demo_target_def)
  ultimately show ?thesis
    unfolding target_starts_def using dp_reach.init [OF demo_dplane_New] by metis
qed

lemma demo_warm_run:
  "target_run (connft_dataplane accepting_nft) (demo_target, demo_group) [Tau, Tau, HWarm None] demo_warm"
proof -
  let ?P = "connft_dataplane accepting_nft"
  let ?t1 = "demo_target\<lparr>t_state := Warming, t_requests := [Warming]\<rparr>"
  let ?t2 = "demo_target\<lparr>t_state := Warming, t_pc := TGot Warming\<rparr>"
  let ?t3 = "demo_target\<lparr>t_state := Warming, t_pc := TInHandler Warming\<rparr>"
  have "target_Warm demo_target = Some (True, ?t1)"
    by (simp add: demo_target_def target_request_def chan_send_def)
  then have r1: "target_run ?P (demo_target, demo_group) [] (?t1, demo_group)"
    by (intro target_run.client [OF target_run.start] target_client.warm)
  have "target_loop ?P (?t1, demo_group) Tau (target_receive ?t1, demo_group)"
    by (rule target_loop.receive) (simp_all add: demo_target_def)
  moreover have "target_receive ?t1 = ?t2" by (simp add: target_receive_def demo_target_def)
  ultimately have r2: "target_run ?P (demo_target, demo_group) ([] @ [Tau]) (?t2, demo_group)"
    by (intro target_run.loop [OF r1]) simp
  have "target_loop ?P (?t2, demo_group) Tau (target_begin Warming ?t2, demo_group)"
    by (rule target_loop.enter) simp
  moreover have "target_begin Warming ?t2 = ?t3" by (simp add: target_begin_def)
  ultimately have r3: "target_run ?P (demo_target, demo_group) (([] @ [Tau]) @ [Tau]) (?t3, demo_group)"
    by (intro target_run.loop [OF r2]) simp
  have "target_loop ?P (?t3, demo_group) (HWarm None) demo_warm"
    unfolding demo_warm_def by (rule target_loop.warm) simp
  from target_run.loop [OF r3 this] show ?thesis by simp
qed

lemma demo_warm_values:
  "t_state (fst demo_warm) = Active" "t_err (fst demo_warm) = None" "t_group (fst demo_warm) = 0"
  "unusable (snd demo_warm) 0 = False" "t_requests (fst demo_warm) = []"
  by code_simp+

section \<open>Properties\<close>

text \<open>
  C10. Whatever callers, handler and nftables do: while the group of a target is open and the target
  reports no error, its mappings are installed when it is active and not installed when it is inactive.
\<close>

theorem target_switches_DNAT:
  assumes "target_starts K cfg t0 d0" and "target_run (connft_dataplane K) (t0, d0) tr (t, d)"
    and "\<not> unusable d (t_group t)" and "t_err t = None"
  shows "(t_state t = Active \<longrightarrow> group_IsEnabled (t_group t) d)
    \<and> (t_state t = Inactive \<longrightarrow> \<not> group_IsEnabled (t_group t) d)"
proof -
  have "cdp.switch_ok t d" using target_starts_run [OF assms(1,2)] by blast
  moreover have "live d (t_group t)" using assms(3) by (simp add: unusable_def live_def)
  ultimately show ?thesis
    using assms(3,4) by (simp add: cdp.switch_ok_def group_IsEnabled_def cg_isEnabled_def)
qed

theorem target_switches_DNAT_witness:
  "group_IsEnabled 0 (snd demo_warm)"
  using target_switches_DNAT [OF demo_target_starts, of "[Tau, Tau, HWarm None]" "fst demo_warm" "snd demo_warm"]
    demo_warm_run demo_warm_values by simp

text \<open>
  C18. \<open>Warm\<close> and \<open>Drain\<close> never block on the request channel while they hold the lock, and answer by
  the state alone: \<open>Warm\<close> is refused exactly when the target is draining or closed, \<open>Drain\<close> exactly
  when it is warming or closed.
\<close>

theorem target_requests_never_block:
  assumes "target_starts K cfg t0 d0" and "target_run (connft_dataplane K) (t0, d0) tr (t, d)"
  shows "(\<exists>t'. target_Warm t = Some (t_state t \<noteq> Draining \<and> t_state t \<noteq> Closed, t'))
    \<and> (\<exists>t'. target_Drain t = Some (t_state t \<noteq> Warming \<and> t_state t \<noteq> Closed, t'))"
proof -
  note some = target_inv_sends [OF target_starts_run(1) [OF assms]]
  then show ?thesis
    by (cases "t_state t") (auto simp: target_request_def)
qed

theorem target_requests_never_block_witness:
  "\<exists>t'. target_Drain (fst demo_warm) = Some (True, t')"
  using target_requests_never_block [OF demo_target_starts, of "[Tau, Tau, HWarm None]" "fst demo_warm" "snd demo_warm"]
    demo_warm_run demo_warm_values by (simp del: target_Drain.simps target_Warm.simps)

text \<open>
  C11. The handler sees a well-formed sequence of calls: \<open>Warm\<close> only while it is down, \<open>Drain\<close> only
  while it is up, and nothing after its one \<open>Close\<close>.
\<close>

theorem target_handler_protocol:
  assumes "target_starts K cfg t0 d0" and "target_run (connft_dataplane K) (t0, d0) tr (t, d)"
  shows "handler_run HDown tr \<noteq> None"
  using target_starts_run(3) [OF assms] by auto

theorem target_handler_protocol_witness: "handler_run HDown [Tau, Tau, HWarm None] \<noteq> None"
  using target_handler_protocol [OF demo_target_starts, of _ "fst demo_warm" "snd demo_warm"] demo_warm_run
  by simp

inductive loop_steps :: "'d dataplane_ops \<Rightarrow> nat \<Rightarrow> target \<times> 'd \<Rightarrow> target \<times> 'd \<Rightarrow> bool" for P where
  none: "loop_steps P 0 s s"
| more: "target_loop P s l s' \<Longrightarrow> loop_steps P n s' s'' \<Longrightarrow> loop_steps P (Suc n) s s''"

lemma loop_steps_rank:
  assumes "loop_steps P n s s'" and "t_state (fst s) = Closed"
  shows "target_rank (fst s') + n \<le> target_rank (fst s) \<and> t_state (fst s') = Closed
    \<and> (t_done (fst s) \<longrightarrow> t_done (fst s'))"
  using assms
proof (induction rule: loop_steps.induct)
  case (none s)
  then show ?case by simp
next
  case (more s l s' n s'')
  have "target_rank (fst s') < target_rank (fst s) \<and> t_state (fst s') = Closed
      \<and> (t_done (fst s) \<longrightarrow> t_done (fst s'))"
    using target_loop_rank [of P "fst s" "snd s" l "fst s'" "snd s'"] more.hyps(1) more.prems by simp
  with more.IH show ?case by auto
qed

lemma loop_steps_run:
  "loop_steps P n s s' \<Longrightarrow> target_run P s0 tr s \<Longrightarrow> \<exists>tr'. target_run P s0 tr' s'"
  by (induction arbitrary: tr rule: loop_steps.induct) (blast intro: target_run.loop)+



text \<open>
  What \<open>Overlaps\<close> of endpoints decides: the same name, or the same protocol, address and port.
  A wildcard address claims nothing but itself.
\<close>

theorem endpoint_Overlaps_iff:
  "endpoint_Overlaps e x \<longleftrightarrow> e_Name e = e_Name x \<or> e_Protocol e = e_Protocol x \<and> e_Address e = e_Address x"
  by (auto simp: endpoint_Overlaps_def intro: addr_port.equality)

text \<open>
  \<open>AddEndpoint\<close> and \<open>RemoveEndpoint\<close> keep the endpoints of a target free of overlaps, whatever
  endpoint they are given: distinct endpoints of the table never overlap.
\<close>

definition endpoints_disjoint :: "target \<Rightarrow> bool" where
  "endpoints_disjoint t \<longleftrightarrow> gomap_ok (t_endpoints t)
     \<and> (\<forall>n e. map_of (t_endpoints t) n = Some e \<longrightarrow> e_Name e = n)
     \<and> (\<forall>n m e x. map_of (t_endpoints t) n = Some e \<longrightarrow> map_of (t_endpoints t) m = Some x \<longrightarrow>
          endpoint_Overlaps e x \<longrightarrow> n = m)"

theorem endpoints_stay_disjoint:
  assumes "endpoints_disjoint t"
  shows "endpoints_disjoint (snd (target_AddEndpoint e t))
    \<and> endpoints_disjoint (snd (target_RemoveEndpoint name t))"
proof
  have sym: "endpoint_Overlaps a b = endpoint_Overlaps b a" for a b
    by (auto simp: endpoint_Overlaps_def)
  show "endpoints_disjoint (snd (target_AddEndpoint e t))"
  proof (cases "t_state t = Closed \<or> find (endpoint_Overlaps e) (map snd (t_endpoints t)) \<noteq> None")
    case True
    with assms show ?thesis by (auto simp: target_AddEndpoint_def)
  next
    case False
    then have "\<not> endpoint_Overlaps e x" if "map_of (t_endpoints t) n = Some x" for n x
      using map_of_SomeD [OF that] by (force simp: find_None_iff)
    with assms sym False show ?thesis
      by (auto simp: endpoints_disjoint_def target_AddEndpoint_def split: if_splits)
  qed
  show "endpoints_disjoint (snd (target_RemoveEndpoint name t))"
    using assms by (auto simp: endpoints_disjoint_def target_RemoveEndpoint_def split: if_splits)
qed

theorem endpoints_stay_disjoint_witness:
  "endpoints_disjoint (snd (target_RemoveEndpoint ''http'' demo_target))"
proof -
  have "endpoints_disjoint demo_target"
    by (simp add: endpoints_disjoint_def demo_target_def gomap_ok_def)
  from endpoints_stay_disjoint [OF this] show ?thesis by blast
qed

end
