(* ===== verification/Frontend.thy ===== *)
theory Frontend
  imports Target
begin

text \<open>
  \<open>pkg/frontend\<close>: a frontend, the mapping it keeps in the group of its target, and its event loop,
  in the same style as the target: one function per locked region, a program counter for the loop,
  labels for what the handler returns. The frontend points to a target; a step that warms it acts
  on the record of that target.
\<close>

section \<open>State (state.go, frontend.go)\<close>

datatype frontend_state = Stopped | Starting | Running | Stopping | FClosed

fun frontend_state_String :: "frontend_state \<Rightarrow> string" where
  "frontend_state_String Stopped = ''stopped''"
| "frontend_state_String Starting = ''starting''"
| "frontend_state_String Running = ''running''"
| "frontend_state_String Stopping = ''stopping''"
| "frontend_state_String FClosed = ''closed''"

datatype frontend_error =
    FeCtxNil | FeTargetNil | FeHandlerNil
  | FeBind dp_error
  | FeHandler string
  | FeDataplane dp_error
  | FeJoined "frontend_error list"

datatype frontend_pc = FSelect | FGot frontend_state | FInHandler frontend_state
  | FEnding | FInHandlerClose | FDelMapping "string option" | FSetError "frontend_error option" | FExited

type_synonym tid = nat

record frontend =
  f_name :: string
  f_kind :: string
  f_handler :: hid
  f_target :: tid
  f_endpoint :: Endpoint
  f_requests :: "frontend_state list"
  f_mapping :: dnat_mapping
  f_done :: bool
  f_cancelling :: bool
  f_err :: "frontend_error option"
  f_state :: frontend_state
  f_pc :: frontend_pc

section \<open>Exported methods\<close>

text \<open>\<open>New\<close>: the target is its identity and its record; the mapping is bound before anything else.\<close>

definition frontend_New ::
    "'d dataplane_ops \<Rightarrow> bool option \<Rightarrow> (tid \<times> target) option \<Rightarrow> Endpoint \<Rightarrow> hid option \<Rightarrow> FrontendCfg
      \<Rightarrow> 'd \<Rightarrow> (frontend_error + frontend) \<times> 'd" where
  "frontend_New P ctx tgt endpoint handler cfg d =
     (case ctx of None \<Rightarrow> (Inl FeCtxNil, d) | Some parent_done \<Rightarrow>
      (case tgt of None \<Rightarrow> (Inl FeTargetNil, d) | Some (ti, t) \<Rightarrow>
       (case handler of None \<Rightarrow> (Inl FeHandlerNil, d) | Some h \<Rightarrow>
        (let mapping = \<lparr>m_Source = fc_Listen cfg, m_Destination = e_Address endpoint,
                        m_Timeout = fc_FlowTimeout cfg, m_Protocol = fc_Protocol cfg\<rparr>
         in case g_AddMappings P (t_group t) [mapping] d of
              (Some e, d') \<Rightarrow> (Inl (FeBind e), d')
            | (None, d') \<Rightarrow>
                (Inr \<lparr>f_name = fc_Name cfg, f_kind = ref_String (fc_Kind cfg), f_handler = h,
                      f_target = ti, f_endpoint = endpoint, f_requests = [], f_mapping = mapping,
                      f_done = parent_done, f_cancelling = False, f_err = None, f_state = Stopped,
                      f_pc = FSelect\<rparr>, d')))))"

definition frontend_Name :: "frontend \<Rightarrow> string" where
  "frontend_Name f = f_name f"

definition frontend_Kind :: "frontend \<Rightarrow> string" where
  "frontend_Kind f = f_kind f"

definition frontend_Target :: "frontend \<Rightarrow> tid" where
  "frontend_Target f = f_target f"

definition frontend_Endpoint :: "frontend \<Rightarrow> Endpoint" where
  "frontend_Endpoint f = f_endpoint f"

definition frontend_State :: "frontend \<Rightarrow> frontend_state" where
  "frontend_State f = f_state f"

definition frontend_Error :: "frontend \<Rightarrow> frontend_error option" where
  "frontend_Error f = f_err f"

definition frontend_Wait_returns :: "frontend \<Rightarrow> bool" where
  "frontend_Wait_returns f \<longleftrightarrow> f_done f \<and> f_pc f = FExited"

lemmas frontend_accessors [simp] = frontend_Name_def frontend_Kind_def frontend_Target_def
  frontend_Endpoint_def frontend_State_def frontend_Error_def frontend_Wait_returns_def

definition frontend_Protocol :: "frontend \<Rightarrow> protocol" where
  "frontend_Protocol f = m_Protocol (f_mapping f)"

definition frontend_Listen :: "frontend \<Rightarrow> string" where
  "frontend_Listen f = ap_String (m_Source (f_mapping f))"

definition frontend_ProxyAddress :: "frontend \<Rightarrow> string" where
  "frontend_ProxyAddress f = ap_String (m_Destination (f_mapping f))"

definition frontend_request :: "frontend_state \<Rightarrow> frontend \<Rightarrow> (bool \<times> frontend) option" where
  "frontend_request s f =
     map_option (\<lambda>buf. (True, f\<lparr>f_err := None, f_state := s, f_requests := buf\<rparr>))
       (chan_send s (f_requests f))"

fun frontend_Start :: "frontend \<Rightarrow> (bool \<times> frontend) option" where
  "frontend_Start f =
     (case f_state f of
        Running \<Rightarrow> Some (True, f)
      | Starting \<Rightarrow> Some (True, f)
      | Stopping \<Rightarrow> Some (False, f)
      | FClosed \<Rightarrow> Some (False, f)
      | Stopped \<Rightarrow> frontend_request Starting f)"

fun frontend_Stop :: "frontend \<Rightarrow> (bool \<times> frontend) option" where
  "frontend_Stop f =
     (case f_state f of
        Stopped \<Rightarrow> Some (True, f)
      | Stopping \<Rightarrow> Some (True, f)
      | Starting \<Rightarrow> Some (False, f)
      | FClosed \<Rightarrow> Some (False, f)
      | Running \<Rightarrow> frontend_request Stopping f)"

definition frontend_Close :: "frontend \<Rightarrow> frontend" where
  "frontend_Close f =
     (if f_state f = FClosed then f else f\<lparr>f_state := FClosed, f_cancelling := True\<rparr>)"

definition frontend_cancel :: "frontend \<Rightarrow> frontend" where
  "frontend_cancel f = f\<lparr>f_done := True, f_cancelling := False\<rparr>"

section \<open>The event loop\<close>

definition frontend_receive :: "frontend \<Rightarrow> frontend" where
  "frontend_receive f =
     (case f_requests f of
        [] \<Rightarrow> f
      | r # rs \<Rightarrow> f\<lparr>f_requests := rs, f_pc := (if r = Starting \<or> r = Stopping then FGot r else FSelect)\<rparr>)"

definition frontend_begin :: "frontend_state \<Rightarrow> frontend \<Rightarrow> frontend" where
  "frontend_begin r f =
     (if f_state f = FClosed then f\<lparr>f_pc := FSelect\<rparr> else f\<lparr>f_pc := FInHandler r\<rparr>)"

text \<open>A failed start is recorded as \<open>Stopping\<close>, a failed stop as \<open>Starting\<close>.\<close>

definition start_finish :: "string option \<Rightarrow> frontend \<Rightarrow> frontend" where
  "start_finish err f =
     (let f0 = f\<lparr>f_pc := FSelect\<rparr>
      in if f_state f = FClosed then f0
         else let f1 = f0\<lparr>f_err := map_option FeHandler err\<rparr>
              in if f_err f1 \<noteq> None then f1\<lparr>f_state := Stopping\<rparr> else f1\<lparr>f_state := Running\<rparr>)"

definition stop_finish :: "string option \<Rightarrow> frontend \<Rightarrow> frontend" where
  "stop_finish err f =
     (let f0 = f\<lparr>f_pc := FSelect\<rparr>
      in if f_state f = FClosed then f0
         else let f1 = f0\<lparr>f_err := map_option FeHandler err\<rparr>
              in if f_err f1 \<noteq> None then f1\<lparr>f_state := Starting\<rparr> else f1\<lparr>f_state := Stopped\<rparr>)"

definition frontend_end_begin :: "frontend \<Rightarrow> frontend" where
  "frontend_end_begin f = f\<lparr>f_state := FClosed, f_pc := FInHandlerClose\<rparr>"

definition frontend_end_mapping ::
    "'d dataplane_ops \<Rightarrow> gid \<Rightarrow> string option \<Rightarrow> frontend \<Rightarrow> 'd \<Rightarrow> frontend \<times> 'd" where
  "frontend_end_mapping P g err f d =
     (let (derr, d') = g_DelMappings P g [f_mapping f] d
      in (f\<lparr>f_pc := FSetError (map_option FeJoined
            (errors_join [map_option FeHandler err, map_option FeDataplane derr]))\<rparr>, d'))"

definition frontend_end_finish :: "frontend_error option \<Rightarrow> frontend \<Rightarrow> frontend" where
  "frontend_end_finish err f = f\<lparr>f_err := err, f_pc := FExited\<rparr>"

section \<open>Steps\<close>

datatype frontend_label = FStart "string option" | FStop "string option" | FClose "string option" | FTau

text \<open>The state of a step is the frontend, the target it points to and the dataplane.\<close>

inductive frontend_loop ::
    "'d dataplane_ops \<Rightarrow> frontend \<times> target \<times> 'd \<Rightarrow> frontend_label \<Rightarrow> frontend \<times> target \<times> 'd \<Rightarrow> bool"
  for P where
  receive: "f_pc f = FSelect \<Longrightarrow> f_requests f \<noteq> [] \<Longrightarrow>
    frontend_loop P (f, t, d) FTau (frontend_receive f, t, d)"
| ctx_done: "f_pc f = FSelect \<Longrightarrow> f_done f \<Longrightarrow> frontend_loop P (f, t, d) FTau (f\<lparr>f_pc := FEnding\<rparr>, t, d)"
| should_warm: "f_pc f = FSelect \<Longrightarrow> target_Warm t = Some (b, t') \<Longrightarrow>
    frontend_loop P (f, t, d) FTau (f, t', d)"
| enter: "f_pc f = FGot r \<Longrightarrow> frontend_loop P (f, t, d) FTau (frontend_begin r f, t, d)"
| hstart: "f_pc f = FInHandler Starting \<Longrightarrow> frontend_loop P (f, t, d) (FStart err) (start_finish err f, t, d)"
| hstop: "f_pc f = FInHandler Stopping \<Longrightarrow> frontend_loop P (f, t, d) (FStop err) (stop_finish err f, t, d)"
| ending: "f_pc f = FEnding \<Longrightarrow> frontend_loop P (f, t, d) FTau (frontend_end_begin f, t, d)"
| hclose: "f_pc f = FInHandlerClose \<Longrightarrow>
    frontend_loop P (f, t, d) (FClose err) (f\<lparr>f_pc := FDelMapping err\<rparr>, t, d)"
| unbind: "f_pc f = FDelMapping err \<Longrightarrow> frontend_end_mapping P (t_group t) err f d = (f', d') \<Longrightarrow>
    frontend_loop P (f, t, d) FTau (f', t, d')"
| finish: "f_pc f = FSetError err \<Longrightarrow> frontend_loop P (f, t, d) FTau (frontend_end_finish err f, t, d)"

text \<open>The callers and the rest of the program, which may do anything to the target and the dataplane.\<close>

inductive frontend_client :: "frontend \<times> target \<times> 'd \<Rightarrow> frontend \<times> target \<times> 'd \<Rightarrow> bool" where
  start: "frontend_Start f = Some (b, f') \<Longrightarrow> frontend_client (f, t, d) (f', t, d)"
| stop: "frontend_Stop f = Some (b, f') \<Longrightarrow> frontend_client (f, t, d) (f', t, d)"
| close: "frontend_client (f, t, d) (frontend_Close f, t, d)"
| cancel: "f_cancelling f \<Longrightarrow> frontend_client (f, t, d) (frontend_cancel f, t, d)"
| parent: "frontend_client (f, t, d) (f\<lparr>f_done := True\<rparr>, t, d)"
| world: "frontend_client (f, t, d) (f, t', d')"

inductive frontend_run ::
    "'d dataplane_ops \<Rightarrow> frontend \<times> target \<times> 'd \<Rightarrow> frontend_label list \<Rightarrow> frontend \<times> target \<times> 'd \<Rightarrow> bool"
  for P s0 where
  start: "frontend_run P s0 [] s0"
| loop: "frontend_run P s0 tr s \<Longrightarrow> frontend_loop P s l s' \<Longrightarrow> frontend_run P s0 (tr @ [l]) s'"
| client: "frontend_run P s0 tr s \<Longrightarrow> frontend_client s s' \<Longrightarrow> frontend_run P s0 tr s'"

section \<open>The invariant\<close>

definition f_closing :: "frontend_pc \<Rightarrow> bool" where
  "f_closing pc \<longleftrightarrow> (case pc of FInHandlerClose \<Rightarrow> True | FDelMapping _ \<Rightarrow> True | FSetError _ \<Rightarrow> True
     | FExited \<Rightarrow> True | _ \<Rightarrow> False)"

definition f_served :: "frontend_state \<Rightarrow> frontend \<Rightarrow> bool" where
  "f_served r f \<longleftrightarrow> (case f_pc f of
        FSelect \<Rightarrow> f_requests f = [r] | FEnding \<Rightarrow> f_requests f = [r]
      | FGot s \<Rightarrow> s = r \<and> f_requests f = [] | FInHandler s \<Rightarrow> s = r \<and> f_requests f = []
      | _ \<Rightarrow> False)"

definition f_idle :: "frontend \<Rightarrow> bool" where
  "f_idle f \<longleftrightarrow> f_requests f = [] \<and> (f_pc f = FSelect \<or> f_pc f = FEnding)"

text \<open>
  The phase of the handler: down, up, failed (a call returned an error; only \<open>Close\<close> may follow) or
  gone.
\<close>

datatype fe_phase = FeDown | FeUp | FeFailed | FeGone

fun fe_next :: "fe_phase \<Rightarrow> frontend_label \<Rightarrow> fe_phase option" where
  "fe_next p FTau = Some p"
| "fe_next FeDown (FStart None) = Some FeUp"
| "fe_next FeDown (FStart (Some e)) = Some FeFailed"
| "fe_next FeUp (FStop None) = Some FeDown"
| "fe_next FeUp (FStop (Some e)) = Some FeFailed"
| "fe_next FeGone (FClose r) = None"
| "fe_next _ (FClose r) = Some FeGone"
| "fe_next _ _ = None"

fun fe_run :: "fe_phase \<Rightarrow> frontend_label list \<Rightarrow> fe_phase option" where
  "fe_run p [] = Some p"
| "fe_run p (l # ls) = (case fe_next p l of None \<Rightarrow> None | Some q \<Rightarrow> fe_run q ls)"

lemma fe_run_snoc:
  "fe_run p (ls @ [l]) = (case fe_run p ls of None \<Rightarrow> None | Some q \<Rightarrow> fe_next q l)"
  by (induction p ls rule: fe_run.induct) (auto split: option.split)

definition frontend_inv :: "fe_phase \<Rightarrow> frontend \<Rightarrow> bool" where
  "frontend_inv p f \<longleftrightarrow>
     (p = FeGone \<longleftrightarrow> f_closing (f_pc f) \<and> f_pc f \<noteq> FInHandlerClose)
     \<and> (f_pc f = FEnding \<or> f_closing (f_pc f) \<longrightarrow> f_done f)
     \<and> (f_pc f = FInHandler Starting \<longrightarrow> p = FeDown) \<and> (f_pc f = FInHandler Stopping \<longrightarrow> p = FeUp)
     \<and> (case f_state f of
          Stopped \<Rightarrow> p = FeDown \<and> f_idle f
        | Running \<Rightarrow> p = FeUp \<and> f_idle f
        | Starting \<Rightarrow> p = FeDown \<and> f_served Starting f \<or> p = FeFailed \<and> f_idle f
        | Stopping \<Rightarrow> p = FeUp \<and> f_served Stopping f \<or> p = FeFailed \<and> f_idle f
        | FClosed \<Rightarrow> (f_cancelling f \<or> f_done f) \<and>
            (f_closing (f_pc f) \<and> length (f_requests f) \<le> 1 \<or> f_served Starting f \<or> f_served Stopping f
             \<or> f_idle f))"

lemmas frontend_inv_defs = frontend_inv_def f_served_def f_closing_def f_idle_def

lemma frontend_inv_sends:
  assumes "frontend_inv p f"
  shows "frontend_Start f \<noteq> None" and "frontend_Stop f \<noteq> None"
  using assms by (cases "f_state f"; simp add: frontend_inv_def f_idle_def frontend_request_def chan_send_def)+

lemma frontend_loop_inv:
  assumes "frontend_loop P (f, t, d) l (f', t', d')" and "frontend_inv p f"
  shows "\<exists>q. fe_next p l = Some q \<and> frontend_inv q f'"
  using assms(1)
proof cases
  case receive
  with assms(2) show ?thesis
    by (cases "f_state f"; cases "f_requests f") (auto simp: frontend_inv_defs frontend_receive_def)
next
  case ctx_done
  with assms(2) show ?thesis
    by (cases "f_state f") (auto simp: frontend_inv_defs)
next
  case (should_warm b)
  with assms(2) show ?thesis by simp
next
  case (enter r)
  with assms(2) show ?thesis
    by (cases "f_state f") (auto simp: frontend_inv_defs frontend_begin_def)
next
  case (hstart err)
  with assms(2) show ?thesis
    by (cases err; cases "f_state f") (auto simp: frontend_inv_defs start_finish_def Let_def)
next
  case (hstop err)
  with assms(2) show ?thesis
    by (cases err; cases "f_state f") (auto simp: frontend_inv_defs stop_finish_def Let_def)
next
  case ending
  with assms(2) show ?thesis
    by (cases "f_state f") (auto simp: frontend_inv_defs frontend_end_begin_def)
next
  case (hclose err)
  with assms(2) show ?thesis
    by (cases p; cases "f_state f") (auto simp: frontend_inv_defs)
next
  case (unbind err)
  with assms(2) show ?thesis
    by (cases "f_state f") (auto simp: frontend_inv_defs frontend_end_mapping_def split: prod.splits)
next
  case (finish err)
  with assms(2) show ?thesis
    by (cases "f_state f") (auto simp: frontend_inv_defs frontend_end_finish_def)
qed

lemma frontend_request_inv:
  assumes "frontend_inv p f" and "frontend_request s f = Some (b, f')"
    and "s = Starting \<and> f_state f = Stopped \<or> s = Stopping \<and> f_state f = Running"
  shows "frontend_inv p f'"
  using assms by (cases "f_pc f") (auto simp: frontend_request_def chan_send_def frontend_inv_defs split: if_splits)

lemma frontend_inv_frame:
  assumes "frontend_inv p f"
    and "f_state f' = f_state f" "f_requests f' = f_requests f" "f_pc f' = f_pc f"
    and "f_done f \<Longrightarrow> f_done f'" "f_cancelling f \<or> f_done f \<Longrightarrow> f_cancelling f' \<or> f_done f'"
  shows "frontend_inv p f'"
proof -
  have served: "f_served r f' = f_served r f" for r
    by (simp only: f_served_def assms(3,4))
  have idle: "f_idle f' = f_idle f" by (simp only: f_idle_def assms(3,4))
  show ?thesis
    using assms(1,5,6) unfolding frontend_inv_def served idle assms(2-4) by (cases "f_state f") auto
qed

lemma frontend_client_inv:
  assumes "frontend_client (f, t, d) (f', t', d')" and "frontend_inv p f"
  shows "frontend_inv p f'"
  using assms(1)
proof cases
  case (start b)
  with assms(2) frontend_request_inv [OF assms(2)] show ?thesis by (auto split: frontend_state.splits)
next
  case (stop b)
  with assms(2) frontend_request_inv [OF assms(2)] show ?thesis by (auto split: frontend_state.splits)
next
  case close
  with assms(2) show ?thesis
    by (cases "f_state f"; cases "f_pc f") (auto simp: frontend_Close_def frontend_inv_defs)
next
  case cancel
  show ?thesis
    using frontend_inv_frame [OF assms(2), of f'] unfolding cancel by (auto simp: frontend_cancel_def)
next
  case parent
  show ?thesis using frontend_inv_frame [OF assms(2), of f'] unfolding parent by auto
next
  case world
  with assms(2) show ?thesis by simp
qed

lemma frontend_New_inv:
  assumes "frontend_New P ctx tgt ep h cfg d = (Inr f, d')"
  shows "frontend_inv FeDown f" and "f_state f = Stopped"
  using assms by (auto simp: frontend_New_def frontend_inv_defs Let_def split: option.splits prod.splits)

lemma frontend_run_inv:
  assumes "frontend_run P (f0, t0, d0) tr s" and "frontend_inv FeDown f0"
  shows "\<exists>p. fe_run FeDown tr = Some p \<and> frontend_inv p (fst s)"
  using assms(1)
proof (induction rule: frontend_run.induct)
  case start
  with assms(2) show ?case by simp
next
  case (loop tr s l s')
  obtain f t d f' t' d' where s: "s = (f, t, d)" "s' = (f', t', d')" by (cases s; cases s')
  with loop.IH frontend_loop_inv [OF loop.hyps(2) [unfolded s]] show ?case
    by (fastforce simp: fe_run_snoc)
next
  case (client tr s s')
  obtain f t d f' t' d' where s: "s = (f, t, d)" "s' = (f', t', d')" by (cases s; cases s')
  with client.IH frontend_client_inv [OF client.hyps(2) [unfolded s]] show ?case
    by fastforce
qed

end
