(* ===== verification/Frontend_Spec.thy ===== *)
theory Frontend_Spec
  imports Frontend Target_Spec
begin

text \<open>The properties of a frontend, under every interleaving with its callers and the rest of the program.\<close>

section \<open>Values for the witnesses\<close>

definition demo_frontend_cfg :: FrontendCfg where
  "demo_frontend_cfg = \<lparr>fc_Name = ''fe'', fc_Kind = \<lparr>ref_Namespace = ''static'', ref_Name = ''always''\<rparr>,
     fc_Protocol = ProtocolTCP, fc_Listen = \<lparr>ap_addr = IP4 0x0A000001, ap_port = 80\<rparr>, fc_FlowTimeout = 0,
     fc_Endpoint = \<lparr>ref_Namespace = ''web'', ref_Name = ''http''\<rparr>, fc_Options = []\<rparr>"

definition demo_endpoint :: Endpoint where
  "demo_endpoint = \<lparr>e_Name = ''http'', e_Address = \<lparr>ap_addr = IP4 0x0A000002, ap_port = 8080\<rparr>,
     e_Protocol = ProtocolTCP\<rparr>"

definition demo_frontend :: frontend where
  "demo_frontend = \<lparr>f_name = ''fe'', f_kind = ''static:always'', f_handler = 1, f_target = 0,
     f_endpoint = demo_endpoint, f_requests = [], f_mapping = demo_mapping, f_done = False,
     f_cancelling = False, f_err = None, f_state = Stopped, f_pc = FSelect\<rparr>"

lemma demo_frontend_New:
  "frontend_New (connft_dataplane accepting_nft) (Some False) (Some (0, demo_target)) demo_endpoint (Some 1)
     demo_frontend_cfg demo_group = (Inr demo_frontend, demo_added)"
proof -
  have "\<lparr>m_Source = fc_Listen demo_frontend_cfg, m_Destination = e_Address demo_endpoint,
      m_Timeout = fc_FlowTimeout demo_frontend_cfg, m_Protocol = fc_Protocol demo_frontend_cfg\<rparr> = demo_mapping"
    by (simp add: demo_frontend_cfg_def demo_endpoint_def demo_mapping_def)
  moreover have "t_group demo_target = 0" by (simp add: demo_target_def)
  ultimately show ?thesis
    using demo_add by (simp add: frontend_New_def connft_dataplane_def demo_frontend_def demo_frontend_cfg_def
        ref_String_def)
qed

text \<open>A frontend whose handler fails to start.\<close>

definition demo_failed :: frontend where
  "demo_failed = start_finish (Some ''address in use'')
     (demo_frontend\<lparr>f_state := Starting, f_pc := FInHandler Starting\<rparr>)"

lemma demo_failed_run:
  "frontend_run (connft_dataplane accepting_nft) (demo_frontend, demo_target, demo_added)
     [FTau, FTau, FStart (Some ''address in use'')] (demo_failed, demo_target, demo_added)"
proof -
  let ?P = "connft_dataplane accepting_nft"
  let ?s0 = "(demo_frontend, demo_target, demo_added)"
  let ?f1 = "demo_frontend\<lparr>f_state := Starting, f_requests := [Starting]\<rparr>"
  let ?f2 = "demo_frontend\<lparr>f_state := Starting, f_pc := FGot Starting\<rparr>"
  let ?f3 = "demo_frontend\<lparr>f_state := Starting, f_pc := FInHandler Starting\<rparr>"
  have "frontend_Start demo_frontend = Some (True, ?f1)"
    by (simp add: demo_frontend_def frontend_request_def chan_send_def)
  then have r1: "frontend_run ?P ?s0 [] (?f1, demo_target, demo_added)"
    by (intro frontend_run.client [OF frontend_run.start] frontend_client.start)
  have "frontend_receive ?f1 = ?f2" by (simp add: frontend_receive_def demo_frontend_def)
  moreover have "frontend_loop ?P (?f1, demo_target, demo_added) FTau
      (frontend_receive ?f1, demo_target, demo_added)"
    by (rule frontend_loop.receive) (simp_all add: demo_frontend_def)
  ultimately have r2: "frontend_run ?P ?s0 ([] @ [FTau]) (?f2, demo_target, demo_added)"
    by (intro frontend_run.loop [OF r1]) simp
  have "frontend_begin Starting ?f2 = ?f3" by (simp add: frontend_begin_def)
  moreover have "frontend_loop ?P (?f2, demo_target, demo_added) FTau
      (frontend_begin Starting ?f2, demo_target, demo_added)"
    by (rule frontend_loop.enter) simp
  ultimately have r3: "frontend_run ?P ?s0 (([] @ [FTau]) @ [FTau]) (?f3, demo_target, demo_added)"
    by (intro frontend_run.loop [OF r2]) simp
  have "frontend_loop ?P (?f3, demo_target, demo_added) (FStart (Some ''address in use''))
      (demo_failed, demo_target, demo_added)"
    unfolding demo_failed_def by (rule frontend_loop.hstart) simp
  from frontend_run.loop [OF r3 this] show ?thesis by simp
qed

lemma demo_failed_values: "f_state demo_failed = Stopping" "f_requests demo_failed = []"
  by code_simp+

section \<open>Properties\<close>

text \<open>
  \<open>New\<close> binds the mapping of the frontend or leaves the dataplane as it was: on success the
  group of the target holds exactly one mapping more, from the listen address to the endpoint; on
  failure every group holds what it held.
\<close>

theorem frontend_New_binds:
  assumes "dp_reach K d" and "frontend_New (connft_dataplane K) ctx tgt ep h cfg d = (r, d')"
  shows "case r of
      Inl e \<Rightarrow> group_Mappings g d' = group_Mappings g d
    | Inr f \<Rightarrow> \<exists>t. tgt = Some (f_target f, t)
        \<and> f_mapping f = \<lparr>m_Source = fc_Listen cfg, m_Destination = e_Address ep,
                         m_Timeout = fc_FlowTimeout cfg, m_Protocol = fc_Protocol cfg\<rparr>
        \<and> map_of (cg_bySrc (d_heap d' g)) = (if g = t_group t
             then (map_of (cg_bySrc (d_heap d g)))(src_key (f_mapping f) \<mapsto> f_mapping f)
             else map_of (cg_bySrc (d_heap d g)))"
proof (cases "ctx = None \<or> tgt = None \<or> h = None")
  case True
  with assms(2) show ?thesis by (auto simp: frontend_New_def split: option.splits)
next
  case False
  then obtain pd ti t hi where some: "ctx = Some pd" "tgt = Some (ti, t)" "h = Some hi"
    by (cases ctx; cases tgt; cases h) auto
  let ?m = "\<lparr>m_Source = fc_Listen cfg, m_Destination = e_Address ep,
     m_Timeout = fc_FlowTimeout cfg, m_Protocol = fc_Protocol cfg\<rparr>"
  obtain e d1 where add: "group_AddMappings K (t_group t) [?m] d = (e, d1)"
    by (cases "group_AddMappings K (t_group t) [?m] d")
  have call: "g_exec (connft_dataplane K) (GAdd [?m]) (t_group t) d = (e, d1)"
    using add by (simp add: connft_dataplane_def)
  have d': "d' = d1" using assms(2) add
    by (auto simp: frontend_New_def some connft_dataplane_def Let_def split: option.splits)
  have inv: "connft_inv d" using assms(1) by (rule dp_reach_inv)
  show ?thesis
  proof (cases e)
    case (Some err)
    have "tables d1 = tables d" using connft_exec(1) [OF inv call] Some by simp
    note eq = tables_eq_group [OF this] tables_eqD(3) [OF this]
    have "r = Inl (FeBind err)" using assms(2) add Some
      by (simp add: frontend_New_def some connft_dataplane_def)
    then show ?thesis
      by (simp add: d' group_Mappings_def group_mappings_def unusable_def eq)
  next
    case None
    note call' = call [unfolded None]
    have "cg_table d1 (t_group t) = (cg_table d (t_group t))(src_key ?m \<mapsto> ?m)"
      using connft_call_done [OF inv call'] by auto
    moreover have "g \<noteq> t_group t \<Longrightarrow> cg_table d1 g = cg_table d g"
      using connft_call_frame(2) [OF inv call'] by simp
    moreover obtain f where "r = Inr f" "f_target f = ti" "f_mapping f = ?m"
      using assms(2) add None by (auto simp: frontend_New_def some connft_dataplane_def)
    ultimately show ?thesis by (auto simp: some d' cg_table_def)
  qed
qed

theorem frontend_New_binds_witness:
  "f_mapping demo_frontend = demo_mapping
    \<and> map_of (cg_bySrc (d_heap demo_added 0)) = (map_of (cg_bySrc (d_heap demo_group 0)))
        (src_key (f_mapping demo_frontend) \<mapsto> f_mapping demo_frontend)"
  using frontend_New_binds [OF demo_group_reach demo_frontend_New, of 0]
  by (simp add: demo_frontend_def demo_target_def)

text \<open>
  C20. Binding and unbinding cancel out: when \<open>New\<close> and the removal of the mapping at the end of the
  loop both succeed, every source of every group is mapped as before.
\<close>

theorem frontend_unbind_restores:
  assumes "dp_reach K d" and "frontend_New (connft_dataplane K) ctx (Some (ti, t)) ep h cfg d = (Inr f, d1)"
    and "frontend_end_mapping (connft_dataplane K) (t_group t) None f d1 = (f', d2)"
    and "f_pc f' = FSetError None"
  shows "map_of (cg_bySrc (d_heap d2 g)) = map_of (cg_bySrc (d_heap d g))"
proof -
  have inv: "connft_inv d" using assms(1) by (rule dp_reach_inv)
  have add: "g_exec (connft_dataplane K) (GAdd [f_mapping f]) (t_group t) d = (None, d1)"
    using assms(2) by (auto simp: frontend_New_def Let_def split: option.splits prod.splits)
  have "g_exec (connft_dataplane K) (GDel [f_mapping f]) (t_group t) d1 = (None, d2)"
    using assms(3,4)
    by (auto simp: frontend_end_mapping_def split: prod.splits)
  from cdp.add_then_del [OF inv add this, of g] show ?thesis by (simp add: cg_table_def)
qed

theorem frontend_unbind_restores_witness:
  "map_of (cg_bySrc (d_heap (snd (group_DelMappings accepting_nft 0 [demo_mapping] demo_added)) 0))
     = map_of (cg_bySrc (d_heap demo_group 0))"
proof -
  have "fst (group_DelMappings accepting_nft 0 [demo_mapping] demo_added) = None" by code_simp
  then obtain d2 where e: "group_DelMappings accepting_nft 0 [demo_mapping] demo_added = (None, d2)"
    by (cases "group_DelMappings accepting_nft 0 [demo_mapping] demo_added") simp
  then have "frontend_end_mapping (connft_dataplane accepting_nft) (t_group demo_target) None demo_frontend demo_added
      = (demo_frontend\<lparr>f_pc := FSetError None\<rparr>, d2)"
    by (simp add: frontend_end_mapping_def connft_dataplane_def demo_frontend_def demo_target_def
        errors_join_def)
  from frontend_unbind_restores [OF demo_group_reach demo_frontend_New this] show ?thesis by (simp add: e)
qed

text \<open>
  C19. \<open>Start\<close> and \<open>Stop\<close> never block on the request channel, and the handler sees \<open>Start\<close> only
  while it is down, \<open>Stop\<close> only while it is up, nothing but \<open>Close\<close> after a call that failed, and
  nothing after its one \<open>Close\<close>.
\<close>

theorem frontend_handler_protocol:
  assumes "frontend_New P ctx tgt ep h cfg d = (Inr f0, d0)"
    and "frontend_run P (f0, t0, d0) tr (f, t, d')"
  shows "fe_run FeDown tr \<noteq> None \<and> frontend_Start f \<noteq> None \<and> frontend_Stop f \<noteq> None"
  using frontend_run_inv [OF assms(2) frontend_New_inv(1) [OF assms(1)]] frontend_inv_sends [of _ f]
  by auto

theorem frontend_handler_protocol_witness:
  "fe_run FeDown [FTau, FTau, FStart (Some ''address in use'')] \<noteq> None"
  using frontend_handler_protocol [OF demo_frontend_New demo_failed_run] by simp

lemma fe_failed_stays:
  assumes "fe_run p tr = Some q" and "p \<in> {FeFailed, FeGone} \<or> FStart (Some e) \<in> set tr \<or> FStop (Some e) \<in> set tr"
  shows "q \<in> {FeFailed, FeGone}"
  using assms
proof (induction tr arbitrary: p)
  case Nil
  then show ?case by simp
next
  case (Cons l ls)
  then obtain p' where p': "fe_next p l = Some p'" "fe_run p' ls = Some q" by (auto split: option.splits)
  moreover have "p' \<in> {FeFailed, FeGone}" if "p \<in> {FeFailed, FeGone} \<or> l = FStart (Some e) \<or> l = FStop (Some e)"
    using p'(1) that by (cases p; cases l) auto
  ultimately show ?case using Cons by auto
qed

text \<open>
  A handler error wedges a frontend: once \<open>Start\<close> or \<open>Stop\<close> of the handler has failed, no later
  call of \<open>Start\<close> or \<open>Stop\<close> has any effect and no request is pending, in every continuation; the
  frontend is stopping, starting or closed for ever.
\<close>

theorem frontend_error_wedges:
  assumes "frontend_New P ctx tgt ep h cfg d = (Inr f0, d0)"
    and "frontend_run P (f0, t0, d0) tr (f, t, d')"
    and "FStart (Some e) \<in> set tr \<or> FStop (Some e) \<in> set tr"
  shows "(\<exists>b. frontend_Start f = Some (b, f)) \<and> (\<exists>b. frontend_Stop f = Some (b, f))
    \<and> f_state f \<in> {Starting, Stopping, FClosed} \<and> (f_state f \<noteq> FClosed \<longrightarrow> f_requests f = [])"
proof -
  obtain p where p: "fe_run FeDown tr = Some p" "frontend_inv p f"
    using frontend_run_inv [OF assms(2) frontend_New_inv(1) [OF assms(1)]] by auto
  then have "p \<in> {FeFailed, FeGone}" using fe_failed_stays [OF p(1)] assms(3) by blast
  with p(2) show ?thesis
    by (cases "f_state f") (auto simp: frontend_inv_def f_idle_def f_served_def f_closing_def
        split: frontend_pc.splits)
qed

theorem frontend_error_wedges_witness:
  "frontend_Start demo_failed = Some (False, demo_failed) \<and> f_state demo_failed = Stopping
    \<and> f_requests demo_failed = []"
  using frontend_error_wedges [OF demo_frontend_New demo_failed_run, of "''address in use''"] demo_failed_values
  by simp

end
