(* ===== verification/Engine.thy ===== *)
theory Engine
  imports Frontend
begin

text \<open>
  \<open>pkg/engine\<close>: the engine and everything it owns. The world holds the engine's tables, the
  dataplane and two stores, because callers keep pointers to targets and frontends that the engine
  has forgotten. Every exported method runs under the lock of the engine and is one function.
  Handlers and their constructors are code of plugins: a constructor is a value that may be \<open>nil\<close>,
  what a call of it or of a handler returns is an argument, and the calls the engine itself makes of
  \<open>Close\<close> on a handler are recorded. Times are nanoseconds.
\<close>

section \<open>State\<close>

type_synonym fid = nat
type_synonym ctor = "nat option"

datatype engine_error =
    EngClosed
  | EngFrontendKindAlreadyRegistered | EngFrontendKindNotRegistered
  | EngTargetKindAlreadyRegistered | EngTargetKindNotRegistered
  | EngTargetAlreadyRegistered | EngTargetNotRegistered | EngTargetInUse
  | EngFrontendAlreadyRegistered | EngFrontendInUse
  | EngHandlerCtor namespace_ref string
  | EngFlowGroup dp_error
  | EngNoEndpoint string string
  | EngTargetNew target_error | EngFrontendNew frontend_error
  | EngHandlerClose string | EngGroupClose dp_error
  | EngJoined "engine_error list"

text \<open>
  The loop of the engine: in its \<open>select\<close>, holding the stale groups it has just polled with the time
  of the tick, about to run the deferred \<open>Close\<close>, or ended.
\<close>

datatype engine_pc = EngSelect | EngPolled "gid list" int | EngEnding | EngExited

record 'd world =
  w_dplane :: 'd
  w_frontends :: "(string, fid) gomap"
  w_frontendCtors :: "(string, ctor) gomap"
  w_targets :: "(string, tid) gomap"
  w_targetCtors :: "(string, ctor) gomap"
  w_lastSeen :: "(string, int) gomap"
  w_closed :: bool
  w_done :: bool
  w_pc :: engine_pc
  w_tgt :: "tid \<Rightarrow> target"
  w_ntgt :: tid
  w_fe :: "fid \<Rightarrow> frontend"
  w_nfe :: fid
  w_handlerCloses :: "hid list"

definition upd_tgt :: "tid \<Rightarrow> target \<Rightarrow> 'd world \<Rightarrow> 'd world" where
  "upd_tgt i t w = w\<lparr>w_tgt := (w_tgt w)(i := t)\<rparr>"

definition upd_fe :: "fid \<Rightarrow> frontend \<Rightarrow> 'd world \<Rightarrow> 'd world" where
  "upd_fe i f w = w\<lparr>w_fe := (w_fe w)(i := f)\<rparr>"

text \<open>
  \<open>New\<close>: the tables are empty and the loop runs; \<open>tgt0\<close> and \<open>fe0\<close> stand for the unused part of the
  two stores.
\<close>

definition engine_New :: "bool \<Rightarrow> target \<Rightarrow> frontend \<Rightarrow> 'd \<Rightarrow> 'd world" where
  "engine_New parent_done tgt0 fe0 d =
     \<lparr>w_dplane = d, w_frontends = [], w_frontendCtors = [], w_targets = [], w_targetCtors = [],
      w_lastSeen = [], w_closed = False, w_done = parent_done, w_pc = EngSelect,
      w_tgt = (\<lambda>_. tgt0), w_ntgt = 0, w_fe = (\<lambda>_. fe0), w_nfe = 0, w_handlerCloses = []\<rparr>"

text \<open>Cancelling the engine's context makes the contexts of all targets and frontends done.\<close>

definition world_cancel :: "'d world \<Rightarrow> 'd world" where
  "world_cancel w = w\<lparr>w_done := True, w_tgt := (\<lambda>i. (w_tgt w i)\<lparr>t_done := True\<rparr>),
                      w_fe := (\<lambda>i. (w_fe w i)\<lparr>f_done := True\<rparr>)\<rparr>"

definition engine_Close :: "'d world \<Rightarrow> 'd world" where
  "engine_Close w = (if w_closed w then w else world_cancel (w\<lparr>w_closed := True\<rparr>))"

text \<open>
  \<open>Wait\<close> returns when the goroutines that join the targets and frontends have all ended; one of them
  ends when the \<open>Wait\<close> of its target or frontend returns.
\<close>

definition joinTarget_ends :: "tid \<Rightarrow> 'd world \<Rightarrow> bool" where
  "joinTarget_ends i w \<longleftrightarrow> target_Wait_returns (w_tgt w i)"

definition joinFrontend_ends :: "fid \<Rightarrow> 'd world \<Rightarrow> bool" where
  "joinFrontend_ends i w \<longleftrightarrow> frontend_Wait_returns (w_fe w i)"

definition engine_Closed :: "'d world \<Rightarrow> bool" where
  "engine_Closed w \<longleftrightarrow> w_closed w"

lemmas engine_accessors [simp] = joinTarget_ends_def joinFrontend_ends_def engine_Closed_def

definition engine_Wait_returns :: "'d world \<Rightarrow> bool" where
  "engine_Wait_returns w \<longleftrightarrow>
     list_all (\<lambda>i. joinTarget_ends i w) [0..<w_ntgt w] \<and> list_all (\<lambda>i. joinFrontend_ends i w) [0..<w_nfe w]"

section \<open>Kinds\<close>

definition engine_AddFrontendKind :: "string \<Rightarrow> ctor \<Rightarrow> 'd world \<Rightarrow> engine_error option \<times> 'd world" where
  "engine_AddFrontendKind name kind w =
     (if w_closed w then (Some EngClosed, w)
      else if map_of (w_frontendCtors w) name \<noteq> None then (Some EngFrontendKindAlreadyRegistered, w)
      else (None, w\<lparr>w_frontendCtors := AList.update name kind (w_frontendCtors w)\<rparr>))"

text \<open>A missing entry reads as \<open>nil\<close>, as an entry registered with \<open>nil\<close> does.\<close>

definition engine_FrontendKind :: "string \<Rightarrow> 'd world \<Rightarrow> ctor" where
  "engine_FrontendKind name w = (case map_of (w_frontendCtors w) name of None \<Rightarrow> None | Some c \<Rightarrow> c)"

definition engine_FrontendKinds :: "'d world \<Rightarrow> ctor list" where
  "engine_FrontendKinds w = map snd (w_frontendCtors w)"

definition engine_DelFrontendKind :: "string \<Rightarrow> 'd world \<Rightarrow> engine_error option \<times> 'd world" where
  "engine_DelFrontendKind name w =
     (if w_closed w then (Some EngClosed, w)
      else if map_of (w_frontendCtors w) name = None then (Some EngFrontendKindNotRegistered, w)
      else (None, w\<lparr>w_frontendCtors := AList.delete name (w_frontendCtors w)\<rparr>))"

definition engine_AddTargetKind :: "string \<Rightarrow> ctor \<Rightarrow> 'd world \<Rightarrow> engine_error option \<times> 'd world" where
  "engine_AddTargetKind name kind w =
     (if w_closed w then (Some EngClosed, w)
      else if map_of (w_targetCtors w) name \<noteq> None then (Some EngTargetKindAlreadyRegistered, w)
      else (None, w\<lparr>w_targetCtors := AList.update name kind (w_targetCtors w)\<rparr>))"

definition engine_GetTargetKind :: "string \<Rightarrow> 'd world \<Rightarrow> ctor" where
  "engine_GetTargetKind name w = (case map_of (w_targetCtors w) name of None \<Rightarrow> None | Some c \<Rightarrow> c)"

definition engine_TargetKinds :: "'d world \<Rightarrow> ctor list" where
  "engine_TargetKinds w = map snd (w_targetCtors w)"

definition engine_DelTargetKind :: "string \<Rightarrow> 'd world \<Rightarrow> engine_error option \<times> 'd world" where
  "engine_DelTargetKind name w =
     (if w_closed w then (Some EngClosed, w)
      else if map_of (w_targetCtors w) name = None then (Some EngTargetKindNotRegistered, w)
      else (None, w\<lparr>w_targetCtors := AList.delete name (w_targetCtors w)\<rparr>))"

section \<open>Targets\<close>

text \<open>
  \<open>NewTarget\<close> with what the constructor returns, the error of \<open>Close\<close> of the handler it returned
  should that be called, and the two readings of the clock, in the dataplane and in the engine.
\<close>

definition engine_NewTarget ::
    "'d dataplane_ops \<Rightarrow> TargetCfg \<Rightarrow> string + hid \<Rightarrow> string option \<Rightarrow> int \<Rightarrow> int \<Rightarrow> 'd world
      \<Rightarrow> (engine_error + tid) \<times> 'd world" where
  "engine_NewTarget P cfg made herr now0 now w =
     (if w_closed w then (Inl EngClosed, w)
      else if map_of (w_targets w) (tc_Name cfg) \<noteq> None then (Inl EngTargetAlreadyRegistered, w)
      else if engine_GetTargetKind (ref_String (tc_Kind cfg)) w = None
        then (Inl EngTargetKindNotRegistered, w)
      else case made of
        Inl e \<Rightarrow> (Inl (EngHandlerCtor (tc_Kind cfg) e), w)
      | Inr h \<Rightarrow>
          (case dp_NewGroup P (tc_Name cfg) now0 (w_dplane w) of
             (Inl e, d) \<Rightarrow> (Inl (EngFlowGroup e), w\<lparr>w_dplane := d\<rparr>)
           | (Inr g, d) \<Rightarrow>
               (case target_New (Some (w_done w)) (Some g) (Some h) cfg of
                  Inl e \<Rightarrow>
                    (let (gerr, d') = g_Close P g d
                     in (Inl (EngJoined (non_nil [Some (EngTargetNew e), map_option EngHandlerClose herr,
                                                  map_option EngGroupClose gerr])),
                         w\<lparr>w_dplane := d', w_handlerCloses := w_handlerCloses w @ [h]\<rparr>))
                | Inr t \<Rightarrow>
                    (let i = w_ntgt w
                     in (Inr i, w\<lparr>w_dplane := d, w_tgt := (w_tgt w)(i := t), w_ntgt := Suc i,
                                  w_targets := AList.update (t_name t) i (w_targets w),
                                  w_lastSeen := AList.update (t_name t) now (w_lastSeen w)\<rparr>)))))"

definition engine_GetTarget :: "string \<Rightarrow> 'd world \<Rightarrow> tid option" where
  "engine_GetTarget name w = map_of (w_targets w) name"

definition engine_Targets :: "'d world \<Rightarrow> tid list" where
  "engine_Targets w = map snd (w_targets w)"

definition engine_DelTarget :: "string \<Rightarrow> 'd world \<Rightarrow> engine_error option \<times> 'd world" where
  "engine_DelTarget name w =
     (if w_closed w then (Some EngClosed, w)
      else case map_of (w_targets w) name of
        None \<Rightarrow> (None, w)
      | Some i \<Rightarrow>
          if t_state (w_tgt w i) \<noteq> Closed then (Some EngTargetInUse, w)
          else (None, w\<lparr>w_targets := AList.delete name (w_targets w),
                        w_lastSeen := AList.delete name (w_lastSeen w)\<rparr>))"

section \<open>Frontends\<close>

definition engine_NewFrontend ::
    "'d dataplane_ops \<Rightarrow> FrontendCfg \<Rightarrow> string + hid \<Rightarrow> string option \<Rightarrow> 'd world
      \<Rightarrow> (engine_error + fid) \<times> 'd world" where
  "engine_NewFrontend P cfg made herr w =
     (if w_closed w then (Inl EngClosed, w)
      else if map_of (w_frontends w) (fc_Name cfg) \<noteq> None then (Inl EngFrontendAlreadyRegistered, w)
      else case map_of (w_targets w) (ref_Namespace (fc_Endpoint cfg)) of
        None \<Rightarrow> (Inl EngTargetNotRegistered, w)
      | Some ti \<Rightarrow>
          (let t = w_tgt w ti
           in if t_state t = Closed then (Inl EngTargetNotRegistered, w)
              else if engine_FrontendKind (ref_String (fc_Kind cfg)) w = None
                then (Inl EngFrontendKindNotRegistered, w)
              else (case made of
                Inl e \<Rightarrow> (Inl (EngHandlerCtor (fc_Kind cfg) e), w)
              | Inr h \<Rightarrow>
                  (case target_Endpoint (ref_Name (fc_Endpoint cfg)) t of
                     None \<Rightarrow> (Inl (EngNoEndpoint (ref_Name (fc_Endpoint cfg)) (ref_Namespace (fc_Endpoint cfg))), w)
                   | Some ep \<Rightarrow>
                       (case frontend_New P (Some (w_done w)) (Some (ti, t)) ep (Some h) cfg (w_dplane w) of
                          (Inl e, d) \<Rightarrow>
                            (Inl (EngJoined (non_nil [Some (EngFrontendNew e), map_option EngHandlerClose herr])),
                             w\<lparr>w_dplane := d, w_handlerCloses := w_handlerCloses w @ [h]\<rparr>)
                        | (Inr f, d) \<Rightarrow>
                            (let i = w_nfe w
                             in (Inr i, w\<lparr>w_dplane := d, w_fe := (w_fe w)(i := f), w_nfe := Suc i,
                                          w_frontends := AList.update (f_name f) i (w_frontends w)\<rparr>)))))))"

definition engine_GetFrontend :: "string \<Rightarrow> 'd world \<Rightarrow> fid option" where
  "engine_GetFrontend name w = map_of (w_frontends w) name"

definition engine_Frontends :: "'d world \<Rightarrow> fid list" where
  "engine_Frontends w = map snd (w_frontends w)"

definition engine_DelFrontend :: "string \<Rightarrow> 'd world \<Rightarrow> engine_error option \<times> 'd world" where
  "engine_DelFrontend name w =
     (if w_closed w then (Some EngClosed, w)
      else case map_of (w_frontends w) name of
        None \<Rightarrow> (None, w)
      | Some i \<Rightarrow>
          if f_state (w_fe w i) \<noteq> FClosed then (Some EngFrontendInUse, w)
          else (None, w\<lparr>w_frontends := AList.delete name (w_frontends w)\<rparr>))"

section \<open>The event loop\<close>

definition time_zero :: int where
  "time_zero = - 62135596800000000000"

text \<open>\<open>Time.Sub\<close> saturates at the bounds of \<open>int64\<close>.\<close>

definition time_Sub :: "int \<Rightarrow> int \<Rightarrow> int" where
  "time_Sub a b = max (- (2 ^ 63)) (min (2 ^ 63 - 1) (a - b))"

definition last_seen :: "string \<Rightarrow> 'd world \<Rightarrow> int" where
  "last_seen name w = (case map_of (w_lastSeen w) name of None \<Rightarrow> time_zero | Some s \<Rightarrow> s)"

text \<open>\<open>detectTimeouts\<close>; \<^const>\<open>None\<close> when \<open>Drain\<close> blocks, which it would do holding both locks.\<close>

fun detect_targets ::
    "(string \<times> tid) list \<Rightarrow> gid list \<Rightarrow> int \<Rightarrow> 'd world \<Rightarrow> 'd world option" where
  "detect_targets [] stale ts w = Some w"
| "detect_targets ((name, i) # rest) stale ts w =
     (let t = w_tgt w i
      in if t_group t \<in> set stale
         then (if time_Sub ts (last_seen name w) > sint (ttl_ToDuration (t_timeout t))
               then (case target_Drain t of
                       None \<Rightarrow> None
                     | Some (ok, t') \<Rightarrow> detect_targets rest stale ts (upd_tgt i t' w))
               else detect_targets rest stale ts w)
         else detect_targets rest stale ts (w\<lparr>w_lastSeen := AList.update name ts (w_lastSeen w)\<rparr>))"

definition engine_detectTimeouts :: "gid list \<Rightarrow> int \<Rightarrow> 'd world \<Rightarrow> 'd world option" where
  "engine_detectTimeouts stale ts w = detect_targets (w_targets w) stale ts w"

text \<open>A tick: the stale groups are asked for without the lock of the engine.\<close>

definition engine_poll :: "'d dataplane_ops \<Rightarrow> int \<Rightarrow> 'd world \<Rightarrow> 'd world" where
  "engine_poll P ts w =
     (case dp_StaleGroups P (w_dplane w) of
        (Inl e, d) \<Rightarrow> w\<lparr>w_dplane := d\<rparr>
      | (Inr stale, d) \<Rightarrow> w\<lparr>w_dplane := d, w_pc := EngPolled stale ts\<rparr>)"

inductive engine_loop :: "'d dataplane_ops \<Rightarrow> 'd world \<Rightarrow> 'd world \<Rightarrow> bool" for P where
  tick: "w_pc w = EngSelect \<Longrightarrow> engine_loop P w (engine_poll P ts w)"
| detect: "w_pc w = EngPolled stale ts \<Longrightarrow> engine_detectTimeouts stale ts w = Some w' \<Longrightarrow>
    engine_loop P w (w'\<lparr>w_pc := EngSelect\<rparr>)"
| ctx_done: "w_pc w = EngSelect \<Longrightarrow> w_done w \<Longrightarrow> engine_loop P w (w\<lparr>w_pc := EngEnding\<rparr>)"
| ending: "w_pc w = EngEnding \<Longrightarrow> engine_loop P w ((engine_Close w)\<lparr>w_pc := EngExited\<rparr>)"

section \<open>Steps of the world\<close>

text \<open>
  What may happen next: a call of the engine's API, a step of the engine's loop, a step of the loop of
  a target or a frontend, a call of their exported methods by whoever holds them, the cancellation of
  the context the engine was given, or the end of the dataplane.
\<close>

datatype engine_call =
    CallNewTarget TargetCfg "string + hid" "string option" int int
  | CallDelTarget string
  | CallNewFrontend FrontendCfg "string + hid" "string option"
  | CallDelFrontend string
  | CallAddTargetKind string ctor | CallDelTargetKind string
  | CallAddFrontendKind string ctor | CallDelFrontendKind string
  | CallEngineClose

fun engine_exec :: "'d dataplane_ops \<Rightarrow> engine_call \<Rightarrow> 'd world \<Rightarrow> 'd world" where
  "engine_exec P (CallNewTarget cfg made herr now0 now) w = snd (engine_NewTarget P cfg made herr now0 now w)"
| "engine_exec P (CallDelTarget name) w = snd (engine_DelTarget name w)"
| "engine_exec P (CallNewFrontend cfg made herr) w = snd (engine_NewFrontend P cfg made herr w)"
| "engine_exec P (CallDelFrontend name) w = snd (engine_DelFrontend name w)"
| "engine_exec P (CallAddTargetKind name c) w = snd (engine_AddTargetKind name c w)"
| "engine_exec P (CallDelTargetKind name) w = snd (engine_DelTargetKind name w)"
| "engine_exec P (CallAddFrontendKind name c) w = snd (engine_AddFrontendKind name c w)"
| "engine_exec P (CallDelFrontendKind name) w = snd (engine_DelFrontendKind name w)"
| "engine_exec P CallEngineClose w = engine_Close w"

text \<open>The calls a holder of a target or a frontend can make.\<close>

inductive target_api :: "target \<Rightarrow> target \<Rightarrow> bool" where
  warm: "target_Warm t = Some (b, t') \<Longrightarrow> target_api t t'"
| drain: "target_Drain t = Some (b, t') \<Longrightarrow> target_api t t'"
| close: "target_api t (target_Close t)"
| cancel: "t_cancelling t \<Longrightarrow> target_api t (target_cancel t)"
| timeout: "target_api t (target_SetTimeout ttl t)"
| add: "target_api t (snd (target_AddEndpoint e t))"
| remove: "target_api t (snd (target_RemoveEndpoint name t))"

inductive frontend_api :: "frontend \<Rightarrow> frontend \<Rightarrow> bool" where
  start: "frontend_Start f = Some (b, f') \<Longrightarrow> frontend_api f f'"
| stop: "frontend_Stop f = Some (b, f') \<Longrightarrow> frontend_api f f'"
| close: "frontend_api f (frontend_Close f)"
| cancel: "f_cancelling f \<Longrightarrow> frontend_api f (frontend_cancel f)"

inductive world_step :: "'d dataplane_ops \<Rightarrow> 'd world \<Rightarrow> 'd world \<Rightarrow> bool" for P where
  call: "world_step P w (engine_exec P c w)"
| parent: "world_step P w (world_cancel w)"
| dclose: "world_step P w (w\<lparr>w_dplane := snd (dp_Close P (w_dplane w))\<rparr>)"
| eloop: "engine_loop P w w' \<Longrightarrow> world_step P w w'"
| tloop: "i < w_ntgt w \<Longrightarrow> target_loop P (w_tgt w i, w_dplane w) l (t', d') \<Longrightarrow>
    world_step P w ((upd_tgt i t' w)\<lparr>w_dplane := d'\<rparr>)"
| tapi: "i < w_ntgt w \<Longrightarrow> target_api (w_tgt w i) t' \<Longrightarrow> world_step P w (upd_tgt i t' w)"
| floop: "i < w_nfe w \<Longrightarrow>
    frontend_loop P (w_fe w i, w_tgt w (f_target (w_fe w i)), w_dplane w) l (f', t', d') \<Longrightarrow>
    world_step P w ((upd_fe i f' (upd_tgt (f_target (w_fe w i)) t' w))\<lparr>w_dplane := d'\<rparr>)"
| fapi: "i < w_nfe w \<Longrightarrow> frontend_api (w_fe w i) f' \<Longrightarrow> world_step P w (upd_fe i f' w)"

inductive world_reach :: "'d dataplane_ops \<Rightarrow> 'd \<Rightarrow> 'd world \<Rightarrow> bool" for P d0 where
  init: "world_reach P d0 (engine_New pd tgt0 fe0 d0)"
| step: "world_reach P d0 w \<Longrightarrow> world_step P w w' \<Longrightarrow> world_reach P d0 w'"

section \<open>The kind tables\<close>

definition reg_targetKind :: "string \<Rightarrow> ctor \<Rightarrow> 'd world \<Rightarrow> bool \<times> 'd world" where
  "reg_targetKind name c w = (let (e, w') = engine_AddTargetKind name c w in (e = None, w'))"

definition reg_frontendKind :: "string \<Rightarrow> ctor \<Rightarrow> 'd world \<Rightarrow> bool \<times> 'd world" where
  "reg_frontendKind name c w = (let (e, w') = engine_AddFrontendKind name c w in (e = None, w'))"

interpretation target_kinds: register_once reg_targetKind "\<lambda>w. map_of (w_targetCtors w)"
  by unfold_locales (auto simp: reg_targetKind_def engine_AddTargetKind_def split: if_splits)

interpretation frontend_kinds: register_once reg_frontendKind "\<lambda>w. map_of (w_frontendCtors w)"
  by unfold_locales (auto simp: reg_frontendKind_def engine_AddFrontendKind_def split: if_splits)

end
