(* ===== verification/Engine_Inv.thy ===== *)
theory Engine_Inv
  imports Engine Target_Inv
begin

text \<open>
  The invariant of the world: the tables of the engine agree with the stores, every target and
  frontend keeps its own invariant, groups belong to one target each, and a frontend that has not
  ended has its mapping in the open group of its target. It is proved over any dataplane that keeps
  its contract, by one classification lemma per kind of step.
\<close>

declare target_Warm.simps [simp del] target_Drain.simps [simp del]
  split_paired_All [simp del] split_paired_Ex [simp del]

section \<open>The tables\<close>

definition tables_ok :: "'d world \<Rightarrow> bool" where
  "tables_ok w \<longleftrightarrow> gomap_ok (w_targets w) \<and> gomap_ok (w_lastSeen w) \<and> gomap_ok (w_frontends w)
     \<and> (\<forall>n i. map_of (w_targets w) n = Some i \<longrightarrow> i < w_ntgt w \<and> t_name (w_tgt w i) = n)
     \<and> (\<forall>n. map_of (w_lastSeen w) n = None \<longleftrightarrow> map_of (w_targets w) n = None)
     \<and> (\<forall>n i. map_of (w_frontends w) n = Some i \<longrightarrow> i < w_nfe w \<and> f_name (w_fe w i) = n)"

definition stores_ok :: "'d world \<Rightarrow> bool" where
  "stores_ok w \<longleftrightarrow> (\<forall>i < w_ntgt w. \<exists>p. target_inv (w_tgt w i) \<and> phase_ok p (w_tgt w i))
     \<and> (\<forall>i < w_nfe w. f_target (w_fe w i) < w_ntgt w \<and> (\<exists>p. frontend_inv p (w_fe w i)))
     \<and> (\<forall>i j. i < w_ntgt w \<longrightarrow> j < w_ntgt w \<longrightarrow> t_group (w_tgt w i) = t_group (w_tgt w j) \<longrightarrow> i = j)
     \<and> (w_closed w \<longrightarrow> w_done w)
     \<and> (w_done w \<longrightarrow> (\<forall>i < w_ntgt w. t_done (w_tgt w i)) \<and> (\<forall>i < w_nfe w. f_done (w_fe w i)))"

text \<open>A frontend keeps its mapping until the loop has tried to remove it.\<close>

definition f_binds :: "frontend \<Rightarrow> bool" where
  "f_binds f \<longleftrightarrow> (case f_pc f of FSetError _ \<Rightarrow> False | FExited \<Rightarrow> False | _ \<Rightarrow> True)"

text \<open>What no step changes in a target or a frontend.\<close>

definition same_target :: "target \<Rightarrow> target \<Rightarrow> bool" where
  "same_target t t' \<longleftrightarrow> t_name t' = t_name t \<and> t_group t' = t_group t \<and> t_handler t' = t_handler t
     \<and> (t_done t \<longrightarrow> t_done t')"

definition same_frontend :: "frontend \<Rightarrow> frontend \<Rightarrow> bool" where
  "same_frontend f f' \<longleftrightarrow> f_name f' = f_name f \<and> f_target f' = f_target f \<and> f_mapping f' = f_mapping f
     \<and> (f_done f \<longrightarrow> f_done f') \<and> (f_binds f' \<longrightarrow> f_binds f)"

lemmas same_defs = same_target_def same_frontend_def

lemma target_loop_same:
  "target_loop P (t, d) l (t', d') \<Longrightarrow> same_target t t'"
  by (cases rule: target_loop.cases, assumption)
    (auto simp: same_target_def target_op_defs split: list.splits prod.splits option.splits if_splits)

lemma target_request_same: "target_request s t = Some (b, t') \<Longrightarrow> same_target t t'"
  by (auto simp: target_request_def same_target_def)

lemma target_api_same: "target_api t t' \<Longrightarrow> same_target t t'"
  by (cases rule: target_api.cases, assumption)
    (auto simp: same_target_def target_Warm.simps target_Drain.simps target_request_def target_Close_def target_cancel_def
      target_SetTimeout_def target_AddEndpoint_def target_RemoveEndpoint_def
      split: target_state.splits option.splits)

lemma target_Warm_same: "target_Warm t = Some (b, t') \<Longrightarrow> same_target t t'"
  by (rule target_api_same) (rule target_api.warm)

lemma frontend_loop_same:
  "frontend_loop P (f, t, d) l (f', t', d') \<Longrightarrow> same_frontend f f' \<and> same_target t t'"
  by (cases rule: frontend_loop.cases, assumption)
    (auto simp: same_defs f_binds_def frontend_receive_def frontend_begin_def start_finish_def stop_finish_def
      frontend_end_begin_def frontend_end_mapping_def frontend_end_finish_def Let_def
      dest!: target_Warm_same split: list.splits prod.splits)

lemma frontend_api_same: "frontend_api f f' \<Longrightarrow> same_frontend f f'"
  by (cases rule: frontend_api.cases, assumption)
    (auto simp: same_frontend_def f_binds_def frontend_request_def frontend_Close_def frontend_cancel_def
      split: frontend_state.splits)

text \<open>Exported methods are steps of the callers of a target or a frontend.\<close>

lemma target_api_client: "target_api t t' \<Longrightarrow> target_client P (t, d) (t', d)"
  by (cases rule: target_api.cases, assumption) (auto intro: target_client.intros)

lemma frontend_api_client: "frontend_api f f' \<Longrightarrow> frontend_client (f, t, d) (f', t, d)"
  by (cases rule: frontend_api.cases, assumption) (auto intro: frontend_client.intros)

section \<open>What a step does to the dataplane\<close>

context dataplane_contract
begin

definition same_switch :: "gid \<Rightarrow> 'd \<Rightarrow> 'd \<Rightarrow> bool" where
  "same_switch g d d' \<longleftrightarrow> (usable d' g \<longrightarrow> usable d g \<and> enabled d' g = enabled d g)"

definition same_key :: "gid \<Rightarrow> dnat_key \<Rightarrow> 'd \<Rightarrow> 'd \<Rightarrow> bool" where
  "same_key g k d d' \<longleftrightarrow> (usable d' g \<longrightarrow> usable d g \<and> table d' g k = table d g k)"

lemmas same_group_defs = same_switch_def same_key_def

text \<open>The calls that leave every table alone: switching, closing, opening and asking.\<close>

lemma switch_call_effect:
  assumes i: "inv d" and c: "c = GEnable \<or> c = GDisable" and e: "g_exec P c g d = (r, d')"
  shows "inv d' \<and> allocated d' = allocated d \<and> same_key g' k d d' \<and> (g' \<noteq> g \<longrightarrow> same_switch g' d d')"
proof -
  have "table d' g' = table d g'"
  proof (cases "g' = g")
    case False
    then show ?thesis using call_other [OF i e] by blast
  next
    case True
    then show ?thesis using call_done [OF i, of c g d'] call_failed [OF i, of c g _ d'] c e
      by (cases r) auto
  qed
  with call_inv [OF i e] call_frame [OF i e] call_other [OF i e, of g']
  show ?thesis by (simp add: same_group_defs)
qed

lemma close_effect:
  assumes i: "inv d" and e: "g_Close P g d = (r, d')"
  shows "inv d'" and "allocated d' = allocated d" and "same_key g' k d d'" and "same_switch g' d d'"
  using close_inv [OF i e] close_usable [OF i e, of g'] close_other [OF i e, of g']
  by (auto simp: same_group_defs)

lemma target_loop_effect:
  assumes i: "inv d" and l: "target_loop P (t, d) l (t', d')"
  shows "inv d' \<and> allocated d' = allocated d \<and> same_key g k d d'
    \<and> (g \<noteq> t_group t \<longrightarrow> same_switch g d d')"
  using l
proof cases
  case (warm err)
  obtain r d1 where e: "g_Enable P (t_group t) d = (r, d1)" by (cases "g_Enable P (t_group t) d")
  have "d' = d \<or> d' = d1" using warm e
    by (auto simp: warm_finish_def Let_def split: if_splits option.splits)
  then show ?thesis
    using i switch_call_effect [OF i, of GEnable "t_group t" r d1 g k] e by (auto simp: same_group_defs)
next
  case (drain err)
  obtain r d1 where e: "g_Disable P (t_group t) d = (r, d1)" by (cases "g_Disable P (t_group t) d")
  have "d' = d \<or> d' = d1" using drain e
    by (auto simp: drain_finish_def Let_def split: if_splits option.splits)
  then show ?thesis
    using i switch_call_effect [OF i, of GDisable "t_group t" r d1 g k] e by (auto simp: same_group_defs)
next
  case (gclose err)
  obtain r d1 where e: "g_Close P (t_group t) d = (r, d1)" by (cases "g_Close P (t_group t) d")
  with gclose have "d' = d1" by (simp add: end_group_def)
  then show ?thesis using close_effect [OF i e] by simp
qed (use i in \<open>simp_all add: same_group_defs\<close>)

lemma del_one_effect:
  assumes i: "inv d" and e: "g_DelMappings P g [m] d = (r, d')"
  shows "inv d' \<and> allocated d' = allocated d \<and> same_switch g' d d'
    \<and> (g' \<noteq> g \<or> k \<noteq> src_key m \<longrightarrow> same_key g' k d d')"
proof -
  have e': "g_exec P (GDel [m]) g d = (r, d')" using e by simp
  have "enabled d' g' = enabled d g' \<and> (g' \<noteq> g \<or> k \<noteq> src_key m \<longrightarrow> table d' g' k = table d g' k)"
  proof (cases "g' = g")
    case False
    then show ?thesis using call_other [OF i e'] by simp
  next
    case True
    then show ?thesis using call_done [OF i, of "GDel [m]" g d'] call_failed [OF i, of "GDel [m]" g _ d'] e
      by (cases r) auto
  qed
  with call_inv [OF i e'] call_frame [OF i e'] show ?thesis by (simp add: same_group_defs)
qed

lemma frontend_loop_effect:
  assumes i: "inv d" and l: "frontend_loop P (f, t, d) l (f', t', d')"
  shows "inv d' \<and> allocated d' = allocated d \<and> same_switch g d d'
    \<and> (g \<noteq> t_group t \<or> k \<noteq> src_key (f_mapping f) \<or> f_binds f' \<or> \<not> f_binds f \<longrightarrow> same_key g k d d')"
  using l
proof cases
  case (unbind err)
  obtain r d1 where e: "g_DelMappings P (t_group t) [f_mapping f] d = (r, d1)"
    by (cases "g_DelMappings P (t_group t) [f_mapping f] d")
  with unbind have "d' = d1" "\<not> f_binds f'" "f_binds f" by (auto simp: frontend_end_mapping_def f_binds_def)
  then show ?thesis using del_one_effect [OF i e, of g k] by blast
qed (use i in \<open>simp_all add: same_group_defs\<close>)

text \<open>A target keeps its switch when others act.\<close>

lemma switch_ok_other:
  assumes "switch_ok t d" and "inv d'" and "allocated d' (t_group t)" and "same_switch (t_group t) d d'"
  shows "switch_ok t d'"
  using assms by (auto simp: switch_ok_def same_switch_def)

section \<open>The world\<close>

definition bound :: "target \<Rightarrow> 'd \<Rightarrow> frontend \<Rightarrow> bool" where
  "bound t d f \<longleftrightarrow> (usable d (t_group t) \<and> f_binds f \<longrightarrow>
     table d (t_group t) (src_key (f_mapping f)) = Some (f_mapping f))"

definition apart :: "'d world \<Rightarrow> fid \<Rightarrow> fid \<Rightarrow> bool" where
  "apart w i j \<longleftrightarrow> (let f = w_fe w i; x = w_fe w j
     in f_target f = f_target x \<and> f_binds f \<and> f_binds x \<and> usable (w_dplane w) (t_group (w_tgt w (f_target f)))
        \<longrightarrow> src_key (f_mapping f) \<noteq> src_key (f_mapping x))"

definition world_ok :: "'d world \<Rightarrow> bool" where
  "world_ok w \<longleftrightarrow> inv (w_dplane w) \<and> tables_ok w \<and> stores_ok w
     \<and> (\<forall>i < w_ntgt w. switch_ok (w_tgt w i) (w_dplane w)) \<and> (\<forall>i < w_nfe w. bound (w_tgt w (f_target (w_fe w i))) (w_dplane w) (w_fe w i))
     \<and> (\<forall>i j. i < w_nfe w \<longrightarrow> j < w_nfe w \<longrightarrow> i \<noteq> j \<longrightarrow> apart w i j)"

lemma world_okD:
  assumes "world_ok w"
  shows "inv (w_dplane w)" "tables_ok w" "stores_ok w"
    "i < w_ntgt w \<Longrightarrow> switch_ok (w_tgt w i) (w_dplane w)"
    "i < w_ntgt w \<Longrightarrow> allocated (w_dplane w) (t_group (w_tgt w i))"
    "j < w_nfe w \<Longrightarrow> f_target (w_fe w j) < w_ntgt w"
    "j < w_nfe w \<Longrightarrow> bound (w_tgt w (f_target (w_fe w j))) (w_dplane w) (w_fe w j)"
  using assms by (auto simp: world_ok_def stores_ok_def switch_ok_def)

text \<open>Steps that change the dataplane and no table of the world.\<close>

lemma world_upd_dplane:
  assumes ok: "world_ok w" and d': "inv d'"
    and keeps: "\<And>g. allocated (w_dplane w) g \<Longrightarrow> allocated d' g \<and> same_switch g (w_dplane w) d'
        \<and> (\<forall>k. same_key g k (w_dplane w) d')"
  shows "world_ok (w\<lparr>w_dplane := d'\<rparr>)"
proof -
  let ?w = "w\<lparr>w_dplane := d'\<rparr>"
  have alloc: "i < w_ntgt w \<Longrightarrow> allocated (w_dplane w) (t_group (w_tgt w i))" for i
    by (rule world_okD(5) [OF ok])
  have "switch_ok (w_tgt w i) d'" if "i < w_ntgt w" for i
    using switch_ok_other [OF world_okD(4) [OF ok that] d'] keeps [OF alloc [OF that]] by blast
  moreover have "bound (w_tgt w (f_target (w_fe w j))) d' (w_fe w j)" if "j < w_nfe w" for j
    using world_okD(7) [OF ok that] keeps [OF alloc [OF world_okD(6) [OF ok that]]]
    by (auto simp: bound_def same_key_def)
  moreover have "apart ?w i j" if "i < w_nfe w" "j < w_nfe w" "i \<noteq> j" for i j
  proof -
    have "apart w i j" using ok that by (simp add: world_ok_def)
    then show ?thesis using keeps [OF alloc [OF world_okD(6) [OF ok that(1)]]]
      by (auto simp: apart_def Let_def same_switch_def)
  qed
  moreover have "tables_ok ?w" "stores_ok ?w"
    using world_okD(2,3) [OF ok] by (simp_all add: tables_ok_def stores_ok_def)
  ultimately show ?thesis using d' by (simp add: world_ok_def)
qed

text \<open>A step of one target, which may switch its own group or close it.\<close>

lemma world_upd_target:
  assumes ok: "world_ok w" and i: "i < w_ntgt w" and same: "same_target (w_tgt w i) t'"
    and t': "target_inv t'" "phase_ok p t'" "switch_ok t' d'" and d': "inv d'"
    and keeps: "\<And>g. allocated (w_dplane w) g \<Longrightarrow> allocated d' g
        \<and> (g \<noteq> t_group (w_tgt w i) \<longrightarrow> same_switch g (w_dplane w) d') \<and> (\<forall>k. same_key g k (w_dplane w) d')"
  shows "world_ok ((upd_tgt i t' w)\<lparr>w_dplane := d'\<rparr>)"
proof -
  let ?w = "(upd_tgt i t' w)\<lparr>w_dplane := d'\<rparr>"
  have grp: "t_group (w_tgt ?w j) = t_group (w_tgt w j)" "t_name (w_tgt ?w j) = t_name (w_tgt w j)"
    "t_done (w_tgt w j) \<Longrightarrow> t_done (w_tgt ?w j)" for j
    using same by (auto simp: upd_tgt_def same_target_def)
  have frame: "w_dplane ?w = d'" "w_fe ?w = w_fe w" "w_nfe ?w = w_nfe w" "w_ntgt ?w = w_ntgt w"
    "w_targets ?w = w_targets w" "w_frontends ?w = w_frontends w" "w_lastSeen ?w = w_lastSeen w"
    "w_done ?w = w_done w" "w_closed ?w = w_closed w" "w_tgt ?w i = t'" "\<And>j. j \<noteq> i \<Longrightarrow> w_tgt ?w j = w_tgt w j"
    by (simp_all add: upd_tgt_def)
  have stores: "stores_ok w" by (rule world_okD(3) [OF ok])
  have "tables_ok ?w" using world_okD(2) [OF ok] unfolding tables_ok_def frame grp .
  moreover have "\<exists>q. target_inv (w_tgt ?w j) \<and> phase_ok q (w_tgt ?w j)" if "j < w_ntgt w" for j
    using stores t'(1,2) that frame(10) frame(11) [of j] by (cases "j = i") (auto simp: stores_ok_def)
  then have "stores_ok ?w" using stores grp(3) unfolding stores_ok_def frame grp by blast
  moreover have "switch_ok (w_tgt ?w j) d'" if j: "j < w_ntgt w" for j
  proof (cases "j = i")
    case True
    with t'(3) frame(10) show ?thesis by simp
  next
    case False
    then have "t_group (w_tgt w j) \<noteq> t_group (w_tgt w i)" using stores i j by (auto simp: stores_ok_def)
    then show ?thesis
      using switch_ok_other [OF world_okD(4) [OF ok j] d'] keeps [OF world_okD(5) [OF ok j]] frame(11) [OF False]
      by simp
  qed
  moreover have "bound (w_tgt ?w (f_target (w_fe w j))) d' (w_fe w j)" if j: "j < w_nfe w" for j
    using world_okD(7) [OF ok j] keeps [OF world_okD(5) [OF ok world_okD(6) [OF ok j]]]
    unfolding bound_def grp same_key_def by metis
  moreover have "apart ?w j k" if "j < w_nfe w" "k < w_nfe w" "j \<noteq> k" for j k
  proof -
    have "apart w j k" using ok that by (simp add: world_ok_def)
    then show ?thesis using keeps [OF world_okD(5) [OF ok world_okD(6) [OF ok that(1)]]]
      unfolding apart_def Let_def frame grp same_key_def by blast
  qed
  ultimately show ?thesis using d' unfolding world_ok_def frame by blast
qed

text \<open>A step of one frontend, which may remove its own mapping when it stops binding it.\<close>

lemma world_upd_fe:
  assumes ok: "world_ok w" and i: "i < w_nfe w" and same: "same_frontend (w_fe w i) f'"
    and f': "frontend_inv p f'" and d': "inv d'"
    and keeps: "\<And>g. allocated (w_dplane w) g \<Longrightarrow> allocated d' g \<and> same_switch g (w_dplane w) d'
        \<and> (\<forall>k. g \<noteq> t_group (w_tgt w (f_target (w_fe w i))) \<or> k \<noteq> src_key (f_mapping (w_fe w i))
             \<or> f_binds f' \<or> \<not> f_binds (w_fe w i) \<longrightarrow> same_key g k (w_dplane w) d')"
  shows "world_ok ((upd_fe i f' w)\<lparr>w_dplane := d'\<rparr>)"
proof -
  let ?w = "(upd_fe i f' w)\<lparr>w_dplane := d'\<rparr>"
  have eq: "f_target (w_fe ?w j) = f_target (w_fe w j)" "f_name (w_fe ?w j) = f_name (w_fe w j)"
    "f_mapping (w_fe ?w j) = f_mapping (w_fe w j)"
    "f_done (w_fe w j) \<Longrightarrow> f_done (w_fe ?w j)" "f_binds (w_fe ?w j) \<Longrightarrow> f_binds (w_fe w j)" for j
    using same by (auto simp: upd_fe_def same_frontend_def split: if_splits)
  have frame: "w_dplane ?w = d'" "w_tgt ?w = w_tgt w" "w_nfe ?w = w_nfe w" "w_ntgt ?w = w_ntgt w"
    "w_targets ?w = w_targets w" "w_frontends ?w = w_frontends w" "w_lastSeen ?w = w_lastSeen w"
    "w_done ?w = w_done w" "w_closed ?w = w_closed w" "w_fe ?w i = f'" "\<And>j. j \<noteq> i \<Longrightarrow> w_fe ?w j = w_fe w j"
    by (simp_all add: upd_fe_def)
  have stores: "stores_ok w" by (rule world_okD(3) [OF ok])
  have "tables_ok ?w" using world_okD(2) [OF ok] unfolding tables_ok_def frame eq .
  moreover have "\<exists>q. frontend_inv q (w_fe ?w j)" if "j < w_nfe w" for j
    using stores f' that frame(10) frame(11) [of j] by (cases "j = i") (auto simp: stores_ok_def)
  then have "stores_ok ?w" using stores eq(4) unfolding stores_ok_def frame eq by blast
  moreover have "switch_ok (w_tgt w j) d'" if j: "j < w_ntgt w" for j
    using switch_ok_other [OF world_okD(4) [OF ok j] d'] keeps [OF world_okD(5) [OF ok j]] by blast
  moreover have "bound (w_tgt w (f_target (w_fe w j))) d' (w_fe ?w j)" if j: "j < w_nfe w" for j
  proof (cases "f_binds (w_fe ?w j) \<and> usable d' (t_group (w_tgt w (f_target (w_fe w j))))")
    case False
    then show ?thesis by (auto simp: bound_def)
  next
    case True
    let ?g = "t_group (w_tgt w (f_target (w_fe w j)))"
    note k = keeps [OF world_okD(5) [OF ok world_okD(6) [OF ok j]]]
    have b: "f_binds (w_fe w j)" using True eq(5) by blast
    have u: "usable (w_dplane w) ?g" using True k by (auto simp: same_switch_def)
    have "same_key ?g (src_key (f_mapping (w_fe w j))) (w_dplane w) d'"
    proof (cases "j = i")
      case True
      with \<open>f_binds (w_fe ?w j) \<and> _\<close> frame(10) k show ?thesis by metis
    next
      case False
      show ?thesis
      proof (cases "f_target (w_fe w j) = f_target (w_fe w i) \<and> f_binds (w_fe w i)")
        case True
        have "apart w j i" using ok i j False by (simp add: world_ok_def)
        with True b u have "src_key (f_mapping (w_fe w j)) \<noteq> src_key (f_mapping (w_fe w i))"
          by (simp add: apart_def)
        with k show ?thesis by blast
      next
        case False
        then have "?g \<noteq> t_group (w_tgt w (f_target (w_fe w i))) \<or> \<not> f_binds (w_fe w i)"
          using stores world_okD(6) [OF ok i] world_okD(6) [OF ok j] unfolding stores_ok_def by blast
        with k show ?thesis by blast
      qed
    qed
    with world_okD(7) [OF ok j] b show ?thesis unfolding bound_def eq same_key_def by metis
  qed
  moreover have "apart ?w j k" if "j < w_nfe w" "k < w_nfe w" "j \<noteq> k" for j k
  proof -
    have "apart w j k" using ok that by (simp add: world_ok_def)
    then show ?thesis using keeps [OF world_okD(5) [OF ok world_okD(6) [OF ok that(1)]]] eq(5) [of j] eq(5) [of k]
      unfolding apart_def Let_def frame eq same_switch_def by blast
  qed
  ultimately show ?thesis using d' unfolding world_ok_def frame eq by blast
qed

section \<open>Every step keeps the invariant\<close>

lemma world_ok_irrelevant [simp]:
  "world_ok (w\<lparr>w_targetCtors := x\<rparr>) = world_ok w" "world_ok (w\<lparr>w_frontendCtors := y\<rparr>) = world_ok w"
  "world_ok (w\<lparr>w_pc := pc\<rparr>) = world_ok w" "world_ok (w\<lparr>w_handlerCloses := hs\<rparr>) = world_ok w"
  by (simp_all add: world_ok_def tables_ok_def stores_ok_def apart_def)

lemma same_refl [simp]: "same_switch g d d" "same_key g k d d" "same_target t t" "same_frontend f f"
  by (simp_all add: same_group_defs same_defs)

lemma world_step_tloop:
  assumes ok: "world_ok w" and i: "i < w_ntgt w" and l: "target_loop P (w_tgt w i, w_dplane w) l (t', d')"
  shows "world_ok ((upd_tgt i t' w)\<lparr>w_dplane := d'\<rparr>)"
proof -
  obtain p where p: "target_inv (w_tgt w i)" "phase_ok p (w_tgt w i)"
    using world_okD(3) [OF ok] i by (auto simp: stores_ok_def)
  from target_loop_inv [OF l p] obtain q where q: "target_inv t'" "phase_ok q t'" by blast
  note eff = target_loop_effect [OF world_okD(1) [OF ok] l]
  show ?thesis
    by (rule world_upd_target [OF ok i target_loop_same [OF l] q])
      (use eff target_loop_switch [OF l world_okD(4) [OF ok i]] in auto)
qed

lemma world_step_tapi:
  assumes ok: "world_ok w" and i: "i < w_ntgt w" and api: "target_api (w_tgt w i) t'"
  shows "world_ok (upd_tgt i t' w)"
proof -
  obtain p where p: "target_inv (w_tgt w i)" "phase_ok p (w_tgt w i)"
    using world_okD(3) [OF ok] i by (auto simp: stores_ok_def)
  note c = target_api_client [OF api, of P "w_dplane w"]
  have "world_ok ((upd_tgt i t' w)\<lparr>w_dplane := w_dplane w\<rparr>)"
    by (rule world_upd_target [OF ok i target_api_same [OF api]])
      (use target_client_inv [OF c p] target_client_switch [OF c world_okD(4) [OF ok i]]
        world_okD(1) [OF ok] in auto)
  then show ?thesis by (simp add: upd_tgt_def)
qed

lemma world_step_floop:
  assumes ok: "world_ok w" and i: "i < w_nfe w"
    and l: "frontend_loop P (w_fe w i, w_tgt w (f_target (w_fe w i)), w_dplane w) l (f', t', d')"
  shows "world_ok ((upd_fe i f' (upd_tgt (f_target (w_fe w i)) t' w))\<lparr>w_dplane := d'\<rparr>)"
proof -
  let ?ti = "f_target (w_fe w i)"
  let ?w = "upd_tgt ?ti t' w"
  obtain p where p: "frontend_inv p (w_fe w i)"
    using world_okD(3) [OF ok] i by (auto simp: stores_ok_def)
  from frontend_loop_inv [OF l p] obtain q where q: "frontend_inv q f'" by blast
  have api: "t' = w_tgt w ?ti \<or> target_api (w_tgt w ?ti) t'"
    using l by cases (auto intro: target_api.warm)
  have w: "world_ok ?w"
    using api world_step_tapi [OF ok world_okD(6) [OF ok i]] ok by (auto simp: upd_tgt_def)
  have fe: "w_fe ?w = w_fe w" "w_nfe ?w = w_nfe w" "w_dplane ?w = w_dplane w"
    "t_group (w_tgt ?w ?ti) = t_group (w_tgt w ?ti)"
    using frontend_loop_same [OF l] by (simp_all add: upd_tgt_def same_target_def)
  note eff = frontend_loop_effect [OF world_okD(1) [OF ok] l]
  show ?thesis
    by (rule world_upd_fe [OF w _ _ q]) (use i frontend_loop_same [OF l] eff in \<open>auto simp: fe\<close>)
qed

lemma world_step_fapi:
  assumes ok: "world_ok w" and i: "i < w_nfe w" and api: "frontend_api (w_fe w i) f'"
  shows "world_ok (upd_fe i f' w)"
proof -
  obtain p where p: "frontend_inv p (w_fe w i)"
    using world_okD(3) [OF ok] i by (auto simp: stores_ok_def)
  note c = frontend_api_client [OF api, of "w_tgt w 0" "w_dplane w"]
  have "world_ok ((upd_fe i f' w)\<lparr>w_dplane := w_dplane w\<rparr>)"
    by (rule world_upd_fe [OF ok i frontend_api_same [OF api] frontend_client_inv [OF c p]])
      (use world_okD(1) [OF ok] in auto)
  then show ?thesis by (simp add: upd_fe_def)
qed

lemma world_cancel_ok:
  assumes ok: "world_ok w"
  shows "world_ok (world_cancel w)"
proof -
  have t: "target_inv t \<Longrightarrow> phase_ok p t \<Longrightarrow> target_inv (t\<lparr>t_done := True\<rparr>) \<and> phase_ok p (t\<lparr>t_done := True\<rparr>)" for t p
    using target_inv_frame [of t p "t\<lparr>t_done := True\<rparr>"] by simp
  have f: "frontend_inv p f \<Longrightarrow> frontend_inv p (f\<lparr>f_done := True\<rparr>)" for f p
    using frontend_inv_frame [of p f "f\<lparr>f_done := True\<rparr>"] by simp
  have "stores_ok (world_cancel w)"
    using world_okD(3) [OF ok] t f by (auto simp: stores_ok_def world_cancel_def) blast+
  moreover have "tables_ok (world_cancel w)"
    using world_okD(2) [OF ok] by (simp add: tables_ok_def world_cancel_def)
  moreover have "switch_ok (w_tgt (world_cancel w) i) d = switch_ok (w_tgt w i) d"
    "bound (w_tgt (world_cancel w) i) d (w_fe (world_cancel w) j) = bound (w_tgt w i) d (w_fe w j)"
    "apart (world_cancel w) i j = apart w i j" for i j d
    by (simp_all add: world_cancel_def switch_ok_def bound_def apart_def f_binds_def Let_def)
  moreover have "w_dplane (world_cancel w) = w_dplane w" "w_ntgt (world_cancel w) = w_ntgt w"
    "w_nfe (world_cancel w) = w_nfe w" "f_target (w_fe (world_cancel w) j) = f_target (w_fe w j)" for j
    by (simp_all add: world_cancel_def)
  ultimately show ?thesis using ok unfolding world_ok_def by simp
qed

lemma engine_Close_ok: "world_ok w \<Longrightarrow> world_ok (engine_Close w)"
proof (cases "w_closed w")
  case False
  assume "world_ok w"
  then have "world_ok (world_cancel w)" by (rule world_cancel_ok)
  moreover have "engine_Close w = (world_cancel w)\<lparr>w_closed := True\<rparr>"
    using False by (simp add: engine_Close_def world_cancel_def)
  ultimately show ?thesis
    by (simp add: world_ok_def tables_ok_def stores_ok_def apart_def) (simp add: world_cancel_def)
qed (simp add: engine_Close_def)

lemma detect_targets_ok:
  assumes "world_ok w" and "\<And>n i. (n, i) \<in> set ts \<Longrightarrow> map_of (w_targets w) n = Some i"
    and "detect_targets ts stale now w = Some w'"
  shows "world_ok w'"
  using assms
proof (induction ts arbitrary: w)
  case Nil
  then show ?case by simp
next
  case (Cons ni ts)
  obtain n i where ni: "ni = (n, i)" by (cases ni)
  have reg: "map_of (w_targets w) n = Some i" using Cons.prems(2) ni by simp
  then have i: "i < w_ntgt w" using world_okD(2) [OF Cons.prems(1)] by (simp add: tables_ok_def)
  show ?case
  proof (cases "t_group (w_tgt w i) \<in> set stale")
    case False
    let ?w = "w\<lparr>w_lastSeen := AList.update n now (w_lastSeen w)\<rparr>"
    have "tables_ok ?w" using world_okD(2) [OF Cons.prems(1)] reg by (auto simp: tables_ok_def)
    then have "world_ok ?w"
      using Cons.prems(1) by (simp add: world_ok_def stores_ok_def apart_def)
    with Cons.IH [of ?w] Cons.prems(2,3) False show ?thesis by (simp add: ni)
  next
    case True
    show ?thesis
    proof (cases "time_Sub now (last_seen n w) > sint (ttl_ToDuration (t_timeout (w_tgt w i)))")
      case False
      with Cons.IH [of w] Cons.prems True show ?thesis by (simp add: ni)
    next
      case over: True
      then obtain b t' where d: "target_Drain (w_tgt w i) = Some (b, t')"
        using Cons.prems(3) True by (auto simp: ni split: option.splits)
      have "world_ok (upd_tgt i t' w)"
        by (rule world_step_tapi [OF Cons.prems(1) i target_api.drain [OF d]])
      with Cons.IH [of "upd_tgt i t' w"] Cons.prems(2,3) True over d show ?thesis
        by (simp add: ni upd_tgt_def)
    qed
  qed
qed

lemma engine_loop_ok:
  assumes ok: "world_ok w" and l: "engine_loop P w w'"
  shows "world_ok w'"
  using l
proof cases
  case (tick ts)
  obtain r d where e: "dp_StaleGroups P (w_dplane w) = (r, d)" by (cases "dp_StaleGroups P (w_dplane w)")
  have "world_ok (w\<lparr>w_dplane := d\<rparr>)"
    by (rule world_upd_dplane [OF ok]) (use stale_frame [OF world_okD(1) [OF ok] e] in \<open>simp_all add: same_group_defs\<close>)
  then show ?thesis by (auto simp: tick engine_poll_def e split: sum.split)
next
  case (detect stale ts w1)
  have "gomap_ok (w_targets w)" using world_okD(2) [OF ok] by (simp add: tables_ok_def)
  then have "world_ok w1"
    using detect_targets_ok [OF ok _ detect(3) [unfolded engine_detectTimeouts_def]] by (simp add: gomap_mem_iff)
  then show ?thesis by (simp add: detect)
qed (use ok engine_Close_ok in simp_all)

lemma world_add_target:
  assumes ok: "world_ok w" and t: "target_inv t" "phase_ok p t" "switch_ok t (w_dplane w)"
    and fresh: "\<And>i. i < w_ntgt w \<Longrightarrow> t_group (w_tgt w i) \<noteq> t_group t" "map_of (w_targets w) (t_name t) = None"
    and fin: "w_done w \<Longrightarrow> t_done t"
  shows "world_ok (w\<lparr>w_tgt := (w_tgt w)(w_ntgt w := t), w_ntgt := Suc (w_ntgt w),
      w_targets := AList.update (t_name t) (w_ntgt w) (w_targets w),
      w_lastSeen := AList.update (t_name t) now (w_lastSeen w)\<rparr>)" (is "world_ok ?w")
proof -
  have tgt: "i < w_ntgt w \<Longrightarrow> w_tgt ?w i = w_tgt w i" "w_tgt ?w (w_ntgt w) = t" for i by simp_all
  have less: "i < w_ntgt ?w \<longleftrightarrow> i < w_ntgt w \<or> i = w_ntgt w" for i by (simp add: less_Suc_eq)
  have "tables_ok ?w"
    using world_okD(2) [OF ok] fresh(2) by (auto simp: tables_ok_def less_Suc_eq split: if_splits)
  moreover have "\<exists>q. target_inv (w_tgt ?w i) \<and> phase_ok q (w_tgt ?w i)" if "i < w_ntgt ?w" for i
    using world_okD(3) [OF ok] t(1,2) that by (auto simp: stores_ok_def less_Suc_eq)
  moreover have "t_group (w_tgt ?w i) = t_group (w_tgt ?w j) \<longrightarrow> i = j" if "i < w_ntgt ?w" "j < w_ntgt ?w" for i j
    using world_okD(3) [OF ok] fresh(1) [of i] fresh(1) [of j] that unfolding less
    by (auto simp: stores_ok_def)
  moreover have "w_done w \<longrightarrow> t_done (w_tgt ?w i)" if "i < w_ntgt ?w" for i
    using world_okD(3) [OF ok] fin that by (auto simp: stores_ok_def less_Suc_eq)
  moreover have "f_target (w_fe w j) < w_ntgt ?w \<and> (\<exists>q. frontend_inv q (w_fe w j))" "w_done w \<longrightarrow> f_done (w_fe w j)"
    if "j < w_nfe w" for j
    using world_okD(3) [OF ok] that by (auto simp: stores_ok_def)
  moreover have "w_closed w \<longrightarrow> w_done w" using world_okD(3) [OF ok] by (simp add: stores_ok_def)
  moreover have frame: "w_nfe ?w = w_nfe w" "w_fe ?w = w_fe w" "w_done ?w = w_done w" "w_closed ?w = w_closed w"
    by simp_all
  ultimately have "tables_ok ?w" "stores_ok ?w"
    unfolding stores_ok_def frame by blast+
  moreover have "switch_ok (w_tgt ?w i) (w_dplane w)" if "i < w_ntgt ?w" for i
    using world_okD(4) [OF ok] t(3) that by (auto simp: less_Suc_eq)
  moreover have "bound (w_tgt ?w (f_target (w_fe w j))) (w_dplane w) (w_fe w j)" if "j < w_nfe w" for j
    using world_okD(6,7) [OF ok that] by simp
  moreover have "apart ?w i j" if "i < w_nfe w" "j < w_nfe w" "i \<noteq> j" for i j
  proof -
    have "apart w i j" using ok that by (simp add: world_ok_def)
    then show ?thesis using world_okD(6) [OF ok that(1)] by (auto simp: apart_def Let_def)
  qed
  ultimately show ?thesis using world_okD(1) [OF ok] by (simp add: world_ok_def)
qed

lemma new_group_keeps:
  assumes i: "inv d" and n: "dp_NewGroup P name now d = (res, d')"
  shows "inv d' \<and> (\<forall>g. allocated d g \<longrightarrow> allocated d' g \<and> same_switch g d d' \<and> (\<forall>k. same_key g k d d'))"
proof (cases res)
  case (Inl e)
  with i n new_failed [of d name now e d'] show ?thesis by simp
next
  case (Inr g)
  note new = new_group [OF i n [unfolded Inr]]
  then have "allocated d h \<Longrightarrow> h \<noteq> g" for h by blast
  with new new_inv [OF i n] show ?thesis by (simp add: same_group_defs)
qed

lemma engine_NewTarget_ok:
  assumes ok: "world_ok w"
  shows "world_ok (snd (engine_NewTarget P cfg made herr now0 now w))"
proof (cases "w_closed w \<or> map_of (w_targets w) (tc_Name cfg) \<noteq> None
    \<or> engine_GetTargetKind (ref_String (tc_Kind cfg)) w = None \<or> (\<exists>e. made = Inl e)")
  case True
  with ok show ?thesis by (auto simp: engine_NewTarget_def split: sum.split)
next
  case False
  then obtain h where made: "made = Inr h" by (cases made) auto
  obtain res d where n: "dp_NewGroup P (tc_Name cfg) now0 (w_dplane w) = (res, d)"
    by (cases "dp_NewGroup P (tc_Name cfg) now0 (w_dplane w)")
  note keeps = new_group_keeps [OF world_okD(1) [OF ok] n]
  have w1: "world_ok (w\<lparr>w_dplane := d\<rparr>)" by (rule world_upd_dplane [OF ok]) (use keeps in auto)
  show ?thesis
  proof (cases res)
    case (Inl e)
    with False made n w1 show ?thesis by (auto simp: engine_NewTarget_def)
  next
    case (Inr g)
    note new = new_group [OF world_okD(1) [OF ok] n [unfolded Inr]]
    show ?thesis
    proof (cases "target_New (Some (w_done w)) (Some g) (Some h) cfg")
      case (Inl e)
      obtain ge d2 where c: "g_Close P g d = (ge, d2)" by (cases "g_Close P g d")
      have "inv d" using keeps by blast
      note eff = close_effect [OF this c]
      have "world_ok (w\<lparr>w_dplane := d, w_dplane := d2\<rparr>)"
        by (rule world_upd_dplane [OF w1]) (use eff in auto)
      with False made n Inr Inl c show ?thesis by (auto simp: engine_NewTarget_def)
    next
      case t: (Inr t)
      note tn = target_New_inv [OF t]
      have name: "t_name t = tc_Name cfg" "t_done t = w_done w"
        using t by (auto simp: target_New_def split: sum.splits)
      have "switch_ok t d"
        using new keeps tn by (simp add: switch_ok_def)
      moreover have "t_group (w_tgt w i) \<noteq> t_group t" if "i < w_ntgt w" for i
        using world_okD(5) [OF ok that] new tn(3) by auto
      ultimately have "world_ok ((w\<lparr>w_dplane := d\<rparr>)\<lparr>w_tgt := (w_tgt w)(w_ntgt w := t), w_ntgt := Suc (w_ntgt w),
          w_targets := AList.update (t_name t) (w_ntgt w) (w_targets w),
          w_lastSeen := AList.update (t_name t) now (w_lastSeen w)\<rparr>)"
        using world_add_target [OF w1 tn(1,2), of now] False name by simp
      then show ?thesis using False made n Inr t by (auto simp: engine_NewTarget_def Let_def)
    qed
  qed
qed

lemma engine_DelTarget_ok: "world_ok w \<Longrightarrow> world_ok (snd (engine_DelTarget name w))"
  by (auto simp: engine_DelTarget_def world_ok_def tables_ok_def stores_ok_def apart_def
      split: option.split)

lemma engine_DelFrontend_ok: "world_ok w \<Longrightarrow> world_ok (snd (engine_DelFrontend name w))"
  by (auto simp: engine_DelFrontend_def world_ok_def tables_ok_def stores_ok_def apart_def
      split: option.split)

lemma add_one_effect:
  assumes i: "inv d" and e: "g_AddMappings P g [m] d = (r, d')"
  shows "inv d' \<and> allocated d' = allocated d \<and> same_switch h d d'
    \<and> (h \<noteq> g \<or> k \<noteq> src_key m \<or> r \<noteq> None \<longrightarrow> same_key h k d d')
    \<and> (r = None \<longrightarrow> table d g (src_key m) = None \<and> table d' g (src_key m) = Some m)"
proof -
  have e': "g_exec P (GAdd [m]) g d = (r, d')" using e by simp
  have "enabled d' h = enabled d h \<and> (h \<noteq> g \<or> k \<noteq> src_key m \<or> r \<noteq> None \<longrightarrow> table d' h k = table d h k)"
  proof (cases "h = g")
    case False
    then show ?thesis using call_other [OF i e'] by simp
  next
    case True
    then show ?thesis using call_done [OF i, of "GAdd [m]" g d'] call_failed [OF i, of "GAdd [m]" g _ d'] e
      by (cases r) auto
  qed
  moreover have "r = None \<Longrightarrow> table d g (src_key m) = None \<and> table d' g (src_key m) = Some m"
    using call_done [OF i, of "GAdd [m]" g d'] add_fresh [OF i, of "[m]" g d' m] e by simp
  ultimately show ?thesis using call_inv [OF i e'] call_frame [OF i e'] by (auto simp: same_group_defs)
qed

lemma world_add_fe:
  assumes ok: "world_ok w" and ti: "f_target f < w_ntgt w" and f: "frontend_inv p f"
    and add: "g_AddMappings P (t_group (w_tgt w (f_target f))) [f_mapping f] (w_dplane w) = (None, d')"
    and fin: "w_done w \<Longrightarrow> f_done f"
  shows "world_ok (w\<lparr>w_dplane := d', w_fe := (w_fe w)(w_nfe w := f), w_nfe := Suc (w_nfe w),
      w_frontends := AList.update (f_name f) (w_nfe w) (w_frontends w)\<rparr>)" (is "world_ok ?w")
proof -
  let ?g = "t_group (w_tgt w (f_target f))" and ?k = "src_key (f_mapping f)"
  note eff = add_one_effect [OF world_okD(1) [OF ok] add]
  have less: "i < w_nfe ?w \<longleftrightarrow> i < w_nfe w \<or> i = w_nfe w" for i by (simp add: less_Suc_eq)
  have stores: "stores_ok w" by (rule world_okD(3) [OF ok])
  have "tables_ok ?w"
    using world_okD(2) [OF ok] by (auto simp: tables_ok_def less_Suc_eq split: if_splits)
  moreover have "stores_ok ?w"
    using stores ti f fin by (auto simp: stores_ok_def less_Suc_eq)
  moreover have "switch_ok (w_tgt w i) d'" if "i < w_ntgt w" for i
    using switch_ok_other [OF world_okD(4) [OF ok that]] eff world_okD(5) [OF ok that] by simp
  moreover have apart_new: "src_key (f_mapping (w_fe w j)) \<noteq> ?k"
    if j: "j < w_nfe w" and same: "f_target (w_fe w j) = f_target f" "f_binds (w_fe w j)" "usable d' ?g" for j
  proof -
    have "usable (w_dplane w) ?g" using eff same(3) by (auto simp: same_switch_def)
    then have "table (w_dplane w) ?g (src_key (f_mapping (w_fe w j))) \<noteq> None"
      using world_okD(7) [OF ok j] same by (simp add: bound_def)
    with eff show ?thesis by auto
  qed
  moreover have "bound (w_tgt w (f_target (w_fe ?w j))) d' (w_fe ?w j)" if j: "j < w_nfe ?w" for j
  proof (cases "j = w_nfe w")
    case True
    then show ?thesis using eff by (simp add: bound_def)
  next
    case False
    then have j': "j < w_nfe w" "w_fe ?w j = w_fe w j" using j by (simp_all add: less_Suc_eq)
    have "same_key (t_group (w_tgt w (f_target (w_fe w j)))) (src_key (f_mapping (w_fe w j))) (w_dplane w) d'"
      if b: "f_binds (w_fe w j)" "usable d' (t_group (w_tgt w (f_target (w_fe w j))))"
    proof (cases "f_target (w_fe w j) = f_target f")
      case True
      with apart_new [OF j'(1) _ b(1)] b(2) eff show ?thesis by simp
    next
      case False
      then have "t_group (w_tgt w (f_target (w_fe w j))) \<noteq> ?g"
        using stores ti world_okD(6) [OF ok j'(1)] unfolding stores_ok_def by blast
      with eff show ?thesis by blast
    qed
    with world_okD(7) [OF ok j'(1)] show ?thesis unfolding j'(2) bound_def same_key_def by metis
  qed
  moreover have "apart ?w i j" if ij: "i < w_nfe ?w" "j < w_nfe ?w" "i \<noteq> j" for i j
  proof (cases "i = w_nfe w \<or> j = w_nfe w")
    case True
    with ij apart_new [of i] apart_new [of j] show ?thesis
      unfolding less by (auto simp: apart_def Let_def)
  next
    case False
    then have "i < w_nfe w" "j < w_nfe w" using ij unfolding less by auto
    moreover from this have "apart w i j" using ok ij by (simp add: world_ok_def)
    ultimately show ?thesis using eff False by (auto simp: apart_def Let_def same_switch_def)
  qed
  ultimately show ?thesis using eff by (simp add: world_ok_def)
qed

lemma engine_NewFrontend_ok:
  assumes ok: "world_ok w"
  shows "world_ok (snd (engine_NewFrontend P cfg made herr w))"
proof (cases "snd (engine_NewFrontend P cfg made herr w) = w")
  case True
  with ok show ?thesis by simp
next
  case False
  let ?name = "ref_Name (fc_Endpoint cfg)"
  obtain ti where ti: "map_of (w_targets w) (ref_Namespace (fc_Endpoint cfg)) = Some ti"
    using False by (auto simp: engine_NewFrontend_def split: if_splits option.splits)
  then have less: "ti < w_ntgt w" using world_okD(2) [OF ok] by (simp add: tables_ok_def)
  define t where "t = w_tgt w ti"
  obtain h ep where pre: "\<not> w_closed w" "map_of (w_frontends w) (fc_Name cfg) = None" "t_state t \<noteq> Closed"
      "engine_FrontendKind (ref_String (fc_Kind cfg)) w \<noteq> None" "made = Inr h" "target_Endpoint ?name t = Some ep"
    using False ti by (auto simp: engine_NewFrontend_def t_def Let_def split: if_splits sum.splits option.splits)
  obtain res d where n: "frontend_New P (Some (w_done w)) (Some (ti, t)) ep (Some h) cfg (w_dplane w) = (res, d)"
    by (cases "frontend_New P (Some (w_done w)) (Some (ti, t)) ep (Some h) cfg (w_dplane w)")
  define m where "m = \<lparr>m_Source = fc_Listen cfg, m_Destination = e_Address ep,
    m_Timeout = fc_FlowTimeout cfg, m_Protocol = fc_Protocol cfg\<rparr>"
  obtain r d1 where a: "g_AddMappings P (t_group t) [m] (w_dplane w) = (r, d1)"
    by (cases "g_AddMappings P (t_group t) [m] (w_dplane w)")
  note eff = add_one_effect [OF world_okD(1) [OF ok] a]
  show ?thesis
  proof (cases r)
    case (Some e)
    have "world_ok (w\<lparr>w_dplane := d1\<rparr>)"
      by (rule world_upd_dplane [OF ok]) (use eff Some in auto)
    moreover have "res = Inl (FeBind e)" "d = d1" using n a Some by (auto simp: frontend_New_def m_def)
    ultimately show ?thesis using pre ti n by (auto simp: engine_NewFrontend_def t_def)
  next
    case None
    then obtain f where f: "res = Inr f" "d = d1" "f_mapping f = m" "f_target f = ti" "f_done f = w_done w"
      using n a by (auto simp: frontend_New_def m_def)
    have "world_ok (w\<lparr>w_dplane := d1, w_fe := (w_fe w)(w_nfe w := f), w_nfe := Suc (w_nfe w),
        w_frontends := AList.update (f_name f) (w_nfe w) (w_frontends w)\<rparr>)"
      by (rule world_add_fe [OF ok _ frontend_New_inv(1) [OF n [unfolded f(1)]]])
        (use f a None less in \<open>simp_all add: t_def\<close>)
    then show ?thesis using pre ti n f by (auto simp: engine_NewFrontend_def t_def Let_def)
  qed
qed

lemma engine_exec_ok: "world_ok w \<Longrightarrow> world_ok (engine_exec P c w)"
  by (cases c) (simp_all add: engine_NewTarget_ok engine_DelTarget_ok engine_NewFrontend_ok
      engine_DelFrontend_ok engine_Close_ok engine_AddTargetKind_def engine_DelTargetKind_def
      engine_AddFrontendKind_def engine_DelFrontendKind_def)

lemma world_dclose_ok:
  assumes ok: "world_ok w"
  shows "world_ok (w\<lparr>w_dplane := snd (dp_Close P (w_dplane w))\<rparr>)"
proof -
  obtain r d where e: "dp_Close P (w_dplane w) = (r, d)" by (cases "dp_Close P (w_dplane w)")
  show ?thesis
    by (rule world_upd_dplane [OF ok]) (use dp_close [OF world_okD(1) [OF ok] e] in \<open>auto simp: e same_group_defs\<close>)
qed

lemma world_step_ok: "world_step P w w' \<Longrightarrow> world_ok w \<Longrightarrow> world_ok w'"
  by (cases rule: world_step.cases, assumption)
    (simp_all add: engine_exec_ok world_dclose_ok world_cancel_ok engine_loop_ok world_step_tloop world_step_tapi
      world_step_floop world_step_fapi)

lemma engine_New_ok: "inv d0 \<Longrightarrow> world_ok (engine_New pd tgt0 fe0 d0)"
  by (simp add: engine_New_def world_ok_def tables_ok_def stores_ok_def)

lemma world_reach_ok:
  assumes "world_reach P d0 w" and "inv d0"
  shows "world_ok w"
  using assms by (induction rule: world_reach.induct) (simp_all add: engine_New_ok world_step_ok)

end

end
