(* ===== verification/Engine_Spec.thy ===== *)
theory Engine_Spec
  imports Engine_Inv Frontend_Spec
begin

text \<open>
  The properties of the engine over the connft dataplane, in every world that any interleaving of its
  callers, its loop, and the loops of its targets and frontends can reach.
\<close>

declare target_Warm.simps [simp del] target_Drain.simps [simp del]
  split_paired_All [simp del] split_paired_Ex [simp del]

section \<open>Reachable worlds\<close>

definition engine_reach :: "'n nft_ops \<Rightarrow> 'n connft world \<Rightarrow> bool" where
  "engine_reach K w \<longleftrightarrow> (\<exists>name n d n'. connft_New K name n = (Inr d, n') \<and> world_reach (connft_dataplane K) d w)"

lemma engine_reach_ok: "engine_reach K w \<Longrightarrow> cdp.world_ok w"
  unfolding engine_reach_def by (metis cdp.world_reach_ok dp_reach_inv dp_reach.init)

lemma engine_reach_inv: "engine_reach K w \<Longrightarrow> connft_inv (w_dplane w)"
  using cdp.world_okD(1) [OF engine_reach_ok] .

lemma engine_reach_step:
  "engine_reach K w \<Longrightarrow> world_step (connft_dataplane K) w w' \<Longrightarrow> engine_reach K w'"
  unfolding engine_reach_def by (meson world_reach.step)

lemma engine_reach_exec: "engine_reach K w \<Longrightarrow> engine_reach K (engine_exec (connft_dataplane K) c w)"
  by (rule engine_reach_step [OF _ world_step.call])

lemma bound_mapping:
  assumes ok: "cdp.world_ok w" and j: "j < w_nfe w" and b: "f_binds (w_fe w j)"
    and u: "\<not> unusable (w_dplane w) (t_group (w_tgt w (f_target (w_fe w j))))"
  shows "f_mapping (w_fe w j) \<in> set (group_Mappings (t_group (w_tgt w (f_target (w_fe w j)))) (w_dplane w))"
proof -
  let ?g = "t_group (w_tgt w (f_target (w_fe w j)))"
  have live: "live (w_dplane w) ?g" using u by (simp add: unusable_def live_def)
  have "cg_table (w_dplane w) ?g (src_key (f_mapping (w_fe w j))) = Some (f_mapping (w_fe w j))"
    using cdp.world_okD(7) [OF ok j] b live by (simp add: cdp.bound_def)
  then show ?thesis
    using live unfolding inv_mappings [OF cdp.world_okD(1) [OF ok]] by (simp add: holds_def cg_table_def)
qed

text \<open>A world with a target and a frontend on it, over a connection that accepts every request.\<close>

definition demo_calls :: "engine_call list" where
  "demo_calls = [CallAddTargetKind ''static:none'' (Some 0), CallAddFrontendKind ''static:always'' (Some 0),
     CallNewTarget (demo_target_cfg\<lparr>tc_Endpoints := tc_Endpoints demo_target_cfg @
       [\<lparr>ep_Name = ''alt'', ep_Protocol = ProtocolTCP, ep_Address = \<lparr>ap_addr = IP4 0x0A000002, ap_port = 8081\<rparr>\<rparr>]\<rparr>)
       (Inr 0) None 0 5,
     CallNewFrontend demo_frontend_cfg (Inr 1) None]"

definition demo_world :: "flow list connft world" where
  "demo_world = foldl (\<lambda>w c. engine_exec (connft_dataplane accepting_nft) c w)
     (engine_New False demo_target demo_frontend demo_dplane) demo_calls"

lemma engine_reach_calls:
  "engine_reach K w \<Longrightarrow> engine_reach K (foldl (\<lambda>w c. engine_exec (connft_dataplane K) c w) w cs)"
  by (induction cs arbitrary: w) (simp_all add: engine_reach_exec)

lemma engine_reach_init: "connft_New K name n = (Inr d, n') \<Longrightarrow> engine_reach K (engine_New pd t f d)"
  unfolding engine_reach_def using world_reach.init by metis

lemma demo_world_reach: "engine_reach accepting_nft demo_world"
  unfolding demo_world_def by (intro engine_reach_calls engine_reach_init [OF demo_dplane_New])

lemma demo_world_values:
  "w_ntgt demo_world = 1" "w_nfe demo_world = 1" "w_closed demo_world = False"
  "w_targets demo_world = [(''web'', 0)]" "w_lastSeen demo_world = [(''web'', 5)]"
  "w_frontends demo_world = [(''fe'', 0)]"
  "t_state (w_tgt demo_world 0) = Inactive" "t_group (w_tgt demo_world 0) = 0" "t_name (w_tgt demo_world 0) = ''web''"
  "f_pc (w_fe demo_world 0) = FSelect" "f_target (w_fe demo_world 0) = 0" "f_mapping (w_fe demo_world 0) = demo_mapping"
  "unusable (w_dplane demo_world) 0 = False"
  by code_simp+

definition demo_pair :: "flow list connft world" where
  "demo_pair = engine_exec (connft_dataplane accepting_nft) (CallNewFrontend (demo_frontend_cfg\<lparr>fc_Name := ''fe2'',
     fc_Listen := \<lparr>ap_addr = IP4 0x0A000001, ap_port = 81\<rparr>, fc_Endpoint := \<lparr>ref_Namespace = ''web'', ref_Name = ''alt''\<rparr>\<rparr>) (Inr 2) None) demo_world"

lemma demo_pair_reach: "engine_reach accepting_nft demo_pair"
  unfolding demo_pair_def by (rule engine_reach_exec [OF demo_world_reach])

lemma demo_pair_values:
  "w_nfe demo_pair = 2" "f_pc (w_fe demo_pair 0) = FSelect" "f_pc (w_fe demo_pair 1) = FSelect"
  "f_target (w_fe demo_pair 0) = 0" "f_target (w_fe demo_pair 1) = 0" "t_group (w_tgt demo_pair 0) = 0"
  "unusable (w_dplane demo_pair) 0 = False"
  by code_simp+

section \<open>Frontends and the dataplane\<close>

text \<open>
  While the group of its target is open, a frontend that has not ended has its mapping in it, and
  that mapping is switched on when the target is active and off when it is inactive, as long as the
  target reports no error.
\<close>

theorem frontend_is_bound:
  assumes "engine_reach K w" and "j < w_nfe w" and "f_binds (w_fe w j)"
    and "t = w_tgt w (f_target (w_fe w j))" and "\<not> unusable (w_dplane w) (t_group t)"
  shows "f_mapping (w_fe w j) \<in> set (group_Mappings (t_group t) (w_dplane w))
    \<and> (t_err t = None \<longrightarrow> (t_state t = Active \<longrightarrow> group_IsEnabled (t_group t) (w_dplane w))
        \<and> (t_state t = Inactive \<longrightarrow> \<not> group_IsEnabled (t_group t) (w_dplane w)))"
proof -
  note ok = engine_reach_ok [OF assms(1)]
  have "cdp.switch_ok t (w_dplane w)"
    unfolding assms(4) by (rule cdp.world_okD(4) [OF ok cdp.world_okD(6) [OF ok assms(2)]])
  moreover have "live (w_dplane w) (t_group t)" using assms(5) by (simp add: unusable_def live_def)
  ultimately show ?thesis
    using bound_mapping [OF ok assms(2,3)] assms(4,5)
    by (simp add: cdp.switch_ok_def group_IsEnabled_def cg_isEnabled_def)
qed

theorem frontend_is_bound_witness:
  "demo_mapping \<in> set (group_Mappings 0 (w_dplane demo_world))"
  using frontend_is_bound [OF demo_world_reach, of 0 "w_tgt demo_world 0"] demo_world_values
  by (simp add: f_binds_def)

text \<open>
  C22. Two frontends that have not ended never listen on overlapping addresses, whichever targets they
  belong to, while the groups of both are open.
\<close>

theorem frontends_disjoint:
  assumes "engine_reach K w" and "i < w_nfe w" and "j < w_nfe w" and "i \<noteq> j"
    and "f_binds (w_fe w i)" and "f_binds (w_fe w j)"
    and "\<not> unusable (w_dplane w) (t_group (w_tgt w (f_target (w_fe w i))))"
    and "\<not> unusable (w_dplane w) (t_group (w_tgt w (f_target (w_fe w j))))"
  shows "\<not> mapping_Overlaps (f_mapping (w_fe w i)) (f_mapping (w_fe w j))"
proof
  assume over: "mapping_Overlaps (f_mapping (w_fe w i)) (f_mapping (w_fe w j))"
  note ok = engine_reach_ok [OF assms(1)]
  let ?g = "\<lambda>i. t_group (w_tgt w (f_target (w_fe w i)))"
  have eq: "?g i = ?g j \<and> f_mapping (w_fe w i) = f_mapping (w_fe w j)"
    by (rule inv_disjoint [OF cdp.world_okD(1) [OF ok] bound_mapping [OF ok assms(2,5,7)]
          bound_mapping [OF ok assms(3,6,8)] over])
  then have "f_target (w_fe w i) = f_target (w_fe w j)"
    using cdp.world_okD(3) [OF ok] cdp.world_okD(6) [OF ok assms(2)] cdp.world_okD(6) [OF ok assms(3)]
    by (auto simp: stores_ok_def)
  moreover have "cdp.apart w i j" using ok assms(2-4) by (simp add: cdp.world_ok_def)
  moreover have "live (w_dplane w) (?g i)" using assms(7) by (simp add: unusable_def live_def)
  ultimately show False using eq assms(5,6) by (simp add: cdp.apart_def Let_def)
qed

theorem frontends_disjoint_witness:
  "\<not> mapping_Overlaps (f_mapping (w_fe demo_pair 0)) (f_mapping (w_fe demo_pair 1))"
  using frontends_disjoint [OF demo_pair_reach, of 0 1] demo_pair_values by (simp add: f_binds_def)

section \<open>Idle targets\<close>

text \<open>The target after \<open>Drain\<close> has been accepted while it was active.\<close>

definition drain_requested :: "target \<Rightarrow> target" where
  "drain_requested t = t\<lparr>t_err := None, t_state := Draining, t_requests := [Draining]\<rparr>"

definition overdue :: "int \<Rightarrow> string \<Rightarrow> target \<Rightarrow> 'd world \<Rightarrow> bool" where
  "overdue ts n t w \<longleftrightarrow> time_Sub ts (last_seen n w) > sint (ttl_ToDuration (t_timeout t))"

definition polled :: "gid list \<Rightarrow> int \<Rightarrow> string \<Rightarrow> target \<Rightarrow> 'd world \<Rightarrow> target \<times> int option" where
  "polled stale ts n t w =
     (if t_group t \<notin> set stale then (t, Some ts)
      else (if overdue ts n t w \<and> t_state t = Active then drain_requested t else t, map_of (w_lastSeen w) n))"

lemma target_Drain_result:
  "(t_state t = Active \<longrightarrow> t_requests t = []) \<Longrightarrow>
    \<exists>b. target_Drain t = Some (b, if t_state t = Active then drain_requested t else t)"
  by (cases "t_state t") (auto simp: target_Drain.simps target_request_def chan_send_def drain_requested_def)

lemma detect_targets_exact:
  assumes "distinct (map fst xs)" and "distinct (map snd xs)"
    and "\<And>n i. (n, i) \<in> set xs \<Longrightarrow> t_state (w_tgt w i) = Active \<longrightarrow> t_requests (w_tgt w i) = []"
  shows "\<exists>tgt seen. detect_targets xs stale ts w = Some (w\<lparr>w_tgt := tgt, w_lastSeen := seen\<rparr>)
    \<and> (\<forall>(n, i) \<in> set xs. (tgt i, map_of seen n) = polled stale ts n (w_tgt w i) w)
    \<and> (\<forall>i. i \<notin> snd ` set xs \<longrightarrow> tgt i = w_tgt w i)
    \<and> (\<forall>n. n \<notin> fst ` set xs \<longrightarrow> map_of seen n = map_of (w_lastSeen w) n)"
  using assms
proof (induction xs arbitrary: w)
  case Nil
  have "w = w\<lparr>w_tgt := w_tgt w, w_lastSeen := w_lastSeen w\<rparr>" by simp
  then show ?case by (intro exI [of _ "w_tgt w"] exI [of _ "w_lastSeen w"]) simp
next
  case (Cons x xs)
  obtain n i where x: "x = (n, i)" by (cases x)
  let ?t = "w_tgt w i"
  obtain b where dr: "target_Drain ?t = Some (b, if t_state ?t = Active then drain_requested ?t else ?t)"
    using target_Drain_result [of ?t] Cons.prems(3) [of n i] by (auto simp: x)
  define w1 where "w1 = (if t_group ?t \<notin> set stale then w\<lparr>w_lastSeen := AList.update n ts (w_lastSeen w)\<rparr>
      else if overdue ts n ?t w then upd_tgt i (if t_state ?t = Active then drain_requested ?t else ?t) w else w)"
  have step: "detect_targets (x # xs) stale ts w = detect_targets xs stale ts w1"
    by (simp add: x w1_def dr overdue_def Let_def)
  have w1: "w_tgt w1 = (w_tgt w)(i := fst (polled stale ts n ?t w))"
    "map_of (w_lastSeen w1) m = (if m = n then snd (polled stale ts n ?t w) else map_of (w_lastSeen w) m)"
    "w1\<lparr>w_tgt := tgt, w_lastSeen := seen\<rparr> = w\<lparr>w_tgt := tgt, w_lastSeen := seen\<rparr>" for m tgt seen
    by (auto simp: w1_def polled_def upd_tgt_def)
  have fresh: "n \<notin> fst ` set xs" "i \<notin> snd ` set xs" using Cons.prems(1,2) by (auto simp: x)
  have other: "polled stale ts m (w_tgt w1 j) w1 = polled stale ts m (w_tgt w j) w" if "(m, j) \<in> set xs" for m j
  proof -
    have "m \<noteq> n" "j \<noteq> i" using that fresh by force+
    then show ?thesis by (simp add: w1 polled_def overdue_def last_seen_def)
  qed
  have "\<exists>tgt seen. detect_targets xs stale ts w1 = Some (w1\<lparr>w_tgt := tgt, w_lastSeen := seen\<rparr>)
    \<and> (\<forall>(n, i) \<in> set xs. (tgt i, map_of seen n) = polled stale ts n (w_tgt w1 i) w1)
    \<and> (\<forall>i. i \<notin> snd ` set xs \<longrightarrow> tgt i = w_tgt w1 i)
    \<and> (\<forall>n. n \<notin> fst ` set xs \<longrightarrow> map_of seen n = map_of (w_lastSeen w1) n)"
  proof (rule Cons.IH)
    show "t_state (w_tgt w1 j) = Active \<longrightarrow> t_requests (w_tgt w1 j) = []" if "(m, j) \<in> set xs" for m j
    proof -
      have "j \<noteq> i" using that fresh by force
      then show ?thesis using Cons.prems(3) [of m j] that by (simp add: w1)
    qed
  qed (use Cons.prems(1,2) in simp_all)
  then obtain tgt seen where ih: "detect_targets xs stale ts w1 = Some (w1\<lparr>w_tgt := tgt, w_lastSeen := seen\<rparr>)"
    "\<forall>(n, i) \<in> set xs. (tgt i, map_of seen n) = polled stale ts n (w_tgt w1 i) w1"
    "\<forall>i. i \<notin> snd ` set xs \<longrightarrow> tgt i = w_tgt w1 i"
    "\<forall>n. n \<notin> fst ` set xs \<longrightarrow> map_of seen n = map_of (w_lastSeen w1) n" by blast
  show ?case
  proof (intro exI conjI)
    show "detect_targets (x # xs) stale ts w = Some (w\<lparr>w_tgt := tgt, w_lastSeen := seen\<rparr>)"
      unfolding step ih(1) w1(3) ..
    show "\<forall>(m, j) \<in> set (x # xs). (tgt j, map_of seen m) = polled stale ts m (w_tgt w j) w"
      using ih(2-4) other fresh by (auto simp: x w1)
  qed (use ih(3,4) in \<open>auto simp: x w1\<close>)
qed

lemma targets_distinct:
  assumes "cdp.world_ok w"
  shows "distinct (map fst (w_targets w))" "distinct (map snd (w_targets w))"
proof -
  have ok: "tables_ok w" by (rule cdp.world_okD(2) [OF assms])
  then show "distinct (map fst (w_targets w))" by (simp add: tables_ok_def gomap_ok_def)
  have "inj_on snd (set (w_targets w))"
    using ok unfolding inj_on_def tables_ok_def by (metis gomap_mem_iff prod.collapse)
  moreover have "distinct (w_targets w)" using \<open>distinct (map fst (w_targets w))\<close> by (simp add: distinct_map)
  ultimately show "distinct (map snd (w_targets w))" by (simp add: distinct_map)
qed

lemma targets_idle:
  assumes "cdp.world_ok w" and "(n, i) \<in> set (w_targets w)"
  shows "t_state (w_tgt w i) = Active \<longrightarrow> t_requests (w_tgt w i) = []"
proof -
  have "i < w_ntgt w"
    using assms(2) cdp.world_okD(2) [OF assms(1)] by (simp add: tables_ok_def gomap_mem_iff)
  then have "target_inv (w_tgt w i)" using cdp.world_okD(3) [OF assms(1)] by (auto simp: stores_ok_def)
  then show ?thesis by (auto simp: target_inv_def)
qed

lemma detectTimeouts_frame:
  assumes "engine_reach K w"
  shows "\<exists>tgt seen. engine_detectTimeouts stale ts w = Some (w\<lparr>w_tgt := tgt, w_lastSeen := seen\<rparr>)"
  unfolding engine_detectTimeouts_def
  using detect_targets_exact [OF targets_distinct [OF engine_reach_ok [OF assms]], where stale = stale and ts = ts]
    targets_idle [OF engine_reach_ok [OF assms]] by blast

text \<open>
  C23. A poll never blocks while it holds the lock of the engine, and does to each registered target
  what its own group and clock say: a target whose group is not stale is seen now; a stale one is asked
  to drain exactly when it is active and has been idle for longer than its timeout.
\<close>

theorem detectTimeouts_exact:
  assumes "engine_reach K w"
  shows "\<exists>tgt seen. engine_detectTimeouts stale ts w = Some (w\<lparr>w_tgt := tgt, w_lastSeen := seen\<rparr>)
    \<and> (\<forall>n i. map_of (w_targets w) n = Some i \<longrightarrow>
         (tgt i, map_of seen n) = polled stale ts n (w_tgt w i) w)
    \<and> (\<forall>i. i \<notin> set (engine_Targets w) \<longrightarrow> tgt i = w_tgt w i)"
proof -
  note ok = engine_reach_ok [OF assms]
  obtain tgt seen where d: "detect_targets (w_targets w) stale ts w = Some (w\<lparr>w_tgt := tgt, w_lastSeen := seen\<rparr>)"
    "\<forall>(n, i) \<in> set (w_targets w). (tgt i, map_of seen n) = polled stale ts n (w_tgt w i) w"
    "\<forall>i. i \<notin> snd ` set (w_targets w) \<longrightarrow> tgt i = w_tgt w i"
    using detect_targets_exact [OF targets_distinct [OF ok], where stale = stale and ts = ts]
      targets_idle [OF ok] by blast
  show ?thesis
  proof (intro exI conjI allI impI)
    show "engine_detectTimeouts stale ts w = Some (w\<lparr>w_tgt := tgt, w_lastSeen := seen\<rparr>)"
      unfolding engine_detectTimeouts_def by (rule d(1))
    show "(tgt i, map_of seen n) = polled stale ts n (w_tgt w i) w" if "map_of (w_targets w) n = Some i" for n i
      using bspec [OF d(2) map_of_SomeD [OF that]] by simp
    show "tgt i = w_tgt w i" if "i \<notin> set (engine_Targets w)" for i
      using d(3) that by (simp add: engine_Targets_def)
  qed
qed

theorem detectTimeouts_exact_witness:
  "\<exists>seen tgt. engine_detectTimeouts [] 9 demo_world = Some (demo_world\<lparr>w_tgt := tgt, w_lastSeen := seen\<rparr>)
     \<and> map_of seen ''web'' = Some 9"
proof -
  obtain tgt seen where d: "engine_detectTimeouts [] 9 demo_world = Some (demo_world\<lparr>w_tgt := tgt, w_lastSeen := seen\<rparr>)"
    "\<forall>n i. map_of (w_targets demo_world) n = Some i \<longrightarrow>
       (tgt i, map_of seen n) = polled [] 9 n (w_tgt demo_world i) demo_world"
    using detectTimeouts_exact [OF demo_world_reach, of "[]" 9] by blast
  have "map_of seen ''web'' = Some 9"
    using d(2) [rule_format, of "''web''" 0] demo_world_values by (simp add: polled_def)
  with d(1) show ?thesis by blast
qed

section \<open>New targets\<close>

lemma mappings_frame:
  assumes "connft_inv d" and "connft_inv d'" and "live d' g \<longleftrightarrow> live d g" and "live d g \<Longrightarrow> cg_table d' g = cg_table d g"
  shows "set (group_Mappings g d') = set (group_Mappings g d)"
  using assms(3,4) by (auto simp: inv_mappings [OF assms(1)] inv_mappings [OF assms(2)] holds_def cg_table_def)

text \<open>
  C24. \<open>NewTarget\<close> registers one new target under its configured name, inactive, on a group of its own
  that is open, empty and switched off, and remembers the time; when it fails no table and no existing
  target changes and no group gains or loses a mapping. The handler the constructor built is closed only
  when \<open>target.New\<close> rejects the configuration: an error of \<open>NewGroup\<close> leaks it.
\<close>

theorem NewTarget_outcome:
  assumes "engine_reach K w" and "engine_NewTarget (connft_dataplane K) cfg made herr now0 now w = (r, w')"
  shows "case r of
      Inr i \<Rightarrow> \<not> w_closed w \<and> map_of (w_targets w) (tc_Name cfg) = None \<and> i = w_ntgt w \<and> w_ntgt w' = Suc i
        \<and> map_of (w_targets w') = (map_of (w_targets w))(tc_Name cfg \<mapsto> i)
        \<and> map_of (w_lastSeen w') = (map_of (w_lastSeen w))(tc_Name cfg \<mapsto> now)
        \<and> w_tgt w' = (w_tgt w)(i := w_tgt w' i) \<and> t_name (w_tgt w' i) = tc_Name cfg
        \<and> t_state (w_tgt w' i) = Inactive \<and> made = Inr (t_handler (w_tgt w' i))
        \<and> \<not> unusable (w_dplane w') (t_group (w_tgt w' i)) \<and> \<not> group_IsEnabled (t_group (w_tgt w' i)) (w_dplane w')
        \<and> group_Mappings (t_group (w_tgt w' i)) (w_dplane w') = []
        \<and> \<not> cg_allocated (w_dplane w) (t_group (w_tgt w' i)) \<and> w_handlerCloses w' = w_handlerCloses w
    | Inl e \<Rightarrow> w_targets w' = w_targets w \<and> w_lastSeen w' = w_lastSeen w \<and> w_tgt w' = w_tgt w
        \<and> w_ntgt w' = w_ntgt w \<and> (\<forall>g. set (group_Mappings g (w_dplane w')) = set (group_Mappings g (w_dplane w)))
        \<and> w_handlerCloses w' = w_handlerCloses w @ (case (e, made) of (EngJoined es, Inr h) \<Rightarrow> [h] | _ \<Rightarrow> [])"
proof -
  note inv = engine_reach_inv [OF assms(1)]
  let ?P = "connft_dataplane K"
  show ?thesis
  proof (cases "w_closed w \<or> map_of (w_targets w) (tc_Name cfg) \<noteq> None
      \<or> engine_GetTargetKind (ref_String (tc_Kind cfg)) w = None \<or> (\<exists>e. made = Inl e)")
    case True
    with assms(2) show ?thesis by (auto simp: engine_NewTarget_def split: if_splits sum.splits)
  next
    case False
    then obtain h where made: "made = Inr h" by (cases made) auto
    obtain res d where n: "NewGroup (tc_Name cfg) now0 (w_dplane w) = (res, d)"
      by (cases "NewGroup (tc_Name cfg) now0 (w_dplane w)")
    then have n': "dp_NewGroup ?P (tc_Name cfg) now0 (w_dplane w) = (res, d)" by (simp add: connft_dataplane_def)
    show ?thesis
    proof (cases res)
      case (Inl e)
      then have "d = w_dplane w" using cdp.new_failed [OF inv] n' by blast
      with assms(2) False made n' Inl show ?thesis by (auto simp: engine_NewTarget_def split: if_splits)
    next
      case (Inr g)
      note new = NewGroup_view [OF inv n [unfolded Inr]] and dinv = NewGroup_inv [OF inv n]
      have open_d: "live d g" using new by blast
      then have use: "\<not> unusable d g" using connft_inv_unusable [OF dinv] by blast
      show ?thesis
      proof (cases "target_New (Some (w_done w)) (Some g) (Some h) cfg")
        case (Inr t)
        have t: "t_name t = tc_Name cfg" "t_state t = Inactive" "t_handler t = h" "t_group t = g"
          using Inr by (auto simp: target_New_def split: sum.splits)
        have empty: "group_Mappings g d = []"
          using inv_mappings [OF dinv, of _ g] new by (cases "group_Mappings g d") (auto simp: holds_def cg_table_def)
        have off: "\<not> group_IsEnabled g d" using new by (simp add: group_IsEnabled_def cg_isEnabled_def)
        show ?thesis using assms(2) False made n' Inr \<open>res = Inr g\<close> t use empty off new
          by (auto simp: engine_NewTarget_def Let_def update_conv' split: if_splits)
      next
        case (Inl e)
        obtain ge d2 where c: "g_Close ?P g d = (ge, d2)" by (cases "g_Close ?P g d")
        have live: "live d2 j \<longleftrightarrow> live (w_dplane w) j" for j
          using cdp.close_usable [OF dinv c, of j] new cdp.usable_allocated [OF inv, of j] by blast
        have "cg_table d2 j = cg_table (w_dplane w) j" if "live (w_dplane w) j" for j
        proof -
          have "j \<noteq> g" using that new cdp.usable_allocated [OF inv] by blast
          then show ?thesis using cdp.close_other [OF dinv c, of j] new by simp
        qed
        note same = mappings_frame [OF inv cdp.close_inv [OF dinv c] live this]
        show ?thesis using assms(2) False made n' Inl \<open>res = Inr g\<close> c same
          by (auto simp: engine_NewTarget_def Let_def split: if_splits)
      qed
    qed
  qed
qed

text \<open>A second target, whose constructor returns handler 7.\<close>

definition demo_second :: "(engine_error + tid) \<times> flow list connft world" where
  "demo_second = engine_NewTarget (connft_dataplane accepting_nft) (demo_target_cfg\<lparr>tc_Name := ''db''\<rparr>)
     (Inr 7) None 0 9 demo_world"

lemma demo_second_result: "fst demo_second = Inr 1"
  by code_simp

theorem NewTarget_outcome_witness:
  "map_of (w_lastSeen (snd demo_second)) ''db'' = Some 9
    \<and> group_Mappings (t_group (w_tgt (snd demo_second) 1)) (w_dplane (snd demo_second)) = []"
proof -
  have "engine_NewTarget (connft_dataplane accepting_nft) (demo_target_cfg\<lparr>tc_Name := ''db''\<rparr>) (Inr 7) None 0 9
      demo_world = (Inr 1, snd demo_second)"
    using demo_second_result by (simp add: demo_second_def prod_eq_iff)
  from NewTarget_outcome [OF demo_world_reach this] show ?thesis by (simp add: demo_world_values)
qed

section \<open>Shutdown\<close>

definition set_tgt :: "tid \<Rightarrow> target \<times> 'd \<Rightarrow> 'd world \<Rightarrow> 'd world" where
  "set_tgt i s w = (upd_tgt i (fst s) w)\<lparr>w_dplane := snd s\<rparr>"

lemma set_tgt_steps:
  assumes "loop_steps (connft_dataplane K) n s s'" and "engine_reach K (set_tgt i s w)" and "i < w_ntgt w"
  shows "engine_reach K (set_tgt i s' w)"
  using assms
proof (induction rule: loop_steps.induct)
  case (more s l s' n s'')
  let ?w = "set_tgt i s w"
  have "world_step (connft_dataplane K) ?w ((upd_tgt i (fst s') ?w)\<lparr>w_dplane := snd s'\<rparr>)"
    by (rule world_step.tloop [where l = l])
      (use more.hyps(1) more.prems(2) in \<open>simp_all add: set_tgt_def upd_tgt_def\<close>)
  moreover have "(upd_tgt i (fst s') ?w)\<lparr>w_dplane := snd s'\<rparr> = set_tgt i s' w"
    by (simp add: set_tgt_def upd_tgt_def)
  ultimately have "engine_reach K (set_tgt i s' w)"
    using engine_reach_step [OF more.prems(1)] by simp
  with more.IH more.prems(2) show ?case by simp
qed simp

definition demo_closed :: "flow list connft world" where
  "demo_closed = foldl (\<lambda>w c. engine_exec (connft_dataplane accepting_nft) c w)
     (engine_New False demo_target demo_frontend demo_dplane)
     [CallAddTargetKind ''static:none'' (Some 0), CallNewTarget demo_target_cfg (Inr 0) None 0 5, CallEngineClose]"

definition demo_end :: "target \<times> flow list connft" where
  "demo_end = (let (t, d) = end_group (connft_dataplane accepting_nft) None
       ((end_begin ((w_tgt demo_closed 0)\<lparr>t_pc := TEnding\<rparr>))\<lparr>t_pc := TCloseGroup None\<rparr>) (w_dplane demo_closed)
     in (end_finish None t, d))"

lemma demo_end_steps:
  "loop_steps (connft_dataplane accepting_nft) 5 (w_tgt demo_closed 0, w_dplane demo_closed) demo_end"
proof -
  let ?P = "connft_dataplane accepting_nft" and ?d = "w_dplane demo_closed"
  let ?t1 = "(w_tgt demo_closed 0)\<lparr>t_pc := TEnding\<rparr>"
  let ?t3 = "(end_begin ?t1)\<lparr>t_pc := TCloseGroup None\<rparr>"
  let ?s4 = "end_group ?P None ?t3 ?d"
  have vals: "t_pc (w_tgt demo_closed 0) = TSelect" "t_done (w_tgt demo_closed 0)"
    "t_pc (fst ?s4) = TSetError None" by code_simp+
  have "target_loop ?P (w_tgt demo_closed 0, ?d) Tau (?t1, ?d)" by (rule target_loop.ctx_done) (simp_all add: vals)
  moreover have "target_loop ?P (?t1, ?d) Tau (end_begin ?t1, ?d)" by (rule target_loop.ending) simp
  moreover have "target_loop ?P (end_begin ?t1, ?d) (HClose None) (?t3, ?d)"
    by (rule target_loop.hclose) (simp add: end_begin_def)
  moreover have "target_loop ?P (?t3, ?d) Tau ?s4" by (rule target_loop.gclose) simp
  moreover have "target_loop ?P ?s4 Tau demo_end"
    using target_loop.finish [of "fst ?s4" None ?P "snd ?s4"] vals(3)
    by (simp add: demo_end_def split_beta)
  ultimately have "loop_steps ?P (Suc (Suc (Suc (Suc (Suc 0))))) (w_tgt demo_closed 0, ?d) demo_end"
    by (blast intro: loop_steps.intros)
  then show ?thesis by (simp add: eval_nat_numeral)
qed

definition demo_ended :: "flow list connft world" where
  "demo_ended = set_tgt 0 demo_end demo_closed"

lemma demo_ended_reach: "engine_reach accepting_nft demo_ended"
proof -
  have "engine_reach accepting_nft demo_closed"
    unfolding demo_closed_def by (intro engine_reach_calls engine_reach_init [OF demo_dplane_New])
  moreover have "set_tgt 0 (w_tgt demo_closed 0, w_dplane demo_closed) demo_closed = demo_closed"
    by (simp add: set_tgt_def upd_tgt_def)
  moreover have "0 < w_ntgt demo_closed" by code_simp
  ultimately show ?thesis using set_tgt_steps [OF demo_end_steps, of 0 demo_closed] by (simp add: demo_ended_def)
qed

lemma demo_ended_values: "engine_Wait_returns demo_ended" "w_ntgt demo_ended = 1" "t_group (w_tgt demo_ended 0) = 0"
  by code_simp+

text \<open>
  C25. When \<open>Wait\<close> returns every target and frontend has been closed and has ended, the group of every
  target has been closed, and so no mapping of any of them is left in the dataplane or switched on.
\<close>

theorem Wait_leaves_nothing:
  assumes "engine_reach K w" and "engine_Wait_returns w" and "i < w_ntgt w"
  shows "t_state (w_tgt w i) = Closed \<and> unusable (w_dplane w) (t_group (w_tgt w i))
    \<and> group_Mappings (t_group (w_tgt w i)) (w_dplane w) = []
    \<and> \<not> group_IsEnabled (t_group (w_tgt w i)) (w_dplane w)
    \<and> (\<forall>j < w_nfe w. f_state (w_fe w j) = FClosed \<and> \<not> f_binds (w_fe w j))"
proof -
  note ok = engine_reach_ok [OF assms(1)]
  have exited: "t_pc (w_tgt w i) = TExited" using assms(2,3) by (simp add: engine_Wait_returns_def list_all_iff)
  have "target_inv (w_tgt w i)" using cdp.world_okD(3) [OF ok] assms(3) by (auto simp: stores_ok_def)
  then have closed: "t_state (w_tgt w i) = Closed"
    using exited by (cases "t_state (w_tgt w i)") (auto simp: target_inv_defs)
  have "\<not> live (w_dplane w) (t_group (w_tgt w i))"
    using cdp.world_okD(4) [OF ok assms(3)] exited by (simp add: cdp.switch_ok_def)
  then have gone: "unusable (w_dplane w) (t_group (w_tgt w i))" by (simp add: unusable_iff)
  have "f_state (w_fe w j) = FClosed \<and> \<not> f_binds (w_fe w j)" if "j < w_nfe w" for j
  proof -
    have pc: "f_pc (w_fe w j) = FExited" using assms(2) that by (simp add: engine_Wait_returns_def list_all_iff)
    obtain p where "frontend_inv p (w_fe w j)" using cdp.world_okD(3) [OF ok] \<open>j < w_nfe w\<close> by (auto simp: stores_ok_def)
    then show ?thesis
      using pc by (cases "f_state (w_fe w j)") (auto simp: frontend_inv_defs f_binds_def)
  qed
  with closed gone show ?thesis by (simp add: group_Mappings_def group_IsEnabled_def)
qed

theorem Wait_leaves_nothing_witness:
  "unusable (w_dplane demo_ended) 0 \<and> group_Mappings 0 (w_dplane demo_ended) = []"
  using Wait_leaves_nothing [OF demo_ended_reach, of 0] demo_ended_values by simp

lemma closed_exec:
  assumes "w_closed w"
  shows "engine_exec P c w = w"
  using assms
  by (cases c) (simp_all add: engine_NewTarget_def engine_DelTarget_def engine_NewFrontend_def
      engine_DelFrontend_def engine_AddTargetKind_def engine_DelTargetKind_def engine_AddFrontendKind_def
      engine_DelFrontendKind_def engine_Close_def)

lemma closed_step:
  assumes "engine_reach K w" and "w_closed w" and "world_step (connft_dataplane K) w w'"
  shows "w_closed w' \<and> w_ntgt w' = w_ntgt w \<and> w_nfe w' = w_nfe w
    \<and> w_targets w' = w_targets w \<and> w_frontends w' = w_frontends w"
  using assms(3)
proof cases
  case eloop
  then show ?thesis
  proof cases
    case (detect stale ts w1)
    obtain tgt seen where "engine_detectTimeouts stale ts w = Some (w\<lparr>w_tgt := tgt, w_lastSeen := seen\<rparr>)"
      using detectTimeouts_frame [OF assms(1)] by blast
    with detect assms(2) show ?thesis by auto
  qed (use assms(2) in \<open>auto simp: engine_poll_def engine_Close_def split: prod.split sum.split\<close>)
qed (simp_all add: assms(2) closed_exec world_cancel_def upd_tgt_def upd_fe_def)

text \<open>
  C26. Once the engine is closed no call changes anything, whatever else happens it stays closed, no
  target or frontend is added or forgotten, and the contexts of all of them are done.
\<close>

theorem closed_engine_is_final:
  assumes "engine_reach K w" and "w_closed w"
  shows "engine_exec P c w = w \<and> (\<forall>i < w_ntgt w. t_done (w_tgt w i)) \<and> (\<forall>j < w_nfe w. f_done (w_fe w j))
    \<and> (world_step (connft_dataplane K) w w' \<longrightarrow> w_closed w' \<and> w_ntgt w' = w_ntgt w \<and> w_nfe w' = w_nfe w
         \<and> w_targets w' = w_targets w \<and> w_frontends w' = w_frontends w)"
proof -
  have "w_done w" "w_done w \<longrightarrow> (\<forall>i < w_ntgt w. t_done (w_tgt w i)) \<and> (\<forall>j < w_nfe w. f_done (w_fe w j))"
    using cdp.world_okD(3) [OF engine_reach_ok [OF assms(1)]] assms(2) by (simp_all add: stores_ok_def)
  then show ?thesis using closed_exec [OF assms(2)] closed_step [OF assms] by blast
qed

theorem closed_engine_is_final_witness:
  "engine_exec (connft_dataplane accepting_nft) (CallNewTarget demo_target_cfg (Inr 0) None 0 5) demo_ended = demo_ended"
proof -
  have "w_closed demo_ended" by code_simp
  from closed_engine_is_final [OF demo_ended_reach this] show ?thesis by blast
qed

section \<open>Where the engine falls short of its documentation\<close>

text \<open>
  \<open>Wait\<close> is documented to block until shutdown has been requested, but it only joins what has been
  created: on an engine without targets and frontends it returns at once.
\<close>

lemma Wait_returns_when_empty: "engine_Wait_returns (engine_New False t f d)"
  by (simp add: engine_Wait_returns_def engine_New_def)

text \<open>
  A handler that \<open>NewFrontend\<close> has constructed is neither used nor closed when the endpoint does not
  exist; one that \<open>NewTarget\<close> has constructed neither when the group cannot be opened.
\<close>

lemma NewFrontend_leaks_handler:
  assumes "\<not> w_closed w" and "map_of (w_frontends w) (fc_Name cfg) = None"
    and "map_of (w_targets w) (ref_Namespace (fc_Endpoint cfg)) = Some i" and "t_state (w_tgt w i) \<noteq> Closed"
    and "engine_FrontendKind (ref_String (fc_Kind cfg)) w \<noteq> None"
    and "target_Endpoint (ref_Name (fc_Endpoint cfg)) (w_tgt w i) = None"
  shows "engine_NewFrontend P cfg (Inr h) herr w =
    (Inl (EngNoEndpoint (ref_Name (fc_Endpoint cfg)) (ref_Namespace (fc_Endpoint cfg))), w)"
  using assms by (auto simp: engine_NewFrontend_def Let_def)

lemma NewTarget_leaks_handler:
  assumes "\<not> w_closed w" and "map_of (w_targets w) (tc_Name cfg) = None"
    and "engine_GetTargetKind (ref_String (tc_Kind cfg)) w \<noteq> None"
    and "dp_NewGroup P (tc_Name cfg) now0 (w_dplane w) = (Inl e, d)"
  shows "engine_NewTarget P cfg (Inr h) herr now0 now w = (Inl (EngFlowGroup e), w\<lparr>w_dplane := d\<rparr>)"
  using assms by (auto simp: engine_NewTarget_def)

end
