(* ===== verification/Nft_Kernel.thy ===== *)
theory Nft_Kernel
  imports Connft
begin

text \<open>
  What the dataplane relies on from nftables, which is not part of the repository: a connection
  queues requests and a flush commits them together or not at all. \<open>nft_documented\<close> states that
  of a connection \<open>K\<close> seen through two observers, the queue and the committed table; it is the
  hypothesis of every theorem about the kernel's side. A reference connection shows that the
  hypothesis can hold, with flushes that fail as well as ones that succeed.
\<close>

section \<open>The table of the dataplane\<close>

type_synonym elements = "dnat_set \<Rightarrow> byte list \<Rightarrow> byte list option"

record nft_table =
  nt_elems :: elements
  nt_rules :: "nft_rule list"

definition empty_table :: nft_table where
  "empty_table = \<lparr>nt_elems = (\<lambda>_ _. None), nt_rules = []\<rparr>"

definition put_element :: "dnat_set \<times> set_element \<Rightarrow> elements \<Rightarrow> elements" where
  "put_element x E = E(fst x := (E (fst x))(se_Key (snd x) \<mapsto> se_Val (snd x)))"

definition drop_element :: "dnat_set \<times> set_element \<Rightarrow> elements \<Rightarrow> elements" where
  "drop_element x E = E(fst x := (E (fst x))(se_Key (snd x) := None))"

text \<open>The effect of a committed request on the elements of the maps and on the rules.\<close>

fun apply_msg :: "nft_msg \<Rightarrow> nft_table \<Rightarrow> nft_table" where
  "apply_msg (DelTable _) t = empty_table"
| "apply_msg (AddRule r) t = t\<lparr>nt_rules := nt_rules t @ [r]\<rparr>"
| "apply_msg (DelRule r) t = t\<lparr>nt_rules := remove1 r (nt_rules t)\<rparr>"
| "apply_msg (SetAddElements s es) t = t\<lparr>nt_elems := fold put_element (map (Pair s) es) (nt_elems t)\<rparr>"
| "apply_msg (SetDeleteElements s es) t = t\<lparr>nt_elems := fold drop_element (map (Pair s) es) (nt_elems t)\<rparr>"
| "apply_msg _ t = t"

definition apply_batch :: "nft_msg list \<Rightarrow> nft_table \<Rightarrow> nft_table" where
  "apply_batch = fold apply_msg"

lemma apply_batch_simps [simp]:
  "apply_batch [] t = t" "apply_batch (msg # msgs) t = apply_batch msgs (apply_msg msg t)"
  "apply_batch (xs @ ys) t = apply_batch ys (apply_batch xs t)"
  by (simp_all add: apply_batch_def)

section \<open>The documented behaviour\<close>

text \<open>
  \<open>may_refuse\<close>: the requests whose library call has an error result that the code can meet: a
  set whose declaration does not marshal, and a rule without a handle.
\<close>

fun may_refuse :: "nft_msg \<Rightarrow> bool" where
  "may_refuse (AddSet _ _ _) = True"
| "may_refuse (DelRule _) = True"
| "may_refuse _ = False"

record 'n nft_view =
  nv_queue :: "'n \<Rightarrow> nft_msg list"
  nv_table :: "'n \<Rightarrow> nft_table"

definition same_table :: "'n nft_view \<Rightarrow> 'n \<Rightarrow> 'n \<Rightarrow> bool" where
  "same_table V n n' \<longleftrightarrow> nv_queue V n' = nv_queue V n \<and> nv_table V n' = nv_table V n"

definition call_documented :: "'n nft_ops \<Rightarrow> 'n nft_view \<Rightarrow> bool" where
  "call_documented K V \<longleftrightarrow> (\<forall>msg n r n'. nft_Call K msg n = (r, n') \<longrightarrow>
     nv_table V n' = nv_table V n
     \<and> nv_queue V n' = (if r = None then nv_queue V n @ [msg] else nv_queue V n)
     \<and> (\<not> may_refuse msg \<longrightarrow> r = None))"

text \<open>
  A flush empties the queue whatever it answers. \<open>ENOENT\<close> as the answer to the removal of the
  table says that there was none.
\<close>

definition flush_documented :: "'n nft_ops \<Rightarrow> 'n nft_view \<Rightarrow> bool" where
  "flush_documented K V \<longleftrightarrow> (\<forall>n r n'. nft_Flush K n = (r, n') \<longrightarrow>
     nv_queue V n' = []
     \<and> nv_table V n' = (if r = None then apply_batch (nv_queue V n) (nv_table V n) else nv_table V n)
     \<and> (r = Some ENOENT \<longrightarrow> (\<forall>t. nv_queue V n = [DelTable t] \<longrightarrow> nv_table V n = empty_table)))"

definition list_documented :: "'n nft_ops \<Rightarrow> 'n nft_view \<Rightarrow> bool" where
  "list_documented K V \<longleftrightarrow> (\<forall>name n r present n'. nft_ListTable K name n = (r, present, n') \<longrightarrow>
     same_table V n n'
     \<and> (r = Some ENOENT \<or> r = None \<and> \<not> present \<longrightarrow> nv_table V n = empty_table))"

definition nft_documented :: "'n nft_ops \<Rightarrow> 'n nft_view \<Rightarrow> bool" where
  "nft_documented K V \<longleftrightarrow> call_documented K V \<and> flush_documented K V \<and> list_documented K V
     \<and> (\<forall>n. same_table V n (snd (ct_DumpFilter K n))) \<and> (\<forall>n. same_table V n (ct_Close K n))"

section \<open>A reference connection\<close>

text \<open>
  The state of the connection is the queue, the table and the answers the next flushes give;
  a flush for which no answer is left succeeds. A table of an earlier run is always there.
\<close>

record ref_nft =
  rn_queue :: "nft_msg list"
  rn_table :: nft_table
  rn_answers :: "string option list"

definition ref_flush :: "ref_nft \<Rightarrow> nft_error option \<times> ref_nft" where
  "ref_flush n =
     (let n' = n\<lparr>rn_queue := [], rn_answers := tl (rn_answers n)\<rparr>
      in case rn_answers n of
           Some e # _ \<Rightarrow> (Some (NftErr e), n')
         | _ \<Rightarrow> (None, n'\<lparr>rn_table := apply_batch (rn_queue n) (rn_table n)\<rparr>))"

definition ref_ops :: "ref_nft nft_ops" where
  "ref_ops = \<lparr>nft_Call = (\<lambda>msg n. (None, n\<lparr>rn_queue := rn_queue n @ [msg]\<rparr>)),
     nft_Flush = ref_flush, nft_ListTable = (\<lambda>_ n. (None, True, n)),
     ct_DumpFilter = (\<lambda>n. (Inr [], n)), ct_Close = (\<lambda>n. n)\<rparr>"

definition ref_view :: "ref_nft nft_view" where
  "ref_view = \<lparr>nv_queue = rn_queue, nv_table = rn_table\<rparr>"

lemma ref_documented: "nft_documented ref_ops ref_view"
  by (auto simp: nft_documented_def call_documented_def flush_documented_def list_documented_def
        same_table_def ref_ops_def ref_view_def ref_flush_def Let_def
        split: list.splits option.splits)

section \<open>Requests and flushes of the dataplane\<close>

definition queue_of :: "'n nft_view \<Rightarrow> 'n connft \<Rightarrow> nft_msg list" where
  "queue_of V d = nv_queue V (d_nft d)"

definition table_of :: "'n nft_view \<Rightarrow> 'n connft \<Rightarrow> nft_table" where
  "table_of V d = nv_table V (d_nft d)"

lemmas view_defs = queue_of_def table_of_def

lemma view_frame [simp]:
  "queue_of V (upd_group g f d) = queue_of V d" "table_of V (upd_group g f d) = table_of V d"
  "queue_of V (d\<lparr>d_table := h\<rparr>) = queue_of V d" "table_of V (d\<lparr>d_table := h\<rparr>) = table_of V d"
  "queue_of V (d\<lparr>d_groups := gs\<rparr>) = queue_of V d" "table_of V (d\<lparr>d_groups := gs\<rparr>) = table_of V d"
  "queue_of V (d\<lparr>d_heap := h'\<rparr>) = queue_of V d" "table_of V (d\<lparr>d_heap := h'\<rparr>) = table_of V d"
  "queue_of V (d\<lparr>d_next := i\<rparr>) = queue_of V d" "table_of V (d\<lparr>d_next := i\<rparr>) = table_of V d"
  "queue_of V (d\<lparr>d_closed := b\<rparr>) = queue_of V d" "table_of V (d\<lparr>d_closed := b\<rparr>) = table_of V d"
  by (simp_all add: view_defs upd_group_def)

lemma nft_do_view:
  assumes "nft_documented K V" and "nft_do K msg d = (r, d')"
  shows "table_of V d' = table_of V d"
    and "queue_of V d' = (if r = None then queue_of V d @ [msg] else queue_of V d)"
    and "\<not> may_refuse msg \<Longrightarrow> r = None"
    and "d_heap d' = d_heap d" and "d_table d' = d_table d"
proof -
  obtain n' where c: "nft_Call K msg (d_nft d) = (r, n')" and d': "d' = d\<lparr>d_nft := n'\<rparr>"
    using assms(2) by (auto simp: nft_do_def split: prod.splits)
  have "call_documented K V" using assms(1) by (simp add: nft_documented_def)
  note law = this [unfolded call_documented_def, rule_format, OF c]
  from law d' show "table_of V d' = table_of V d"
    and "queue_of V d' = (if r = None then queue_of V d @ [msg] else queue_of V d)"
    and "\<not> may_refuse msg \<Longrightarrow> r = None" and "d_heap d' = d_heap d" and "d_table d' = d_table d"
    by (simp_all add: view_defs)
qed

lemma nft_flush_view:
  assumes "nft_documented K V" and "nft_flush K d = (r, d')"
  shows "queue_of V d' = []"
    and "table_of V d' = (if r = None then apply_batch (queue_of V d) (table_of V d) else table_of V d)"
    and "r = Some ENOENT \<Longrightarrow> queue_of V d = [DelTable t] \<Longrightarrow> table_of V d = empty_table"
    and "d_heap d' = d_heap d" and "d_table d' = d_table d"
proof -
  obtain n' where c: "nft_Flush K (d_nft d) = (r, n')" and d': "d' = d\<lparr>d_nft := n'\<rparr>"
    using assms(2) by (auto simp: nft_flush_def split: prod.splits)
  have "flush_documented K V" using assms(1) by (simp add: nft_documented_def)
  note law = this [unfolded flush_documented_def, rule_format, OF c]
  from law d' show "queue_of V d' = []"
    and "table_of V d' = (if r = None then apply_batch (queue_of V d) (table_of V d) else table_of V d)"
    and "d_heap d' = d_heap d" and "d_table d' = d_table d"
    by (simp_all add: view_defs)
  show "r = Some ENOENT \<Longrightarrow> queue_of V d = [DelTable t] \<Longrightarrow> table_of V d = empty_table"
    using law by (simp add: view_defs)
qed

text \<open>Requests that cannot be refused, one after the other.\<close>

lemma nft_do_accepted:
  assumes "nft_documented K V" and "\<not> may_refuse msg"
  shows "table_of V (snd (nft_do K msg d)) = table_of V d"
    and "queue_of V (snd (nft_do K msg d)) = queue_of V d @ [msg]"
    and "d_heap (snd (nft_do K msg d)) = d_heap d" and "fst (nft_do K msg d) = None"
proof -
  obtain r d' where e: "nft_do K msg d = (r, d')" by (cases "nft_do K msg d")
  note v = nft_do_view [OF assms(1) e]
  show "table_of V (snd (nft_do K msg d)) = table_of V d"
    and "queue_of V (snd (nft_do K msg d)) = queue_of V d @ [msg]"
    and "d_heap (snd (nft_do K msg d)) = d_heap d" and "fst (nft_do K msg d) = None"
    using v assms(2) by (simp_all add: e)
qed

lemma nft_do_all_accepted:
  assumes "nft_documented K V" and "list_all (\<lambda>msg. \<not> may_refuse msg) msgs"
  shows "table_of V (nft_do_all K msgs d) = table_of V d
    \<and> queue_of V (nft_do_all K msgs d) = queue_of V d @ msgs
    \<and> d_heap (nft_do_all K msgs d) = d_heap d"
  using assms(2)
proof (induction msgs arbitrary: d)
  case (Cons msg msgs)
  then show ?case using nft_do_accepted [OF assms(1), of msg d] by simp
qed simp

lemma add_sets_view:
  assumes "nft_documented K V" and "add_sets K xs d = (None, d')"
  shows "table_of V d' = table_of V d \<and> queue_of V d' = queue_of V d @ map snd xs
    \<and> d_heap d' = d_heap d"
  using assms(2)
proof (induction xs arbitrary: d)
  case (Cons x xs)
  obtain what msg where x: "x = (what, msg)" by (cases x)
  obtain r d1 where e: "nft_do K msg d = (r, d1)" by (cases "nft_do K msg d")
  from Cons.prems x e have "r = None" "add_sets K xs d1 = (None, d')"
    by (auto split: option.splits)
  with Cons.IH [of d1] nft_do_view [OF assms(1) e] x show ?case by simp
qed simp

lemma queue_elements_view:
  assumes "nft_documented K V" and "\<And>s es. \<not> may_refuse (f s es)"
  shows "\<exists>d'. queue_elements K f xs d = (None, d') \<and> table_of V d' = table_of V d
    \<and> queue_of V d' = queue_of V d @ map (\<lambda>(s, e). f s [e]) xs \<and> d_heap d' = d_heap d"
proof (induction xs arbitrary: d)
  case (Cons x xs)
  obtain s e where x: "x = (s, e)" by (cases x)
  obtain r d1 where c: "nft_do K (f s [e]) d = (r, d1)" by (cases "nft_do K (f s [e]) d")
  note v = nft_do_view [OF assms(1) c]
  have "r = None" using v(3) assms(2) by simp
  with Cons.IH [of d1] v c x show ?case by auto
qed simp

end
