(* ===== verification/Connft_Sync.thy ===== *)
theory Connft_Sync
  imports Connft_Ops Nft_Kernel
begin

text \<open>
  The elements the dataplane keeps in the kernel against the mappings its groups hold: what each
  operation does to the committed table, and that the table follows the enabled groups. The
  kernel's side is the hypothesis \<open>nft_documented\<close>; any flush may fail.
\<close>

declare split_paired_All [simp del] split_paired_Ex [simp del]

section \<open>Elements of mappings\<close>

definition hits :: "dnat_mapping \<Rightarrow> dnat_set \<Rightarrow> byte list \<Rightarrow> bool" where
  "hits m s k \<longleftrightarrow> s \<in> set (mapping_sets m) \<and> se_Key (compileSetElement m) = k"

definition hit_val :: "dnat_mapping \<Rightarrow> byte list" where
  "hit_val m = se_Val (compileSetElement m)"

definition put_all :: "dnat_mapping list \<Rightarrow> elements \<Rightarrow> elements" where
  "put_all ms = fold put_element (dnat_elements ms)"

definition drop_all :: "dnat_mapping list \<Rightarrow> elements \<Rightarrow> elements" where
  "drop_all ms = fold drop_element (dnat_elements ms)"

lemma dnat_elements_simps [simp]:
  "dnat_elements [] = []"
  "dnat_elements (m # ms) = map (\<lambda>s. (s, compileSetElement m)) (mapping_sets m) @ dnat_elements ms"
  by (simp_all add: dnat_elements_def)

lemma put_sets:
  "fold put_element (map (\<lambda>s. (s, e)) ss) E s k =
     (if s \<in> set ss \<and> k = se_Key e then Some (se_Val e) else E s k)"
  by (induction ss arbitrary: E) (auto simp: put_element_def)

lemma drop_sets:
  "fold drop_element (map (\<lambda>s. (s, e)) ss) E s k = (if s \<in> set ss \<and> k = se_Key e then None else E s k)"
  by (induction ss arbitrary: E) (auto simp: drop_element_def)

lemma put_all_Cons:
  "put_all (m # ms) E = put_all ms (\<lambda>s k. if hits m s k then Some (hit_val m) else E s k)"
proof -
  have "fold put_element (map (\<lambda>s. (s, compileSetElement m)) (mapping_sets m)) E =
      (\<lambda>s k. if hits m s k then Some (hit_val m) else E s k)"
    by (intro ext) (auto simp: put_sets hits_def hit_val_def)
  then show ?thesis by (simp add: put_all_def)
qed

lemma drop_all_Cons: "drop_all (m # ms) E = drop_all ms (\<lambda>s k. if hits m s k then None else E s k)"
proof -
  have "fold drop_element (map (\<lambda>s. (s, compileSetElement m)) (mapping_sets m)) E =
      (\<lambda>s k. if hits m s k then None else E s k)"
    by (intro ext) (auto simp: drop_sets hits_def)
  then show ?thesis by (simp add: drop_all_def)
qed

lemma drop_all_lookup: "drop_all ms E s k = (if \<exists>m \<in> set ms. hits m s k then None else E s k)"
proof (induction ms arbitrary: E)
  case Nil
  then show ?case by (simp add: drop_all_def)
next
  case (Cons m ms)
  then show ?case by (simp add: drop_all_Cons)
qed

lemma put_all_miss: "\<not> (\<exists>m \<in> set ms. hits m s k) \<Longrightarrow> put_all ms E s k = E s k"
proof (induction ms arbitrary: E)
  case Nil
  then show ?case by (simp add: put_all_def)
next
  case (Cons m ms)
  then show ?case by (simp add: put_all_Cons)
qed

lemma put_all_hit:
  assumes "\<exists>m \<in> set ms. hits m s k" and "\<forall>m \<in> set ms. hits m s k \<longrightarrow> hit_val m = v"
  shows "put_all ms E s k = Some v"
  using assms
proof (induction ms arbitrary: E)
  case Nil
  then show ?case by simp
next
  case (Cons x ms)
  then show ?case by (cases "\<exists>y \<in> set ms. hits y s k") (simp_all add: put_all_Cons put_all_miss)
qed

text \<open>In which map and under which key a mapping is looked up depends on its source and protocol only.\<close>

lemma hits_cong: "src_key m = src_key x \<Longrightarrow> hits m s k = hits x s k"
  by (simp add: src_key_def hits_def mapping_sets_def compileSetElement_def Let_def)

lemma unspecified_same_family:
  "addr_IsUnspecified a \<Longrightarrow> addr_IsUnspecified b \<Longrightarrow> addr_Is4 a = addr_Is4 b \<Longrightarrow> a = b"
  by (auto simp: addr_IsUnspecified_def)

lemma hits_src_key:
  assumes wf: "mapping_wf m" "mapping_wf x" and h: "hits m s k" "hits x s k"
  shows "src_key m = src_key x"
proof -
  have sets: "addr_Is4 (ap_addr (m_Source m)) = addr_Is4 (ap_addr (m_Source x))"
    "addr_IsUnspecified (ap_addr (m_Source m)) = addr_IsUnspecified (ap_addr (m_Source x))"
    using wf h by (auto simp: hits_def mapping_wf_def mapping_sets_def Let_def split: if_splits)
  have key: "se_Key (compileSetElement m) = se_Key (compileSetElement x)"
    using h by (simp add: hits_def)
  show ?thesis
  proof (cases "addr_IsUnspecified (ap_addr (m_Source m))")
    case True
    with sets have "ap_addr (m_Source m) = ap_addr (m_Source x)"
      by (intro unspecified_same_family) simp_all
    moreover from True sets key
    have "m_Protocol m = m_Protocol x" "ap_port (m_Source m) = ap_port (m_Source x)"
      by (simp_all add: compileSetElement_def encodeWildcardKey_inj_iff)
    ultimately show ?thesis by (simp add: src_key_def addr_port.equality)
  next
    case False
    with sets key wf show ?thesis
      by (simp add: compileSetElement_def src_key_def mapping_wf_def encodeSpecificKey_inj_iff)
  qed
qed

lemma hit_val_inj:
  "mapping_wf m \<Longrightarrow> mapping_wf x \<Longrightarrow> hit_val m = hit_val x \<longleftrightarrow> m_Destination m = m_Destination x"
  by (simp add: hit_val_def compileSetElement_def mapping_wf_def encodeMapValue_inj_iff)

section \<open>A set of mappings and a table of elements\<close>

text \<open>
  \<open>served A E\<close>: the element of every mapping of \<open>A\<close> is in \<open>E\<close>; \<open>exact A E\<close>: \<open>E\<close> has no other.
\<close>

definition served :: "dnat_mapping set \<Rightarrow> elements \<Rightarrow> bool" where
  "served A E \<longleftrightarrow> (\<forall>m s k. m \<in> A \<longrightarrow> hits m s k \<longrightarrow> E s k = Some (hit_val m))"

definition exact :: "dnat_mapping set \<Rightarrow> elements \<Rightarrow> bool" where
  "exact A E \<longleftrightarrow> (\<forall>s k v. E s k = Some v \<longrightarrow> (\<exists>m \<in> A. hits m s k))"

definition sync :: "bool \<Rightarrow> dnat_mapping set \<Rightarrow> elements \<Rightarrow> bool" where
  "sync b A E \<longleftrightarrow> served A E \<and> (b \<longrightarrow> exact A E)"

definition keyed :: "dnat_mapping set \<Rightarrow> bool" where
  "keyed A \<longleftrightarrow> (\<forall>m \<in> A. mapping_wf m) \<and> inj_on src_key A"

lemma keyed_hits:
  assumes "keyed A" and "m \<in> A" "x \<in> A" and "hits m s k" "hits x s k"
  shows "m = x"
  using assms hits_src_key [of m x s k] by (auto simp: keyed_def inj_on_def)

lemma sync_weaken: "sync b A E \<Longrightarrow> B \<subseteq> A \<Longrightarrow> sync False B E"
  by (auto simp: sync_def served_def)

lemma sync_empty: "sync b {} (\<lambda>_ _. None)"
  by (simp add: sync_def served_def exact_def)

lemma sync_put:
  assumes s: "sync b A E" and k: "keyed (A \<union> set ms)"
  shows "sync b (A \<union> set ms) (put_all ms E)"
proof -
  have val: "put_all ms E s k = Some (hit_val m)" if "m \<in> A \<union> set ms" "hits m s k" for m s k
  proof (cases "\<exists>x \<in> set ms. hits x s k")
    case True
    then obtain x where x: "x \<in> set ms" "hits x s k" by blast
    have "y = x" if "y \<in> set ms" "hits y s k" for y
      using keyed_hits [OF k, of y x s k] that x by simp
    then have "put_all ms E s k = Some (hit_val x)" using x by (intro put_all_hit) auto
    moreover have "m = x" using keyed_hits [OF k that(1) _ that(2) x(2)] x(1) by simp
    ultimately show ?thesis by simp
  next
    case False
    then have "m \<in> A" using that by blast
    with s that(2) False show ?thesis by (simp add: put_all_miss sync_def served_def)
  qed
  have "exact (A \<union> set ms) (put_all ms E)" if "exact A E"
    unfolding exact_def
  proof (intro allI impI)
    fix s k v
    assume v: "put_all ms E s k = Some v"
    show "\<exists>m \<in> A \<union> set ms. hits m s k"
    proof (cases "\<exists>x \<in> set ms. hits x s k")
      case True
      then show ?thesis by blast
    next
      case False
      with v have "E s k = Some v" by (simp add: put_all_miss)
      with that show ?thesis unfolding exact_def by blast
    qed
  qed
  with val s show ?thesis by (simp add: sync_def served_def)
qed

lemma sync_drop:
  assumes s: "sync b A E" and k: "keyed A" and wf: "\<forall>m \<in> set ms. mapping_wf m"
  shows "sync b {x \<in> A. src_key x \<notin> src_key ` set ms} (drop_all ms E)"
proof -
  let ?B = "{x \<in> A. src_key x \<notin> src_key ` set ms}"
  have away: "\<not> (\<exists>m \<in> set ms. hits m s k)" if x: "x \<in> ?B" and hx: "hits x s k" for x s k
  proof
    assume "\<exists>m \<in> set ms. hits m s k"
    then obtain m where m: "m \<in> set ms" "hits m s k" by blast
    have "mapping_wf m" "mapping_wf x" using m(1) wf x k by (simp_all add: keyed_def)
    then have "src_key m = src_key x" using m(2) hx by (rule hits_src_key)
    with m(1) have "src_key x \<in> src_key ` set ms" by (metis imageI)
    with x show False by simp
  qed
  have sv: "served ?B (drop_all ms E)"
    unfolding served_def
  proof (intro allI impI)
    fix x s k
    assume x: "x \<in> ?B" and hx: "hits x s k"
    then have "E s k = Some (hit_val x)" using s by (simp add: sync_def served_def)
    with away [OF x hx] show "drop_all ms E s k = Some (hit_val x)" by (simp add: drop_all_lookup)
  qed
  have "exact ?B (drop_all ms E)" if ex: "exact A E"
    unfolding exact_def
  proof (intro allI impI)
    fix s k v
    assume "drop_all ms E s k = Some v"
    then have no: "\<not> (\<exists>m \<in> set ms. hits m s k)" and v: "E s k = Some v"
      by (simp_all add: drop_all_lookup split: if_splits)
    from ex v obtain x where x: "x \<in> A" "hits x s k" unfolding exact_def by blast
    have "src_key x \<noteq> src_key m" if "m \<in> set ms" for m
      using hits_cong [of x m s k] x(2) no that by blast
    with x show "\<exists>m \<in> ?B. hits m s k" by auto
  qed
  with sv s show ?thesis by (simp add: sync_def)
qed

text \<open>Mappings that differ in their timeouts only have the same elements.\<close>

lemma sync_retime:
  assumes s: "sync b A E" and m: "m \<in> A" and k: "keyed A"
  shows "sync b ((A - {m}) \<union> {m\<lparr>m_Timeout := t\<rparr>}) E"
proof -
  have hts: "hits (m\<lparr>m_Timeout := t\<rparr>) s k = hits m s k" for s k
    by (rule hits_cong) (simp add: src_key_def)
  have hv: "hit_val (m\<lparr>m_Timeout := t\<rparr>) = hit_val m"
    by (simp add: hit_val_def compileSetElement_def)
  have "served ((A - {m}) \<union> {m\<lparr>m_Timeout := t\<rparr>}) E"
    using s m hv hts by (auto simp: sync_def served_def)
  moreover have "exact ((A - {m}) \<union> {m\<lparr>m_Timeout := t\<rparr>}) E" if "exact A E"
    unfolding exact_def
  proof (intro allI impI)
    fix s k v
    assume "E s k = Some v"
    with that obtain x where "x \<in> A" "hits x s k" unfolding exact_def by blast
    with hts show "\<exists>y \<in> (A - {m}) \<union> {m\<lparr>m_Timeout := t\<rparr>}. hits y s k"
      by (cases "x = m") auto
  qed
  ultimately show ?thesis using s by (simp add: sync_def)
qed

end
