(* ===== verification/Sync_Ops.thy ===== *)
theory Sync_Ops
  imports Connft_Sync
begin

text \<open>
  Every exported operation of the dataplane keeps the kernel's table in step with its groups:
  after each call, whatever the flushes answered, the queue of the connection is empty, the DNAT
  rules are in place and the element of every mapping of an enabled live group is committed.
  As long as no \<open>Close\<close> has reported an error nothing else is committed.
\<close>

declare split_paired_All [simp del] split_paired_Ex [simp del]

section \<open>What timeouts leave alone\<close>

definition elems_of :: "'n nft_view \<Rightarrow> 'n connft \<Rightarrow> elements" where
  "elems_of V d = nt_elems (table_of V d)"

definition dnat_rules :: "nft_table \<Rightarrow> nft_rule list" where
  "dnat_rules t = filter (\<lambda>r. rule_Chain r = Prerouting) (nt_rules t)"

definition flow_rules_ok :: "'n connft \<Rightarrow> bool" where
  "flow_rules_ok d \<longleftrightarrow> (\<forall>g k info r. map_of (cg_flowInfo (d_heap d g)) k = Some info \<longrightarrow>
     fi_Rule info = Some r \<longrightarrow> rule_Chain r = Timeouts)"

definition settled :: "'n nft_view \<Rightarrow> 'n connft \<Rightarrow> bool" where
  "settled V d \<longleftrightarrow> queue_of V d = [] \<and> flow_rules_ok d"

definition quiet :: "'n nft_view \<Rightarrow> 'n connft \<Rightarrow> 'n connft \<Rightarrow> bool" where
  "quiet V d d' \<longleftrightarrow> settled V d' \<and> elems_of V d' = elems_of V d
     \<and> dnat_rules (table_of V d') = dnat_rules (table_of V d)"

lemma quiet_refl: "settled V d \<Longrightarrow> quiet V d d"
  by (simp add: quiet_def)

lemma quiet_trans: "quiet V d d1 \<Longrightarrow> quiet V d1 d2 \<Longrightarrow> quiet V d d2"
  by (simp add: quiet_def)

lemma elems_of_upd [simp]: "elems_of V (upd_group g f d) = elems_of V d"
  by (simp add: elems_of_def)

lemma flow_rules_upd:
  assumes "flow_rules_ok d" and "\<And>gr. cg_flowInfo (f gr) = cg_flowInfo gr"
  shows "flow_rules_ok (upd_group g f d)"
  using assms by (auto simp: flow_rules_ok_def)

lemma quiet_upd:
  assumes "settled V d" and "\<And>gr. cg_flowInfo (f gr) = cg_flowInfo gr"
  shows "quiet V d (upd_group g f d)"
  using assms flow_rules_upd [of d f g] by (simp add: quiet_def settled_def)

fun timeout_msg :: "nft_msg \<Rightarrow> bool" where
  "timeout_msg (AddObj _) = True"
| "timeout_msg (DeleteObject _) = True"
| "timeout_msg (AddRule r) = (rule_Chain r = Timeouts)"
| "timeout_msg (DelRule r) = (rule_Chain r = Timeouts)"
| "timeout_msg _ = False"

lemma filter_remove1_other: "\<not> P r \<Longrightarrow> filter P (remove1 r xs) = filter P xs"
  by (induction xs) auto

lemma timeout_batch:
  "list_all timeout_msg msgs \<Longrightarrow> nt_elems (apply_batch msgs t) = nt_elems t
     \<and> dnat_rules (apply_batch msgs t) = dnat_rules t"
proof (induction msgs arbitrary: t)
  case (Cons msg msgs)
  then show ?case
    by (cases msg) (simp_all add: dnat_rules_def filter_remove1_other)
qed simp

text \<open>A flush of timeout requests on a settled dataplane.\<close>

lemma quiet_flush:
  assumes doc: "nft_documented K V" and f: "nft_flush K d1 = (r, d2)"
    and q: "list_all timeout_msg (queue_of V d1)"
    and old: "table_of V d1 = table_of V d" "flow_rules_ok d1"
  shows "quiet V d d2"
proof -
  note v = nft_flush_view [OF doc f]
  have "flow_rules_ok d2" using old(2) v(4) by (simp add: flow_rules_ok_def)
  then show ?thesis
    using v(1,2) timeout_batch [OF q, of "table_of V d"] old(1)
    by (simp add: quiet_def settled_def elems_of_def)
qed

lemma quiet_ensureTimeoutDeleted:
  assumes doc: "nft_documented K V" and st: "settled V d"
  shows "quiet V d (snd (ensureTimeoutDeleted K g proto addr d))"
proof (cases "map_of (cg_flowInfo (d_heap d g)) (addr, proto)")
  case None
  with st show ?thesis by (simp add: ensureTimeoutDeleted_def quiet_refl)
next
  case (Some info)
  have fr: "flow_rules_ok d" and q: "queue_of V d = []" using st by (simp_all add: settled_def)
  have tr: "rule_Chain r = Timeouts" if "fi_Rule info = Some r" for r
    using fr Some that unfolding flow_rules_ok_def by blast
  obtain e1 d1 where c1: "(case fi_Rule info of None \<Rightarrow> (None, d) | Some r \<Rightarrow> nft_do K (DelRule r) d)
      = (e1, d1)" by fastforce
  have d1: "table_of V d1 = table_of V d" "d_heap d1 = d_heap d"
      "list_all timeout_msg (queue_of V d1)" "not_ENOENT e1 = None \<or> queue_of V d1 = []"
    using c1 q tr nft_do_view [OF doc, of "DelRule r" d e1 d1 for r]
    by (auto split: option.splits if_splits simp: not_ENOENT_def)
  have fr1: "flow_rules_ok d1" using fr d1(2) by (simp add: flow_rules_ok_def)
  obtain e2 d2 where c2: "nft_flush K (snd (nft_do K (DeleteObject (fi_Obj info)) d1)) = (e2, d2)"
    by fastforce
  note o = nft_do_accepted [OF doc, of "DeleteObject (fi_Obj info)" d1, simplified]
  have "quiet V d d2"
    by (rule quiet_flush [OF doc c2]) (use o d1 fr1 in \<open>simp_all add: flow_rules_ok_def\<close>)
  moreover from this have "quiet V d (upd_group g (\<lambda>gr. gr\<lparr>cg_flowInfo :=
      AList.delete (addr, proto) (cg_flowInfo gr)\<rparr>) d2)"
    by (auto simp: quiet_def settled_def flow_rules_ok_def split: if_splits)
  moreover have "quiet V d d1" if "not_ENOENT e1 \<noteq> None"
    using that d1 fr1 by (auto simp: quiet_def settled_def elems_of_def)
  ultimately show ?thesis
    using Some c1 c2 by (auto simp: ensureTimeoutDeleted_def Let_def split: option.split)
qed

lemma defineTimeoutRule_chain: "rule_Chain (defineTimeoutRule p a name) = Timeouts"
  by (simp add: defineTimeoutRule_def Let_def)

lemma quiet_ensureTimeoutSet:
  assumes doc: "nft_documented K V" and st: "settled V d"
  shows "quiet V d (snd (ensureTimeoutSet K g proto addr t d))"
proof (cases "t = 0")
  case True
  with quiet_ensureTimeoutDeleted [OF doc st] show ?thesis by (simp add: ensureTimeoutSet_def)
next
  case t: False
  have fr: "flow_rules_ok d" and q: "queue_of V d = []" using st by (simp_all add: settled_def)
  show ?thesis
  proof (cases "map_of (cg_flowInfo (d_heap d g)) (addr, proto)")
    case (Some info)
    let ?obj = "(fi_Obj info)\<lparr>to_Policy :=
      foldl (\<lambda>p s. AList.update s (ttl_Seconds t) p) (to_Policy (fi_Obj info)) ttl_states\<rparr>"
    let ?d1 = "upd_group g (\<lambda>gr. gr\<lparr>cg_flowInfo :=
      AList.update (addr, proto) (info\<lparr>fi_Obj := ?obj\<rparr>) (cg_flowInfo gr)\<rparr>) d"
    have fr1: "flow_rules_ok ?d1"
      using fr Some unfolding flow_rules_ok_def by auto
    obtain e2 d2 where c2: "nft_flush K (snd (nft_do K (AddObj ?obj) ?d1)) = (e2, d2)" by fastforce
    note o = nft_do_accepted [OF doc, of "AddObj ?obj" ?d1, simplified]
    have "quiet V d d2"
      by (rule quiet_flush [OF doc c2]) (use o q fr1 in \<open>simp_all add: flow_rules_ok_def\<close>)
    then show ?thesis
      using t Some c2 by (auto simp: ensureTimeoutSet_def Let_def split: option.split)
  next
    case None
    let ?l3 = "(if addr_Is6 (ap_addr addr) then ucast NFPROTO_IPV6
      else if addr_Is4 (ap_addr addr) then ucast NFPROTO_IPV4 else 0) :: u16"
    let ?obj = "\<lparr>to_Name = encodeTimeoutObjName proto addr, to_L3Proto = ?l3, to_L4Proto = proto,
      to_Policy = map (\<lambda>s. (s, ttl_Seconds t)) ttl_states\<rparr>"
    let ?rule = "defineTimeoutRule proto addr (to_Name ?obj)"
    obtain e2 d2 where c2: "nft_flush K (nft_do_all K [AddObj ?obj, AddRule ?rule] d) = (e2, d2)"
      by fastforce
    have o: "table_of V (nft_do_all K [AddObj ?obj, AddRule ?rule] d) = table_of V d
        \<and> queue_of V (nft_do_all K [AddObj ?obj, AddRule ?rule] d) = queue_of V d @ [AddObj ?obj, AddRule ?rule]
        \<and> d_heap (nft_do_all K [AddObj ?obj, AddRule ?rule] d) = d_heap d"
      by (rule nft_do_all_accepted [OF doc]) simp
    have k: "quiet V d d2"
      by (rule quiet_flush [OF doc c2])
        (use o q fr in \<open>simp_all add: flow_rules_ok_def defineTimeoutRule_chain\<close>)
    moreover from this have "quiet V d (upd_group g (\<lambda>gr. gr\<lparr>cg_flowInfo :=
        AList.update (addr, proto) \<lparr>fi_Obj = ?obj, fi_Rule = Some ?rule\<rparr> (cg_flowInfo gr)\<rparr>) d2)"
      by (auto simp: quiet_def settled_def flow_rules_ok_def defineTimeoutRule_chain split: if_splits)
    ultimately show ?thesis
      using t None c2 by (auto simp: ensureTimeoutSet_def Let_def split: option.split)
  qed
qed

lemma quiet_settled: "quiet V d d' \<Longrightarrow> settled V d'"
  by (simp add: quiet_def)

lemma quiet_insert_mappings:
  "nft_documented K V \<Longrightarrow> settled V d \<Longrightarrow> quiet V d (insert_mappings K g ms d)"
proof (induction ms arbitrary: d)
  case Nil
  then show ?case by (simp add: quiet_refl)
next
  case (Cons m ms)
  let ?d1 = "upd_group g (insert_mapping m) d"
  let ?d2 = "snd (ensureTimeoutSet K g (m_Protocol m) (m_Source m) (m_Timeout m) ?d1)"
  have a: "quiet V d ?d1" by (rule quiet_upd [OF Cons.prems(2)]) (simp add: insert_mapping_def)
  have b: "quiet V ?d1 ?d2" by (rule quiet_ensureTimeoutSet [OF Cons.prems(1) quiet_settled [OF a]])
  show ?case
    using quiet_trans [OF quiet_trans [OF a b] Cons.IH [OF Cons.prems(1) quiet_settled [OF b]]] by simp
qed

lemma quiet_remove_mappings:
  "nft_documented K V \<Longrightarrow> settled V d \<Longrightarrow> quiet V d (remove_mappings K g ms d)"
proof (induction ms arbitrary: d)
  case Nil
  then show ?case by (simp add: quiet_refl)
next
  case (Cons m ms)
  let ?d1 = "upd_group g (remove_mapping m) d"
  let ?d2 = "snd (ensureTimeoutDeleted K g (m_Protocol m) (m_Source m) ?d1)"
  have a: "quiet V d ?d1" by (rule quiet_upd [OF Cons.prems(2)]) (simp add: remove_mapping_def)
  have b: "quiet V ?d1 ?d2"
    by (rule quiet_ensureTimeoutDeleted [OF Cons.prems(1) quiet_settled [OF a]])
  show ?case
    using quiet_trans [OF quiet_trans [OF a b] Cons.IH [OF Cons.prems(1) quiet_settled [OF b]]] by simp
qed

section \<open>What the operations commit\<close>

definition commits :: "'n nft_view \<Rightarrow> (elements \<Rightarrow> elements) \<Rightarrow> 'n connft \<Rightarrow> 'n connft \<Rightarrow> bool" where
  "commits V f d d' \<longleftrightarrow> settled V d' \<and> elems_of V d' = f (elems_of V d)
     \<and> dnat_rules (table_of V d') = dnat_rules (table_of V d)"

lemma commits_quiet: "commits V f d d1 \<Longrightarrow> quiet V d1 d2 \<Longrightarrow> commits V f d d2"
  by (simp add: commits_def quiet_def)

lemma apply_adds:
  "apply_batch (map (\<lambda>(s, e). SetAddElements s [e]) xs) t =
     t\<lparr>nt_elems := fold put_element xs (nt_elems t)\<rparr>"
  by (induction xs arbitrary: t) auto

lemma apply_dels:
  "apply_batch (map (\<lambda>(s, e). SetDeleteElements s [e]) xs) t =
     t\<lparr>nt_elems := fold drop_element xs (nt_elems t)\<rparr>"
  by (induction xs arbitrary: t) auto

lemma ensureDNATAdded_commits:
  assumes doc: "nft_documented K V" and st: "settled V d" and e: "ensureDNATAdded K ms d = (r, d')"
  shows "if r = None then commits V (put_all ms) d d' else quiet V d d'"
proof (cases "ms = []")
  case True
  with e st show ?thesis
    by (simp add: ensureDNATAdded_def commits_def put_all_def)
next
  case False
  obtain d1 where q: "queue_elements K SetAddElements (dnat_elements ms) d = (None, d1)"
    "table_of V d1 = table_of V d" "d_heap d1 = d_heap d"
    "queue_of V d1 = queue_of V d @ map (\<lambda>(s, e). SetAddElements s [e]) (dnat_elements ms)"
    using queue_elements_view [OF doc, of SetAddElements "dnat_elements ms" d] by auto
  obtain r2 d2 where f: "nft_flush K d1 = (r2, d2)" by (cases "nft_flush K d1")
  have e': "d' = d2" "r = None \<longleftrightarrow> r2 = None"
    using False e q(1) f by (auto simp: ensureDNATAdded_def split: option.splits)
  note v = nft_flush_view [OF doc f]
  have "settled V d2"
    using st v(1,4) q(3) by (simp add: settled_def flow_rules_ok_def)
  then show ?thesis
    using v(2) q st unfolding e'
    by (simp add: commits_def quiet_def elems_of_def settled_def apply_adds put_all_def dnat_rules_def)
qed

lemma ensureDNATDeleted_commits:
  assumes doc: "nft_documented K V" and st: "settled V d" and e: "ensureDNATDeleted K ms d = (r, d')"
  shows "if r = None then commits V (drop_all ms) d d' else quiet V d d'"
proof (cases "ms = []")
  case True
  with e st show ?thesis
    by (simp add: ensureDNATDeleted_def commits_def drop_all_def)
next
  case False
  obtain d1 where q: "queue_elements K SetDeleteElements (dnat_elements ms) d = (None, d1)"
    "table_of V d1 = table_of V d" "d_heap d1 = d_heap d"
    "queue_of V d1 = queue_of V d @ map (\<lambda>(s, e). SetDeleteElements s [e]) (dnat_elements ms)"
    using queue_elements_view [OF doc, of SetDeleteElements "dnat_elements ms" d] by auto
  obtain r2 d2 where f: "nft_flush K d1 = (r2, d2)" by (cases "nft_flush K d1")
  have e': "d' = d2" "r = None \<longleftrightarrow> r2 = None"
    using False e q(1) f by (auto simp: ensureDNATDeleted_def split: option.splits)
  note v = nft_flush_view [OF doc f]
  have "settled V d2"
    using st v(1,4) q(3) by (simp add: settled_def flow_rules_ok_def)
  then show ?thesis
    using v(2) q st unfolding e'
    by (simp add: commits_def quiet_def elems_of_def settled_def apply_dels drop_all_def dnat_rules_def)
qed

text \<open>The four operations that add or delete elements, by their result.\<close>

lemma addMappings_commits:
  assumes doc: "nft_documented K V" and st: "settled V d" and e: "addMappings K g ms d = (r, d')"
  shows "if r = None \<and> cg_enabled (d_heap d g) then commits V (put_all ms) d d' else quiet V d d'"
proof (cases "ms = [] \<or> check_new (existing_mappings d) [] ms \<noteq> None")
  case True
  with e st show ?thesis
    by (auto simp: addMappings_def commits_def put_all_def quiet_refl quiet_def
          split: option.splits if_splits)
next
  case False
  obtain r1 d1 where c: "(if cg_enabled (d_heap d g) then ensureDNATAdded K ms d else (None, d)) = (r1, d1)"
    by fastforce
  have a: "if r1 = None \<and> cg_enabled (d_heap d g) then commits V (put_all ms) d d1 else quiet V d d1"
    using c ensureDNATAdded_commits [OF doc st, of ms r1 d1] st quiet_refl
    by (cases "cg_enabled (d_heap d g)") auto
  then have "settled V d1" by (simp add: commits_def quiet_def split: if_splits)
  from quiet_insert_mappings [OF doc this] have b: "quiet V d1 (insert_mappings K g ms d1)" .
  have "r = r1" "d' = (if r1 = None then insert_mappings K g ms d1 else d1)"
    using False e c by (auto simp: addMappings_def split: option.splits)
  with a b show ?thesis by (auto intro: commits_quiet quiet_trans split: if_splits)
qed

lemma delMappings_commits:
  assumes doc: "nft_documented K V" and st: "settled V d" and e: "delMappings K g ms d = (r, d')"
  shows "if r = None \<and> cg_enabled (d_heap d g) then commits V (drop_all ms) d d' else quiet V d d'"
proof (cases "ms = [] \<or> check_present (d_heap d g) ms \<noteq> None")
  case True
  with e st show ?thesis
    by (auto simp: delMappings_def commits_def drop_all_def quiet_refl quiet_def
          split: option.splits if_splits)
next
  case False
  obtain r1 d1 where c: "(if cg_enabled (d_heap d g) then ensureDNATDeleted K ms d else (None, d)) = (r1, d1)"
    by fastforce
  have a: "if r1 = None \<and> cg_enabled (d_heap d g) then commits V (drop_all ms) d d1 else quiet V d d1"
    using c ensureDNATDeleted_commits [OF doc st, of ms r1 d1] st quiet_refl
    by (cases "cg_enabled (d_heap d g)") auto
  then have "settled V d1" by (simp add: commits_def quiet_def split: if_splits)
  from quiet_remove_mappings [OF doc this] have b: "quiet V d1 (remove_mappings K g ms d1)" .
  have "r = r1" "d' = (if r1 = None then remove_mappings K g ms d1 else d1)"
    using False e c by (auto simp: delMappings_def split: option.splits)
  with a b show ?thesis by (auto intro: commits_quiet quiet_trans split: if_splits)
qed

section \<open>The mappings that are in force\<close>

definition active_set :: "'n connft \<Rightarrow> dnat_mapping set" where
  "active_set d = {m. \<exists>g. live d g \<and> cg_enabled (d_heap d g) \<and> holds (d_heap d g) m}"

lemma active_tables [simp]: "active_set (tables d) = active_set d"
  by (simp add: active_set_def)

lemma active_tables_eq: "tables d' = tables d \<Longrightarrow> active_set d' = active_set d"
  by (metis active_tables)

lemma active_of_tables: "tables d' = T \<Longrightarrow> active_set d' = active_set T"
  by (metis active_tables)

lemma keyed_active:
  assumes "inv_core d"
  shows "keyed (active_set d)"
proof -
  have "mapping_wf m" if "m \<in> active_set d" for m
    using assms that holds_wf by (auto simp: active_set_def inv_core_def)
  moreover have "m = x" if m: "m \<in> active_set d" and x: "x \<in> active_set d" and k: "src_key m = src_key x" for m x
  proof -
    obtain g where g: "live d g" "holds (d_heap d g) m" using m unfolding active_set_def by blast
    obtain h where h: "live d h" "holds (d_heap d h) x" using x unfolding active_set_def by blast
    have "no_overlaps d" using assms by (simp add: inv_core_def)
    with g h same_src_Overlaps [OF k] show ?thesis unfolding no_overlaps_def by blast
  qed
  ultimately show ?thesis by (simp add: keyed_def inj_on_def)
qed

text \<open>The invariant; the flag says that the table has no element beyond those of the active mappings.\<close>

definition kernel_inv :: "'n nft_view \<Rightarrow> bool \<Rightarrow> 'n connft \<Rightarrow> bool" where
  "kernel_inv V b d \<longleftrightarrow> connft_inv d \<and> settled V d \<and> sync b (active_set d) (elems_of V d)
     \<and> (\<not> d_closed d \<longrightarrow> dnat_rules (table_of V d) = addDNATRules)"

lemma kernel_inv_quiet:
  assumes "kernel_inv V b d" and "quiet V d d'" and "connft_inv d'"
    and "sync b (active_set d) (elems_of V d) \<Longrightarrow> sync b' (active_set d') (elems_of V d)"
    and "d_closed d' = d_closed d"
  shows "kernel_inv V b' d'"
  using assms by (simp add: kernel_inv_def quiet_def)

lemma kernel_inv_commits:
  assumes "kernel_inv V b d" and "commits V f d d'" and "connft_inv d'"
    and "sync b (active_set d) (elems_of V d) \<Longrightarrow> sync b' (active_set d') (f (elems_of V d))"
    and "d_closed d' = d_closed d"
  shows "kernel_inv V b' d'"
  using assms by (simp add: kernel_inv_def commits_def)

section \<open>How the operations change the active mappings\<close>

lemma active_insert:
  assumes inv: "inv_core d" and g: "live d g" and fresh: "list_all (fresh_for d) ms"
    and sw: "sorted_wrt (\<lambda>x m. \<not> mapping_Overlaps m x) ms"
  shows "active_set (t_insert g ms d) =
    (if cg_enabled (d_heap d g) then active_set d \<union> set ms else active_set d)"
proof -
  have "live (t_insert g ms d) g' = live d g'" for g' by (simp add: live_def)
  moreover have "holds (d_heap (t_insert g ms d) g') x \<longleftrightarrow> holds (d_heap d g') x \<or> (g' = g \<and> x \<in> set ms)"
    if "live d g'" for g' x
    using inv_t_insert [OF inv g fresh sw] that by blast
  ultimately show ?thesis using g by (auto simp: active_set_def)
qed

lemma active_remove:
  assumes inv: "inv_core d" and g: "live d g" and pres: "check_present (d_heap d g) ms = None"
  shows "active_set (t_remove g ms d) =
    (if cg_enabled (d_heap d g) then {x \<in> active_set d. src_key x \<notin> src_key ` set ms} else active_set d)"
proof -
  have lv: "live (t_remove g ms d) g' = live d g'" for g' by (simp add: live_def)
  have hold: "holds (d_heap (t_remove g ms d) g') x \<longleftrightarrow>
      holds (d_heap d g') x \<and> (g' = g \<longrightarrow> src_key x \<notin> src_key ` set ms)" for g' x
    using t_remove_other [of g' g ms d] by (cases "g' = g") (auto simp: holds_def t_remove_bySrc)
  have own: "g' = g" if "live d g'" "holds (d_heap d g') x" "src_key x \<in> src_key ` set ms" for g' x
  proof -
    from that(3) obtain m where m: "m \<in> set ms" "src_key x = src_key m" by blast
    with pres obtain y where y: "map_of (cg_bySrc (d_heap d g)) (src_key m) = Some y"
      by (auto simp: check_present_None list_all_iff)
    have "group_ok (d_heap d g)" using inv g by (simp add: inv_core_def)
    then have k: "src_key y = src_key m" using y group_ok_bySrc by blast
    with y have "holds (d_heap d g) y" by (simp add: holds_def)
    moreover have "mapping_Overlaps x y" using k m(2) by (simp add: same_src_Overlaps)
    ultimately show "g' = g"
      using inv that(1,2) g unfolding inv_core_def no_overlaps_def by blast
  qed
  show ?thesis
  proof (cases "cg_enabled (d_heap d g)")
    case True
    have "x \<in> active_set (t_remove g ms d) \<longleftrightarrow> x \<in> active_set d \<and> src_key x \<notin> src_key ` set ms" for x
      unfolding active_set_def mem_Collect_eq lv hold t_remove_group using own by metis
    with True show ?thesis by auto
  next
    case False
    then have "x \<in> active_set (t_remove g ms d) \<longleftrightarrow> x \<in> active_set d" for x
      unfolding active_set_def mem_Collect_eq lv hold t_remove_group by metis
    with False show ?thesis by auto
  qed
qed

lemma active_retime:
  assumes inv: "inv_core d" and g: "live d g" and h: "holds (d_heap d g) m"
  shows "active_set (upd_group g (retime m t) d) =
    (if cg_enabled (d_heap d g) then (active_set d - {m}) \<union> {m\<lparr>m_Timeout := t\<rparr>} else active_set d)"
proof -
  let ?d = "upd_group g (retime m t) d"
  have ok: "group_ok (d_heap d g)" using inv g by (simp add: inv_core_def)
  have lv: "live ?d g' = live d g'" for g' by (simp add: live_def retime_def)
  have en: "cg_enabled (d_heap ?d g') = cg_enabled (d_heap d g')" for g' by (simp add: retime_def)
  have same: "x = m" if "holds (d_heap d g) x" "src_key x = src_key m" for x
    using that h by (simp add: holds_def)
  have hold: "holds (d_heap ?d g') x \<longleftrightarrow>
      (if g' = g then holds (d_heap d g) x \<and> x \<noteq> m \<or> x = m\<lparr>m_Timeout := t\<rparr> else holds (d_heap d g') x)"
    for g' x
    using group_ok_retime(2) [OF ok h, of t x] same by auto
  have own: "g' = g" if "live d g'" "holds (d_heap d g') m" for g'
    using inv that g h unfolding inv_core_def no_overlaps_def by (metis mapping_Overlaps_refl)
  show ?thesis
  proof (cases "cg_enabled (d_heap d g)")
    case True
    have "x \<in> active_set ?d \<longleftrightarrow> x \<in> active_set d \<and> x \<noteq> m \<or> x = m\<lparr>m_Timeout := t\<rparr>" for x
      unfolding active_set_def mem_Collect_eq lv en hold using True own g by metis
    with True show ?thesis by auto
  next
    case False
    have "x \<in> active_set ?d \<longleftrightarrow> x \<in> active_set d" for x
      unfolding active_set_def mem_Collect_eq lv en hold using False by metis
    with False show ?thesis by auto
  qed
qed

lemma active_enable:
  assumes inv: "inv_core d" and g: "live d g"
  shows "active_set (upd_group g (\<lambda>gr. gr\<lparr>cg_enabled := True\<rparr>) d) =
      active_set d \<union> set (group_mappings (d_heap d g))"
proof -
  have "group_ok (d_heap d g)" using inv g by (simp add: inv_core_def)
  note hm = holds_mappings [OF this]
  let ?d = "upd_group g (\<lambda>gr. gr\<lparr>cg_enabled := True\<rparr>) d"
  have lv: "live ?d g' = live d g'" and hold: "holds (d_heap ?d g') x = holds (d_heap d g') x"
    and en: "cg_enabled (d_heap ?d g') \<longleftrightarrow> cg_enabled (d_heap d g') \<or> g' = g" for g' x
    by (simp_all add: live_def holds_def)
  have "x \<in> active_set ?d \<longleftrightarrow> x \<in> active_set d \<or> x \<in> set (group_mappings (d_heap d g))" for x
    unfolding active_set_def mem_Collect_eq lv hold en hm using g by metis
  then show ?thesis by blast
qed

lemma active_disable:
  assumes inv: "inv_core d" and g: "live d g" and en: "cg_enabled (d_heap d g)"
  shows "active_set (upd_group g (\<lambda>gr. gr\<lparr>cg_enabled := False\<rparr>) d) =
      {x \<in> active_set d. src_key x \<notin> src_key ` set (group_mappings (d_heap d g))}"
proof -
  let ?d = "upd_group g (\<lambda>gr. gr\<lparr>cg_enabled := False\<rparr>) d"
  have "group_ok (d_heap d g)" using inv g by (simp add: inv_core_def)
  note hm = holds_mappings [OF this]
  have lv: "live ?d g' = live d g'" for g' by (simp add: live_def)
  have own: "g' = g" if x: "live d g'" "holds (d_heap d g') x"
      "src_key x \<in> src_key ` set (group_mappings (d_heap d g))" for g' x
  proof -
    from x(3) obtain m where m: "holds (d_heap d g) m" "src_key x = src_key m" using hm by blast
    then have "mapping_Overlaps x m" by (simp add: same_src_Overlaps)
    with inv x(1,2) g m(1) show ?thesis unfolding inv_core_def no_overlaps_def by blast
  qed
  have "x \<in> active_set ?d \<longleftrightarrow> x \<in> active_set d \<and> src_key x \<notin> src_key ` set (group_mappings (d_heap d g))"
    for x
  proof
    assume "x \<in> active_set ?d"
    then obtain g' where g': "live d g'" "g' \<noteq> g" "cg_enabled (d_heap d g')" "holds (d_heap d g') x"
      unfolding active_set_def lv by (auto split: if_splits)
    with own show "x \<in> active_set d \<and> src_key x \<notin> src_key ` set (group_mappings (d_heap d g))"
      unfolding active_set_def by blast
  next
    assume a: "x \<in> active_set d \<and> src_key x \<notin> src_key ` set (group_mappings (d_heap d g))"
    then obtain g' where g': "live d g'" "cg_enabled (d_heap d g')" "holds (d_heap d g') x"
      unfolding active_set_def by blast
    with a hm have "g' \<noteq> g" by blast
    with g' show "x \<in> active_set ?d" unfolding active_set_def lv by auto
  qed
  then show ?thesis by blast
qed

lemma check_present_own:
  assumes "group_ok gr"
  shows "check_present gr (group_mappings gr) = None"
  using assms holds_mappings [OF assms] holds_wf [OF assms]
  by (auto simp: check_present_None list_all_iff holds_def)

section \<open>Preservation\<close>

lemma group_AddMappings_kernel:
  assumes doc: "nft_documented K V" and inv: "kernel_inv V b d"
    and e: "group_AddMappings K g ms d = (r, d')"
  shows "kernel_inv V b d'"
proof (cases "unusable d g")
  case True
  with e inv show ?thesis by (simp add: group_AddMappings_def)
next
  case False
  with e have add: "addMappings K g ms d = (r, d')" and g: "live d g"
    by (simp_all add: group_AddMappings_def unusable_iff)
  have cinv: "connft_inv d" and st: "settled V d" using inv by (simp_all add: kernel_inv_def)
  then have core: "inv_core d" by (simp add: connft_inv_def)
  have inv': "connft_inv d'" using group_AddMappings_inv [OF cinv e] .
  note eff = addMappings_commits [OF doc st add] and tab = tables_addMappings [OF add]
    and cl = addMappings_closed [OF add]
  show ?thesis
  proof (cases "r = None")
    case False
    with eff have q: "quiet V d d'" by simp
    from False tab have "tables d' = tables d" by auto
    then have "active_set d' = active_set d" by (rule active_tables_eq)
    then show ?thesis by (intro kernel_inv_quiet [OF inv q inv' _ cl]) simp
  next
    case True
    have fr: "list_all (fresh_for d) ms" "sorted_wrt (\<lambda>x m. \<not> mapping_Overlaps m x) ms"
      using addMappings_fresh [OF core] add True by blast+
    have "list_all (fresh_for (tables d)) ms" using fr(1) by (simp add: list_all_iff)
    then have ins: "active_set (t_insert g ms (tables d)) =
        (if cg_enabled (d_heap d g) then active_set d \<union> set ms else active_set d)"
      using active_insert [of "tables d" g ms] fr(2) core g by simp
    have "tables d' = t_insert g ms (tables d)" using tab True by simp
    note act = active_of_tables [OF this, unfolded ins]
    show ?thesis
    proof (cases "cg_enabled (d_heap d g)")
      case en: True
      with eff True have c: "commits V (put_all ms) d d'" by simp
      have "keyed (active_set d \<union> set ms)"
        using keyed_active [of d'] inv' act en by (simp add: connft_inv_def)
      then show ?thesis
        using act en by (intro kernel_inv_commits [OF inv c inv' _ cl]) (simp add: sync_put)
    next
      case dis: False
      with eff have q: "quiet V d d'" by simp
      show ?thesis using act dis by (intro kernel_inv_quiet [OF inv q inv' _ cl]) simp
    qed
  qed
qed

lemma delMappings_kernel:
  assumes doc: "nft_documented K V" and inv: "kernel_inv V b d" and g: "live d g"
    and del: "delMappings K g ms d = (r, d')"
    and inv': "connft_inv d'"
  shows "kernel_inv V b d'"
proof -
  have cinv: "connft_inv d" and st: "settled V d" using inv by (simp_all add: kernel_inv_def)
  then have core: "inv_core d" by (simp add: connft_inv_def)
  note eff = delMappings_commits [OF doc st del] and tab = tables_delMappings [OF del]
    and cl = delMappings_closed [OF del]
  show ?thesis
  proof (cases "r = None \<and> ms \<noteq> []")
    case False
    with tab have "tables d' = tables d" by (auto simp: t_remove_def)
    then have act: "active_set d' = active_set d" by (rule active_tables_eq)
    have "quiet V d d'"
      using False eff by (auto simp: commits_def quiet_def drop_all_def split: if_splits)
    with act show ?thesis by (intro kernel_inv_quiet [OF inv _ inv' _ cl]) simp_all
  next
    case True
    then have pres: "check_present (d_heap d g) ms = None"
      using del by (auto simp: delMappings_def split: option.splits)
    then have "check_present (d_heap (tables d) g) ms = None" by (simp add: check_present_None)
    then have rem: "active_set (t_remove g ms (tables d)) = (if cg_enabled (d_heap d g)
        then {x \<in> active_set d. src_key x \<notin> src_key ` set ms} else active_set d)"
      using active_remove [of "tables d" g ms] core g by simp
    have "tables d' = t_remove g ms (tables d)" using tab True by simp
    note act = active_of_tables [OF this, unfolded rem]
    have wf: "\<forall>m \<in> set ms. mapping_wf m" using pres by (auto simp: check_present_None list_all_iff)
    show ?thesis
    proof (cases "cg_enabled (d_heap d g)")
      case en: True
      with eff True have c: "commits V (drop_all ms) d d'" by simp
      show ?thesis
        using act en wf keyed_active [OF core]
        by (intro kernel_inv_commits [OF inv c inv' _ cl]) (simp add: sync_drop)
    next
      case dis: False
      with eff have q: "quiet V d d'" by simp
      show ?thesis using act dis by (intro kernel_inv_quiet [OF inv q inv' _ cl]) simp
    qed
  qed
qed

lemma group_DelMappings_kernel:
  assumes doc: "nft_documented K V" and inv: "kernel_inv V b d"
    and e: "group_DelMappings K g ms d = (r, d')"
  shows "kernel_inv V b d'"
proof (cases "unusable d g")
  case True
  with e inv show ?thesis by (simp add: group_DelMappings_def)
next
  case False
  with e have del: "delMappings K g ms d = (r, d')" and g: "live d g"
    by (simp_all add: group_DelMappings_def unusable_iff)
  have "connft_inv d" using inv by (simp add: kernel_inv_def)
  from delMappings_kernel [OF doc inv g del group_DelMappings_inv [OF this e]] show ?thesis .
qed

lemma group_Enable_kernel:
  assumes doc: "nft_documented K V" and inv: "kernel_inv V b d" and e: "group_Enable K g d = (r, d')"
  shows "kernel_inv V b d'"
proof (cases "unusable d g \<or> cg_enabled (d_heap d g)")
  case True
  with e inv show ?thesis by (auto simp: group_Enable_def split: if_splits)
next
  case False
  have cinv: "connft_inv d" and st: "settled V d" using inv by (simp_all add: kernel_inv_def)
  then have core: "inv_core d" and g: "live d g" using False by (simp_all add: connft_inv_def unusable_iff)
  have inv': "connft_inv d'" using group_Enable_inv [OF cinv e] .
  let ?ms = "group_mappings (d_heap d g)" and ?f = "\<lambda>gr. gr\<lparr>cg_enabled := True\<rparr>"
  obtain r1 d1 where c: "ensureDNATAdded K ?ms d = (r1, d1)" by (cases "ensureDNATAdded K ?ms d")
  have e': "r1 = r" "d' = (if r = None then upd_group g ?f d1 else d1)"
    using e False c by (auto simp: group_Enable_def split: option.splits)
  note eff = ensureDNATAdded_commits [OF doc st c] and tab = tables_group_Enable [OF e]
  have cl: "d_closed d' = d_closed d" using tab tables_simps(4) [of d'] by (auto split: if_splits)
  show ?thesis
  proof (cases "r = None")
    case False
    with eff e' have q: "quiet V d d'" by simp
    from False tab have "tables d' = tables d" by auto
    then have "active_set d' = active_set d" by (rule active_tables_eq)
    then show ?thesis by (intro kernel_inv_quiet [OF inv q inv' _ cl]) simp
  next
    case True
    then have c1: "commits V (put_all ?ms) d d1" using eff e' by simp
    then have "quiet V d1 d'" unfolding e' using True by (auto intro!: quiet_upd simp: commits_def)
    with c1 have cm: "commits V (put_all ?ms) d d'" by (rule commits_quiet)
    have ena: "active_set (upd_group g ?f (tables d)) = active_set d \<union> set ?ms"
      using active_enable [of "tables d" g] core g by (simp add: group_mappings_def)
    have "tables d' = upd_group g ?f (tables d)" using tab True by simp
    note act = active_of_tables [OF this, unfolded ena]
    have "keyed (active_set d \<union> set ?ms)"
      using keyed_active [of d'] inv' act by (simp add: connft_inv_def)
    then show ?thesis
      using act by (intro kernel_inv_commits [OF inv cm inv' _ cl]) (simp add: sync_put)
  qed
qed

lemma group_Disable_kernel:
  assumes doc: "nft_documented K V" and inv: "kernel_inv V b d" and e: "group_Disable K g d = (r, d')"
  shows "kernel_inv V b d'"
proof (cases "unusable d g \<or> \<not> cg_enabled (d_heap d g)")
  case True
  with e inv show ?thesis by (auto simp: group_Disable_def split: if_splits)
next
  case False
  have cinv: "connft_inv d" and st: "settled V d" using inv by (simp_all add: kernel_inv_def)
  then have core: "inv_core d" and g: "live d g" and en: "cg_enabled (d_heap d g)"
    using False by (simp_all add: connft_inv_def unusable_iff)
  have inv': "connft_inv d'" using group_Disable_inv [OF cinv e] .
  let ?ms = "group_mappings (d_heap d g)" and ?f = "\<lambda>gr. gr\<lparr>cg_enabled := False\<rparr>"
  obtain r1 d1 where c: "ensureDNATDeleted K ?ms d = (r1, d1)" by (cases "ensureDNATDeleted K ?ms d")
  have e': "r1 = r" "d' = (if r = None then upd_group g ?f d1 else d1)"
    using e False c by (auto simp: group_Disable_def split: option.splits)
  note eff = ensureDNATDeleted_commits [OF doc st c] and tab = tables_group_Disable [OF e]
  have cl: "d_closed d' = d_closed d" using tab tables_simps(4) [of d'] by (auto split: if_splits)
  show ?thesis
  proof (cases "r = None")
    case False
    with eff e' have q: "quiet V d d'" by simp
    from False tab have "tables d' = tables d" by auto
    then have "active_set d' = active_set d" by (rule active_tables_eq)
    then show ?thesis by (intro kernel_inv_quiet [OF inv q inv' _ cl]) simp
  next
    case True
    then have c1: "commits V (drop_all ?ms) d d1" using eff e' by simp
    then have "quiet V d1 d'" unfolding e' using True by (auto intro!: quiet_upd simp: commits_def)
    with c1 have cm: "commits V (drop_all ?ms) d d'" by (rule commits_quiet)
    have dis: "active_set (upd_group g ?f (tables d)) =
        {x \<in> active_set d. src_key x \<notin> src_key ` set ?ms}"
      using active_disable [of "tables d" g] core g en by (simp add: group_mappings_def)
    have "tables d' = upd_group g ?f (tables d)" using tab True by simp
    note act = active_of_tables [OF this, unfolded dis]
    have "group_ok (d_heap d g)" using core g by (simp add: inv_core_def)
    then have "\<forall>m \<in> set ?ms. mapping_wf m" using holds_mappings holds_wf by blast
    then show ?thesis
      using act keyed_active [OF core]
      by (intro kernel_inv_commits [OF inv cm inv' _ cl]) (simp add: sync_drop)
  qed
qed

lemma group_SetTimeout_kernel:
  assumes doc: "nft_documented K V" and inv: "kernel_inv V b d"
    and e: "group_SetTimeout K g proto source t d = (r, d')"
  shows "kernel_inv V b d'"
proof (cases "unusable d g")
  case True
  with e inv show ?thesis by (simp add: group_SetTimeout_def)
next
  case False
  have cinv: "connft_inv d" and st: "settled V d" using inv by (simp_all add: kernel_inv_def)
  then have core: "inv_core d" and g: "live d g" using False by (simp_all add: connft_inv_def unusable_iff)
  then have ok: "group_ok (d_heap d g)" by (simp add: inv_core_def)
  have inv': "connft_inv d'" using group_SetTimeout_inv [OF cinv e] .
  have q0: "quiet V d (snd (ensureTimeoutSet K g proto source t d))"
    by (rule quiet_ensureTimeoutSet [OF doc st])
  have q: "quiet V d d'"
  proof -
    have "d' = d \<or> (\<exists>f. d' = upd_group g f (snd (ensureTimeoutSet K g proto source t d))
        \<and> (\<forall>gr. cg_flowInfo (f gr) = cg_flowInfo gr)) \<or> d' = snd (ensureTimeoutSet K g proto source t d)"
      using e False
      by (auto simp: group_SetTimeout_def split: option.splits if_splits prod.splits)
    then show ?thesis
      using q0 quiet_refl [OF st] quiet_upd [OF quiet_settled [OF q0]] quiet_trans [OF q0] by metis
  qed
  note tab = tables_group_SetTimeout [OF e ok]
  then have cl: "d_closed d' = d_closed d"
    by (metis tables_simps(4) upd_group_simps(3))
  from tab show ?thesis
  proof (elim disjE exE conjE)
    assume "tables d' = tables d"
    then have "active_set d' = active_set d" by (rule active_tables_eq)
    then show ?thesis by (intro kernel_inv_quiet [OF inv q inv' _ cl]) simp
  next
    fix m
    assume h: "holds (d_heap d g) m" and t: "tables d' = upd_group g (retime m t) (tables d)"
    have ret: "active_set (upd_group g (retime m t) (tables d)) = (if cg_enabled (d_heap d g)
        then (active_set d - {m}) \<union> {m\<lparr>m_Timeout := t\<rparr>} else active_set d)"
      using active_retime [of "tables d" g m t] core g h by simp
    note act = active_of_tables [OF t, unfolded ret]
    have "m \<in> active_set d" if "cg_enabled (d_heap d g)"
      using that g h unfolding active_set_def by blast
    then show ?thesis
      using act sync_retime [OF _ _ keyed_active [OF core], of b "elems_of V d" m t]
      by (intro kernel_inv_quiet [OF inv q inv' _ cl]) (cases "cg_enabled (d_heap d g)"; simp)
  qed
qed

lemma NewGroup_kernel:
  assumes inv: "kernel_inv V b d" and e: "NewGroup name now d = (r, d')"
  shows "kernel_inv V b d'"
proof (cases "d_closed d \<or> map_of (d_groups d) name \<noteq> None")
  case True
  with inv e show ?thesis by (auto simp: NewGroup_def NewConnftGroup_def split: if_splits)
next
  case False
  have cinv: "connft_inv d" and st: "settled V d" using inv by (simp_all add: kernel_inv_def)
  have inv': "connft_inv d'" using NewGroup_inv [OF cinv e] .
  let ?g = "d_next d"
  let ?gr = "\<lparr>cg_name = name, cg_bySrc = [], cg_byDst = [], cg_flowInfo = [], cg_lastSeen = now,
    cg_ttl = 0, cg_enabled = False, cg_closed = False\<rparr> :: connft_group"
  from False e have d': "d' = d\<lparr>d_heap := (d_heap d)(?g := ?gr), d_next := Suc ?g,
      d_groups := AList.update name ?g (d_groups d)\<rparr>"
    by (auto simp: NewGroup_def NewConnftGroup_def Let_def)
  have dead: "\<not> live d ?g" using cinv by (auto simp: connft_inv_def inv_core_def registered_def)
  have "(live d' g \<and> cg_enabled (d_heap d' g) \<and> holds (d_heap d' g) x) \<longleftrightarrow>
      (live d g \<and> cg_enabled (d_heap d g) \<and> holds (d_heap d g) x)" for g x
    using dead by (cases "g = ?g") (simp_all add: d' live_def)
  then have "active_set d' = active_set d" by (simp add: active_set_def)
  moreover have "quiet V d d'"
    using st by (auto simp: quiet_def settled_def elems_of_def flow_rules_ok_def d' split: if_splits)
  moreover have "d_closed d' = d_closed d" by (simp add: d')
  ultimately show ?thesis using inv inv' by (intro kernel_inv_quiet [OF inv]) simp_all
qed

text \<open>A \<open>Close\<close> of a group whose elements could not be removed leaves them behind.\<close>

lemma close_group_kernel:
  assumes doc: "nft_documented K V" and inv: "inv_core d" and st: "settled V d"
    and sy: "sync b (active_set d) (elems_of V d)" and e: "close_group K g d = (r, d')"
  shows "settled V d' \<and> sync (b \<and> r = None) (active_set d') (elems_of V d')
    \<and> dnat_rules (table_of V d') = dnat_rules (table_of V d)"
proof (cases "live d g")
  case False
  with e sy st show ?thesis by (auto simp: close_group_def live_def)
next
  case g: True
  obtain d1 where c: "clearMappings K g d = (r, d1)" and d': "d' = t_close g d1"
    using e g by (cases "clearMappings K g d") (auto simp: close_group_eq live_def)
  let ?ms = "group_mappings (d_heap d g)"
  have del: "delMappings K g ?ms d = (r, d1)" using c by (simp add: clearMappings_def)
  have ok: "group_ok (d_heap d g)" using inv g by (simp add: inv_core_def)
  note eff = delMappings_commits [OF doc st del] and tab = tables_delMappings [OF del]
  have st1: "settled V d1" using eff by (simp add: commits_def quiet_def split: if_splits)
  have view: "elems_of V d' = elems_of V d1" "table_of V d' = table_of V d1" "settled V d'"
    using st1 flow_rules_upd [of d1 "\<lambda>gr. gr\<lparr>cg_closed := True\<rparr>" g]
    by (simp_all add: d' t_close_def elems_of_def settled_def flow_rules_ok_def)
  have rules: "dnat_rules (table_of V d1) = dnat_rules (table_of V d)"
    using eff by (simp add: commits_def quiet_def split: if_splits)
  have closed: "active_set (t_close g x) \<subseteq> active_set x" for x :: "'a connft"
    by (auto simp: active_set_def t_close_def live_def holds_def split: if_splits)
  show ?thesis
  proof (cases "r = None")
    case False
    with tab have "tables d1 = tables d" by auto
    then have "active_set d' \<subseteq> active_set d" using closed [of d1] active_tables_eq d' by metis
    moreover have "elems_of V d' = elems_of V d" using False eff view by (auto simp: quiet_def)
    moreover have "(b \<and> r = None) = False" using False by simp
    ultimately show ?thesis using sync_weaken [OF sy] view rules by (simp only: simp_thms)
  next
    case True
    have pres: "check_present (d_heap d g) ?ms = None" by (rule check_present_own [OF ok])
    then have "check_present (d_heap (tables d) g) ?ms = None" by (simp add: check_present_None)
    then have rem: "active_set (t_remove g ?ms (tables d)) = (if cg_enabled (d_heap d g)
        then {x \<in> active_set d. src_key x \<notin> src_key ` set ?ms} else active_set d)"
      using active_remove [of "tables d" g ?ms] inv g by simp
    have t1: "tables d1 = t_remove g ?ms (tables d)" using tab True by simp
    note act = active_of_tables [OF this, unfolded rem]
    have "map_of (cg_bySrc (d_heap (tables d1) g)) (src_key x) \<noteq> Some x" for x
      unfolding t1 t_remove_bySrc using holds_mappings [OF ok, of x] by (auto simp: holds_def)
    then have "\<not> holds (d_heap d1 g) x" for x by (simp add: holds_def)
    then have same: "active_set d' = active_set d1"
      by (auto simp: d' active_set_def t_close_def live_def holds_def split: if_splits) metis
    have wf: "\<forall>m \<in> set ?ms. mapping_wf m" using holds_mappings [OF ok] holds_wf [OF ok] by blast
    have "sync b (active_set d1) (elems_of V d1)"
      using eff True sync_drop [OF sy keyed_active [OF inv] wf] sy act
      by (simp add: commits_def quiet_def split: if_splits)
    with same view rules True show ?thesis by simp
  qed
qed

lemma group_Close_kernel:
  assumes doc: "nft_documented K V" and inv: "kernel_inv V b d" and e: "group_Close K g d = (r, d')"
  shows "kernel_inv V (b \<and> r = None) d'"
proof -
  have cinv: "connft_inv d" and st: "settled V d" and sy: "sync b (active_set d) (elems_of V d)"
    using inv by (simp_all add: kernel_inv_def)
  then have core: "inv_core d" by (simp add: connft_inv_def)
  have cl: "close_group K g d = (r, d')" using e by (simp add: group_Close_def)
  have "d_closed d' = d_closed d"
    using inv_close_group(3) [OF core _ cl] cl by (cases "live d g") (auto simp: close_group_def live_def)
  then show ?thesis
    using close_group_kernel [OF doc core st sy cl] group_Close_inv [OF cinv e] inv
    by (simp add: kernel_inv_def)
qed

lemma close_groups_kernel:
  assumes doc: "nft_documented K V" and "inv_core d" and "settled V d"
    and "sync b (active_set d) (elems_of V d)" and "close_groups K gs d = (es, d')"
  shows "settled V d'
    \<and> sync (b \<and> list_all (\<lambda>e. e = None) es) (active_set d') (elems_of V d')"
  using assms(2-)
proof (induction gs arbitrary: d b es)
  case Nil
  then show ?case by simp
next
  case (Cons g gs)
  obtain e d1 where c: "close_group K g d = (e, d1)" by (cases "close_group K g d")
  obtain es1 where rest: "close_groups K gs d1 = (es1, d')" and es: "es = e # es1"
    using Cons.prems(4) c by (auto simp: Let_def split: prod.splits)
  have "inv_core d1"
    using inv_close_group(1) [OF Cons.prems(1) _ c] c Cons.prems(1)
    by (cases "live d g") (auto simp: close_group_def live_def)
  with close_group_kernel [OF doc Cons.prems(1-3) c] Cons.IH [OF _ _ _ rest, of "b \<and> e = None"] es
  show ?case by simp
qed

lemma connft_Close_kernel:
  assumes doc: "nft_documented K V" and inv: "kernel_inv V b d" and e: "connft_Close K d = (r, d')"
  shows "kernel_inv V (b \<and> r = None) d'"
proof (cases "d_closed d")
  case True
  with e inv show ?thesis by (simp add: connft_Close_def)
next
  case False
  let ?d0 = "d\<lparr>d_closed := True\<rparr>"
  have cinv: "connft_inv d" and st: "settled V d" and sy: "sync b (active_set d) (elems_of V d)"
    using inv by (simp_all add: kernel_inv_def)
  then have core: "inv_core ?d0" by (simp add: inv_defs)
  have st0: "settled V ?d0" using st by (simp add: settled_def flow_rules_ok_def)
  have sy0: "sync b (active_set ?d0) (elems_of V ?d0)"
    using sy by (simp add: active_set_def live_def elems_of_def)
  obtain es d1 where c: "close_groups K (map snd (d_groups ?d0)) ?d0 = (es, d1)"
    by (cases "close_groups K (map snd (d_groups ?d0)) ?d0")
  obtain e2 d2 where t: "ensureTableDeleted K d1 = (e2, d2)" by (cases "ensureTableDeleted K d1")
  have d': "d' = d2\<lparr>d_nft := ct_Close K (d_nft d2)\<rparr>" and r: "r = map_option DpJoined (errors_join (es @ [e2]))"
    using e False c t by (simp_all add: connft_Close_def Let_def)
  have k1: "settled V d1" "sync (b \<and> list_all (\<lambda>e. e = None) es) (active_set d1) (elems_of V d1)"
    using close_groups_kernel [OF doc core st0 sy0 c] by simp_all
  obtain r2 where f: "nft_flush K (snd (nft_do K (DelTable (d_table d1)) d1)) = (r2, d2)"
      and e2: "e2 = map_option (DpNft '''') (not_ENOENT r2)"
    using t by (auto simp: ensureTableDeleted_def Let_def split: prod.splits)
  note o = nft_do_accepted [OF doc, of "DelTable (d_table d1)" d1, simplified]
  note v = nft_flush_view [OF doc f, unfolded o]
  have q1: "queue_of V d1 = []" using k1(1) by (simp add: settled_def)
  have st2: "settled V d2"
    using v(1,4) k1(1) by (simp add: settled_def flow_rules_ok_def)
  have empty: "table_of V d2 = empty_table" if "e2 = None"
    using that v(2) v(3) [of "d_table d1"] q1 e2 by (auto simp: not_ENOENT_def split: if_splits)
  have same: "same_table V (d_nft d2) (ct_Close K (d_nft d2))"
    using doc by (simp add: nft_documented_def)
  have view: "table_of V d' = table_of V d2" "settled V d'"
    using same st2 by (simp_all add: d' view_defs same_table_def settled_def flow_rules_ok_def)
  note closed = connft_Close_inv [OF cinv e]
  have none: "active_set d' = {}" using closed(3) by (auto simp: active_set_def)
  have "sync (b \<and> r = None) {} (elems_of V d')"
    using empty view(1) by (auto simp: r sync_def served_def exact_def elems_of_def empty_table_def)
  with none view(2) closed(1,2) show ?thesis by (simp add: kernel_inv_def)
qed

lemma ensureTableAdded_kernel:
  assumes doc: "nft_documented K V" and q: "nv_queue V n = []"
    and e: "ensureTableAdded K (connft_init name n) = (None, d)"
  shows "queue_of V d = [] \<and> elems_of V d = (\<lambda>_ _. None) \<and> dnat_rules (table_of V d) = addDNATRules
    \<and> d_heap d = d_heap (connft_init name n)"
proof -
  let ?d = "connft_init name n"
  have nm: "d_name ?d = name" "d_nft ?d = n" by (simp_all add: connft_init_def)
  obtain err0 existing n1 where l: "nft_ListTable K name n = (err0, existing, n1)" by (metis prod_cases3)
  let ?d0 = "?d\<lparr>d_nft := n1\<rparr>"
  have "list_documented K V" using doc by (simp add: nft_documented_def)
  from this [unfolded list_documented_def, rule_format, OF l]
  have l1: "queue_of V ?d0 = []"
    "err0 = Some ENOENT \<or> err0 = None \<and> \<not> existing \<longrightarrow> table_of V ?d0 = empty_table"
    using q by (auto simp: same_table_def view_defs)
  obtain err d1 where f: "(if err0 = None \<and> existing
      then nft_flush K (snd (nft_do K (DelTable (Some name)) ?d0)) else (err0, ?d0)) = (err, d1)"
    by fastforce
  have rest: "not_ENOENT err = None \<and> (case add_sets K dnat_set_decls
          ((snd (nft_do K (CreateTable name) d1))\<lparr>d_table := Some name\<rparr>) of
        (Some e, d2) \<Rightarrow> False
      | (None, d2) \<Rightarrow>
          (case nft_flush K (nft_do_all K [AddChain Prerouting, AddChain Timeouts] d2) of
             (Some e, d3) \<Rightarrow> False
           | (None, d3) \<Rightarrow> nft_flush K (nft_do_all K (map AddRule addDNATRules) d3) = (None, d)))"
    using e unfolding ensureTableAdded_def nm l Let_def prod.case f
    by (simp split: prod.splits option.splits)
  note o = nft_do_accepted [OF doc, of "DelTable (Some name)" ?d0, simplified]
  have d1: "queue_of V d1 = [] \<and> table_of V d1 = empty_table \<and> d_heap d1 = d_heap ?d"
  proof (cases "err0 = None \<and> existing")
    case True
    then have "nft_flush K (snd (nft_do K (DelTable (Some name)) ?d0)) = (err, d1)" using f by simp
    note v = nft_flush_view [OF doc this, unfolded o]
    show ?thesis
      using v(1,2,4) v(3) [of "Some name"] l1(1) rest by (auto simp: not_ENOENT_def split: if_splits)
  next
    case False
    with f l1 rest show ?thesis by (auto simp: not_ENOENT_def split: if_splits)
  qed
  let ?d2 = "(snd (nft_do K (CreateTable name) d1))\<lparr>d_table := Some name\<rparr>"
  note c = nft_do_accepted [OF doc, of "CreateTable name" d1, simplified]
  obtain r2 d2 where s: "add_sets K dnat_set_decls ?d2 = (r2, d2)" by (cases "add_sets K dnat_set_decls ?d2")
  obtain r3 d3 where f3: "nft_flush K (nft_do_all K [AddChain Prerouting, AddChain Timeouts] d2) = (r3, d3)"
    by fastforce
  have rs: "r2 = None" "r3 = None" and f4: "nft_flush K (nft_do_all K (map AddRule addDNATRules) d3) = (None, d)"
    using rest s f3 by (auto split: option.splits)
  have d2: "table_of V d2 = empty_table" "queue_of V d2 = CreateTable name # map snd dnat_set_decls"
      "d_heap d2 = d_heap ?d"
    using add_sets_view [OF doc s [unfolded rs]] c d1 by simp_all
  have ch: "table_of V (nft_do_all K [AddChain Prerouting, AddChain Timeouts] d2) = table_of V d2
    \<and> queue_of V (nft_do_all K [AddChain Prerouting, AddChain Timeouts] d2) =
        queue_of V d2 @ [AddChain Prerouting, AddChain Timeouts]
    \<and> d_heap (nft_do_all K [AddChain Prerouting, AddChain Timeouts] d2) = d_heap d2"
    by (rule nft_do_all_accepted [OF doc]) simp
  have d3: "table_of V d3 = empty_table" "queue_of V d3 = []" "d_heap d3 = d_heap ?d"
    using nft_flush_view [OF doc f3] ch d2 rs by (simp_all add: dnat_set_decls_def)
  have ru: "table_of V (nft_do_all K (map AddRule addDNATRules) d3) = table_of V d3
    \<and> queue_of V (nft_do_all K (map AddRule addDNATRules) d3) = queue_of V d3 @ map AddRule addDNATRules
    \<and> d_heap (nft_do_all K (map AddRule addDNATRules) d3) = d_heap d3"
    by (rule nft_do_all_accepted [OF doc]) (simp add: list_all_iff)
  have rules: "apply_batch (map AddRule rs) t = t\<lparr>nt_rules := nt_rules t @ rs\<rparr>" for rs t
    by (induction rs arbitrary: t) simp_all
  have pre: "filter (\<lambda>r. rule_Chain r = Prerouting) addDNATRules = addDNATRules"
    by (simp add: dnat_rule_defs)
  show ?thesis
    using nft_flush_view [OF doc f4] ru d3 by (simp add: rules pre elems_of_def dnat_rules_def empty_table_def)
qed

lemma connft_New_kernel:
  assumes doc: "nft_documented K V" and q: "nv_queue V n = []" and e: "connft_New K name n = (Inr d, n')"
  shows "kernel_inv V True d"
proof -
  have t: "ensureTableAdded K (connft_init name n) = (None, d)"
    using e by (auto simp: connft_New_def split: prod.splits option.splits)
  note k = ensureTableAdded_kernel [OF doc q t]
  then have "active_set d = {}" "flow_rules_ok d"
    by (simp_all add: active_set_def live_def flow_rules_ok_def connft_init_def)
  with k connft_New_inv [OF e] show ?thesis by (simp add: kernel_inv_def settled_def sync_empty)
qed

end
