(* ===== verification/Nft_Machine.thy ===== *)
theory Nft_Machine
  imports Sync_Ops
begin

text \<open>
  What the rules of \<open>connft_nft_rules.go\<close> do to a packet. The evaluation of one expression belongs
  to the kernel and is the parameter \<open>exec\<close>; \<open>nft_machine\<close> states its documented behaviour on
  the expressions the code uses: a register file of bytes, values stored padded to 32 bits,
  comparisons and lookups that end a rule, a destination NAT that ends the chain.
\<close>

section \<open>Packets on the wire\<close>

record wire =
  w_nfproto :: byte
  w_l4proto :: byte
  w_network :: "byte list"
  w_transport :: "byte list"

text \<open>
  The destination of a packet in its headers: bytes 16 to 19 of an IPv4 header, 24 to 39 of an
  IPv6 header, 2 and 3 of a TCP or UDP header.
\<close>

definition wire_carries :: "wire \<Rightarrow> packet \<Rightarrow> bool" where
  "wire_carries w pkt \<longleftrightarrow>
     (let a = ap_addr (pkt_dst pkt)
      in w_l4proto w = pkt_proto pkt \<and> addr_Zone a = ''''
         \<and> take 2 (drop 2 (w_transport w)) = encodePort (ap_port (pkt_dst pkt))
         \<and> (addr_Is4 a \<and> w_nfproto w = NFPROTO_IPV4 \<and> take 4 (drop 16 (w_network w)) = addr_AsSlice a
            \<or> addr_Is6 a \<and> w_nfproto w = NFPROTO_IPV6 \<and> take 16 (drop 24 (w_network w)) = addr_AsSlice a))"

section \<open>Registers\<close>

type_synonym registers = "nat \<Rightarrow> byte"

fun reg_base :: "nft_reg \<Rightarrow> nat" where
  "reg_base NFT_REG_1 = 0"
| "reg_base NFT_REG_2 = 16"
| "reg_base NFT_REG_3 = 32"
| "reg_base NFT_REG32_00 = 0"
| "reg_base NFT_REG32_01 = 4"
| "reg_base NFT_REG32_02 = 8"
| "reg_base NFT_REG32_04 = 16"
| "reg_base NFT_REG32_05 = 20"

definition load :: "registers \<Rightarrow> nat \<Rightarrow> nat \<Rightarrow> byte list" where
  "load R a n = map R [a..<a + n]"

definition store :: "registers \<Rightarrow> nat \<Rightarrow> byte list \<Rightarrow> registers" where
  "store R a bs = (\<lambda>i. if a \<le> i \<and> i < a + length bs then bs ! (i - a) else R i)"

lemma load_add: "load R a (m + n) = load R a m @ load R (a + m) n"
  unfolding load_def by (metis add.assoc map_append upt_add_eq_append le_add1)

lemma load_store_in:
  assumes "a \<le> b" and "b + n \<le> a + length bs"
  shows "load (store R a bs) b n = take n (drop (b - a) bs)"
  using assms by (intro nth_equalityI) (auto simp: load_def store_def)

lemma load_store_out:
  assumes "b + n \<le> a \<or> a + length bs \<le> b"
  shows "load (store R a bs) b n = load R b n"
  using assms by (intro nth_equalityI) (auto simp: load_def store_def)

section \<open>Expressions\<close>

datatype nft_effect = Next registers | Mismatch | Translate "byte list" "byte list" | Attach string

type_synonym nft_exec = "elements \<Rightarrow> wire \<Rightarrow> nft_expr \<Rightarrow> registers \<Rightarrow> nft_effect"

fun header :: "payload_base \<Rightarrow> wire \<Rightarrow> byte list" where
  "header PayloadBaseNetworkHeader w = w_network w"
| "header PayloadBaseTransportHeader w = w_transport w"

fun meta_val :: "meta_key \<Rightarrow> wire \<Rightarrow> byte" where
  "meta_val MetaKeyL4PROTO w = w_l4proto w"
| "meta_val MetaKeyNFPROTO w = w_nfproto w"

text \<open>The length of the keys of a map: its concatenated fields, each padded to 32 bits.\<close>

fun field_len :: "nft_datatype \<Rightarrow> nat" where
  "field_len TypeInetProto = 4"
| "field_len TypeInetService = 4"
| "field_len TypeIPAddr = 4"
| "field_len TypeIP6Addr = 16"

fun set_key :: "dnat_set \<Rightarrow> nft_datatype list" where
  "set_key DnatSpecific4 = keySpecific4"
| "set_key DnatSpecific6 = keySpecific6"
| "set_key DnatWildcard4 = keyWildcard"
| "set_key DnatWildcard6 = keyWildcard"

definition key_len :: "dnat_set \<Rightarrow> nat" where
  "key_len s = sum_list (map field_len (set_key s))"

definition nft_machine :: "nft_exec \<Rightarrow> bool" where
  "nft_machine exec \<longleftrightarrow> (\<forall>E w R.
     (\<forall>k r. exec E w (Meta k r) R = Next (store R (reg_base r) (pad4 [meta_val k w])))
     \<and> (\<forall>r bs. exec E w (Cmp r bs) R =
          (if load R (reg_base r) (length bs) = bs then Next R else Mismatch))
     \<and> (\<forall>r b off len. exec E w (Payload r b off len) R =
          (if off + len \<le> length (header b w)
           then Next (store R (reg_base r) (pad4 (take len (drop off (header b w))))) else Mismatch))
     \<and> (\<forall>src s dst. exec E w (Lookup src s dst) R =
          (case E s (load R (reg_base src) (key_len s)) of
             None \<Rightarrow> Mismatch | Some v \<Rightarrow> Next (store R (reg_base dst) v)))
     \<and> (\<forall>f a p. exec E w (NAT f a p) R =
          Translate (load R (reg_base a) (if f = NFPROTO_IPV4 then 4 else 16)) (load R (reg_base p) 2))
     \<and> (\<forall>name. exec E w (Objref name) R = Attach name))"

text \<open>A machine that behaves as documented.\<close>

fun ref_exec :: nft_exec where
  "ref_exec E w (Meta k r) R = Next (store R (reg_base r) (pad4 [meta_val k w]))"
| "ref_exec E w (Cmp r bs) R = (if load R (reg_base r) (length bs) = bs then Next R else Mismatch)"
| "ref_exec E w (Payload r b off len) R =
     (if off + len \<le> length (header b w)
      then Next (store R (reg_base r) (pad4 (take len (drop off (header b w))))) else Mismatch)"
| "ref_exec E w (Lookup src s dst) R =
     (case E s (load R (reg_base src) (key_len s)) of
        None \<Rightarrow> Mismatch | Some v \<Rightarrow> Next (store R (reg_base dst) v))"
| "ref_exec E w (NAT f a p) R =
     Translate (load R (reg_base a) (if f = NFPROTO_IPV4 then 4 else 16)) (load R (reg_base p) 2)"
| "ref_exec E w (Objref name) R = Attach name"

lemma ref_machine: "nft_machine ref_exec"
  by (simp add: nft_machine_def)

section \<open>Rules and chains\<close>

text \<open>
  Running a rule gives the registers it leaves, the objects it attached and the translation it
  decided, if any; a translation ends the chain. Registers carry over from rule to rule.
\<close>

type_synonym verdict = "registers \<times> string list \<times> (byte list \<times> byte list) option"

fun run_rule :: "nft_exec \<Rightarrow> elements \<Rightarrow> wire \<Rightarrow> nft_expr list \<Rightarrow> registers \<Rightarrow> verdict" where
  "run_rule exec E w [] R = (R, [], None)"
| "run_rule exec E w (e # es) R =
     (case exec E w e R of
        Next R' \<Rightarrow> run_rule exec E w es R'
      | Mismatch \<Rightarrow> (R, [], None)
      | Translate a p \<Rightarrow> (R, [], Some (a, p))
      | Attach name \<Rightarrow> (let (R', names, t) = run_rule exec E w es R in (R', name # names, t)))"

fun run_chain :: "nft_exec \<Rightarrow> elements \<Rightarrow> wire \<Rightarrow> nft_rule list \<Rightarrow> registers \<Rightarrow> verdict" where
  "run_chain exec E w [] R = (R, [], None)"
| "run_chain exec E w (r # rs) R =
     (let (R', names, t) = run_rule exec E w (rule_Exprs r) R
      in case t of
           Some x \<Rightarrow> (R', names, Some x)
         | None \<Rightarrow> (let (R'', names', t') = run_chain exec E w rs R' in (R'', names @ names', t')))"

definition attached :: "verdict \<Rightarrow> string list" where
  "attached v = fst (snd v)"

definition translation :: "verdict \<Rightarrow> (byte list \<times> byte list) option" where
  "translation v = snd (snd v)"

lemma translation_simps [simp]: "translation (R, n, t) = t" "attached (R, n, t) = n"
  by (simp_all add: translation_def attached_def)

lemma run_chain_translation:
  "translation (run_chain exec E w (r # rs) R) =
     (case translation (run_rule exec E w (rule_Exprs r) R) of Some x \<Rightarrow> Some x
      | None \<Rightarrow> translation (run_chain exec E w rs (fst (run_rule exec E w (rule_Exprs r) R))))"
  by (auto simp: translation_def Let_def split: prod.splits option.splits)

section \<open>The DNAT rules on a packet\<close>

lemma key_len_simps [simp]:
  "key_len DnatSpecific4 = 12" "key_len DnatSpecific6 = 24" "key_len DnatWildcard4 = 8"
  "key_len DnatWildcard6 = 8"
  by (simp_all add: key_len_def keySpecific4_def keySpecific6_def keyWildcard_def)

lemma nfproto_distinct [simp]: "NFPROTO_IPV4 \<noteq> NFPROTO_IPV6" "NFPROTO_IPV6 \<noteq> NFPROTO_IPV4"
  by (simp_all add: NFPROTO_IPV4_def NFPROTO_IPV6_def)

lemma load_1: "length bs = Suc 0 \<Longrightarrow> load (store R a (pad4 bs)) a (Suc 0) = bs"
  by (cases bs) (simp_all add: load_store_in pad4_def)

lemma take_len_bound: "take n (drop i xs) = bs \<Longrightarrow> length bs = n \<Longrightarrow> 0 < n \<Longrightarrow> i + n \<le> length xs"
  by (auto simp: min_def split: if_splits)

text \<open>What a lookup that succeeds makes of its value.\<close>

definition dnat4 :: "byte list \<Rightarrow> byte list \<times> byte list" where
  "dnat4 v = (take 4 v, take 2 (drop 4 v))"

definition dnat6 :: "byte list \<Rightarrow> byte list \<times> byte list" where
  "dnat6 v = (take 16 v, take 2 (drop 16 v))"

lemma load_8: "load (store (store R 0 a) 4 b) 0 8 = a @ b" if "length a = 4" "length b = 4"
  using load_add [of "store (store R 0 a) 4 b" 0 4 4] that
  by (simp add: load_store_in load_store_out)

lemma load_12: "load (store (store (store R 0 a) 4 b) 8 c) 0 12 = a @ b @ c"
  if "length a = 4" "length b = 4" "length c = 4"
  using load_add [of "store (store (store R 0 a) 4 b) 8 c" 0 4 8]
    load_add [of "store (store (store R 0 a) 4 b) 8 c" 4 4 4] that
  by (simp add: load_store_in load_store_out)

lemma load_24: "load (store (store (store R 0 a) 4 b) 20 c) 0 24 = a @ b @ c"
  if "length a = 4" "length b = 16" "length c = 4"
  using load_add [of "store (store (store R 0 a) 4 b) 20 c" 0 4 20]
    load_add [of "store (store (store R 0 a) 4 b) 20 c" 4 16 4] that
  by (simp add: load_store_in load_store_out)

end
