(* ===== verification/Forwarding.thy ===== *)
theory Forwarding
  imports Nft_Machine
begin

text \<open>
  The translation a packet meets in the prerouting chain, in terms of the elements of the four
  maps and then of the mappings whose elements they are.
\<close>

section \<open>One rule\<close>

lemma machine_simps:
  assumes "nft_machine exec"
  shows "exec E w (Meta k r) R = Next (store R (reg_base r) (pad4 [meta_val k w]))"
    and "exec E w (Cmp r bs) R =
      (if load R (reg_base r) (length bs) = bs then Next R else Mismatch)"
    and "exec E w (Payload r b off len) R =
      (if off + len \<le> length (header b w)
       then Next (store R (reg_base r) (pad4 (take len (drop off (header b w))))) else Mismatch)"
    and "exec E w (Lookup src s dst) R =
      (case E s (load R (reg_base src) (key_len s)) of
         None \<Rightarrow> Mismatch | Some v \<Rightarrow> Next (store R (reg_base dst) v))"
    and "exec E w (NAT f a p) R =
      Translate (load R (reg_base a) (if f = NFPROTO_IPV4 then 4 else 16)) (load R (reg_base p) 2)"
    and "exec E w (Objref name) R = Attach name"
  using assms by (simp_all add: nft_machine_def)

lemma carried_port:
  assumes "wire_carries w pkt"
  shows "4 \<le> length (w_transport w)"
    and "take 2 (drop 2 (w_transport w)) = encodePort (ap_port (pkt_dst pkt))"
  using assms take_len_bound [of 2 2 "w_transport w" "encodePort (ap_port (pkt_dst pkt))"]
  by (simp_all add: wire_carries_def Let_def)

lemma carried_addr4:
  assumes "wire_carries w pkt" and "addr_Is4 (ap_addr (pkt_dst pkt))"
  shows "20 \<le> length (w_network w)" "w_nfproto w = NFPROTO_IPV4"
    and "take 4 (drop 16 (w_network w)) = addr_AsSlice (ap_addr (pkt_dst pkt))"
  using assms take_len_bound [of 4 16 "w_network w" "addr_AsSlice (ap_addr (pkt_dst pkt))"]
  by (auto simp: wire_carries_def Let_def length_AsSlice)

lemma carried_addr6:
  assumes "wire_carries w pkt" and "\<not> addr_Is4 (ap_addr (pkt_dst pkt))"
  shows "40 \<le> length (w_network w)" "w_nfproto w = NFPROTO_IPV6" "addr_Is6 (ap_addr (pkt_dst pkt))"
    and "take 16 (drop 24 (w_network w)) = addr_AsSlice (ap_addr (pkt_dst pkt))"
  using assms take_len_bound [of 16 24 "w_network w" "addr_AsSlice (ap_addr (pkt_dst pkt))"]
  by (auto simp: wire_carries_def Let_def length_AsSlice)

lemma carried_proto: "wire_carries w pkt \<Longrightarrow> w_l4proto w = pkt_proto pkt"
  by (simp add: wire_carries_def Let_def)

lemma nfproto_iff:
  assumes "wire_carries w pkt"
  shows "w_nfproto w = NFPROTO_IPV4 \<longleftrightarrow> addr_Is4 (ap_addr (pkt_dst pkt))"
    and "w_nfproto w = NFPROTO_IPV6 \<longleftrightarrow> \<not> addr_Is4 (ap_addr (pkt_dst pkt))"
  using carried_addr4 [OF assms] carried_addr6 [OF assms]
  by (cases "addr_Is4 (ap_addr (pkt_dst pkt))"; simp)+

lemma take_pad4 [simp]: "take (Suc 0) (pad4 [x]) = [x]"
  by (simp add: pad4_def)

text \<open>The values of the maps have the length their types declare.\<close>

definition sized :: "elements \<Rightarrow> bool" where
  "sized E \<longleftrightarrow> (\<forall>s k v. E s k = Some v \<longrightarrow>
     length v = (if s \<in> {DnatSpecific4, DnatWildcard4} then 8 else 20))"

lemma sizedD:
  assumes "sized E"
  shows "E DnatSpecific4 k = Some v \<Longrightarrow> length v = 8" "E DnatWildcard4 k = Some v \<Longrightarrow> length v = 8"
    "E DnatSpecific6 k = Some v \<Longrightarrow> length v = 20" "E DnatWildcard6 k = Some v \<Longrightarrow> length v = 20"
  using assms unfolding sized_def by force+

definition wild_key :: "packet \<Rightarrow> byte list" where
  "wild_key pkt = encodeWildcardKey (pkt_proto pkt) (ap_port (pkt_dst pkt))"

definition spec_key :: "packet \<Rightarrow> byte list" where
  "spec_key pkt = encodeSpecificKey (pkt_proto pkt) (pkt_dst pkt)"

lemma wildcard4_translation:
  assumes M: "nft_machine exec" and c: "wire_carries w pkt" and s: "sized E"
  shows "translation (run_rule exec E w (rule_Exprs dnatWildcardRule4) R) =
    (if addr_Is4 (ap_addr (pkt_dst pkt)) then map_option dnat4 (E DnatWildcard4 (wild_key pkt)) else None)"
proof (cases "addr_Is4 (ap_addr (pkt_dst pkt))")
  case True
  then show ?thesis
    using carried_port [OF c] carried_addr4 [OF c] carried_proto [OF c] sizedD(2) [OF s]
    by (auto simp: dnatWildcardRule4_def machine_simps [OF M] load_1 load_8 wild_key_def
          encodeWildcardKey_pad4 dnat4_def load_store_in split: option.split)
next
  case False
  then have "w_nfproto w \<noteq> NFPROTO_IPV4" using nfproto_iff [OF c] by simp
  with False show ?thesis by (simp add: dnatWildcardRule4_def machine_simps [OF M] load_1)
qed

lemma specific4_translation:
  assumes M: "nft_machine exec" and c: "wire_carries w pkt" and s: "sized E"
  shows "translation (run_rule exec E w (rule_Exprs dnatSpecificRule4) R) =
    (if addr_Is4 (ap_addr (pkt_dst pkt)) then map_option dnat4 (E DnatSpecific4 (spec_key pkt)) else None)"
proof (cases "addr_Is4 (ap_addr (pkt_dst pkt))")
  case True
  then show ?thesis
    using carried_port [OF c] carried_addr4 [OF c] carried_proto [OF c] sizedD(1) [OF s]
    by (auto simp: dnatSpecificRule4_def machine_simps [OF M] load_1 load_12 length_AsSlice spec_key_def
          encodeSpecificKey_pad4 dnat4_def load_store_in split: option.split)
next
  case False
  then have "w_nfproto w \<noteq> NFPROTO_IPV4" using nfproto_iff [OF c] by simp
  with False show ?thesis by (simp add: dnatSpecificRule4_def machine_simps [OF M] load_1)
qed

lemma wildcard6_translation:
  assumes M: "nft_machine exec" and c: "wire_carries w pkt" and s: "sized E"
  shows "translation (run_rule exec E w (rule_Exprs dnatWildcardRule6) R) =
    (if addr_Is4 (ap_addr (pkt_dst pkt)) then None else map_option dnat6 (E DnatWildcard6 (wild_key pkt)))"
proof (cases "addr_Is4 (ap_addr (pkt_dst pkt))")
  case False
  then show ?thesis
    using carried_port [OF c] carried_addr6 [OF c] carried_proto [OF c] sizedD(4) [OF s]
    by (auto simp: dnatWildcardRule6_def machine_simps [OF M] load_1 load_8 wild_key_def
          encodeWildcardKey_pad4 dnat6_def load_store_in split: option.split)
next
  case True
  then have "w_nfproto w \<noteq> NFPROTO_IPV6" using nfproto_iff [OF c] by simp
  with True show ?thesis by (simp add: dnatWildcardRule6_def machine_simps [OF M] load_1)
qed

lemma specific6_translation:
  assumes M: "nft_machine exec" and c: "wire_carries w pkt" and s: "sized E"
  shows "translation (run_rule exec E w (rule_Exprs dnatSpecificRule6) R) =
    (if addr_Is4 (ap_addr (pkt_dst pkt)) then None else map_option dnat6 (E DnatSpecific6 (spec_key pkt)))"
proof (cases "addr_Is4 (ap_addr (pkt_dst pkt))")
  case False
  then show ?thesis
    using carried_port [OF c] carried_addr6 [OF c] carried_proto [OF c] sizedD(3) [OF s]
    by (auto simp: dnatSpecificRule6_def machine_simps [OF M] load_1 load_24 length_AsSlice spec_key_def
          encodeSpecificKey_pad4 dnat6_def load_store_in split: option.split)
next
  case True
  then have "w_nfproto w \<noteq> NFPROTO_IPV6" using nfproto_iff [OF c] by simp
  with True show ?thesis by (simp add: dnatSpecificRule6_def machine_simps [OF M] load_1)
qed

section \<open>The chain\<close>

definition first_some :: "'a option \<Rightarrow> 'a option \<Rightarrow> 'a option" where
  "first_some x y = (case x of Some a \<Rightarrow> Some a | None \<Rightarrow> y)"

lemma chain_translation:
  assumes "nft_machine exec" and "wire_carries w pkt" and "sized E"
  shows "translation (run_chain exec E w addDNATRules R) =
    (if addr_Is4 (ap_addr (pkt_dst pkt))
     then map_option dnat4 (first_some (E DnatWildcard4 (wild_key pkt)) (E DnatSpecific4 (spec_key pkt)))
     else map_option dnat6 (first_some (E DnatWildcard6 (wild_key pkt)) (E DnatSpecific6 (spec_key pkt))))"
  using wildcard4_translation [OF assms] wildcard6_translation [OF assms]
    specific4_translation [OF assms] specific6_translation [OF assms]
  by (simp add: addDNATRules_def run_chain_translation first_some_def del: run_chain.simps(2)
      split: option.split)

section \<open>The mapping behind a translation\<close>

definition target_bytes :: "dnat_mapping \<Rightarrow> byte list \<times> byte list" where
  "target_bytes m = (addr_AsSlice (ap_addr (m_Destination m)), encodePort (ap_port (m_Destination m)))"

lemma claims_hits4:
  assumes wf: "mapping_wf m" and z: "addr_Zone (ap_addr (pkt_dst pkt)) = ''''"
    and f: "addr_Is4 (ap_addr (pkt_dst pkt))"
  shows "mapping_claims pkt m \<longleftrightarrow>
    hits m DnatWildcard4 (wild_key pkt) \<or> hits m DnatSpecific4 (spec_key pkt)"
  using wf z f
  by (auto simp: mapping_claims_def hits_def mapping_sets_def compileSetElement_def wild_key_def
        spec_key_def mapping_wf_def Let_def encodeWildcardKey_inj_iff encodeSpecificKey_inj_iff
        split: if_splits intro: addr_port.equality)

lemma claims_hits6:
  assumes wf: "mapping_wf m" and z: "addr_Zone (ap_addr (pkt_dst pkt)) = ''''"
    and f: "addr_Is6 (ap_addr (pkt_dst pkt))"
  shows "mapping_claims pkt m \<longleftrightarrow>
    hits m DnatWildcard6 (wild_key pkt) \<or> hits m DnatSpecific6 (spec_key pkt)"
  using wf z f
  by (auto simp: mapping_claims_def hits_def mapping_sets_def compileSetElement_def wild_key_def
        spec_key_def mapping_wf_def Let_def encodeWildcardKey_inj_iff encodeSpecificKey_inj_iff
        split: if_splits intro: addr_port.equality)

lemma hit_val_bytes:
  assumes "mapping_wf m" and "hits m s k"
  shows "if s \<in> {DnatSpecific4, DnatWildcard4} then dnat4 (hit_val m) = target_bytes m \<and> length (hit_val m) = 8
    else dnat6 (hit_val m) = target_bytes m \<and> length (hit_val m) = 20"
  using assms
  by (auto simp: hits_def mapping_sets_def mapping_wf_def Let_def hit_val_def compileSetElement_def
        encodeMapValue_pad4 dnat4_def dnat6_def target_bytes_def length_AsSlice pad4_def split: if_splits)

section \<open>The chain against a set of mappings\<close>

definition disjoint_claims :: "dnat_mapping set \<Rightarrow> bool" where
  "disjoint_claims A \<longleftrightarrow> (\<forall>m \<in> A. mapping_wf m) \<and> (\<forall>m \<in> A. \<forall>x \<in> A. mapping_Overlaps m x \<longrightarrow> m = x)"

lemma sync_lookup:
  assumes s: "sync True A E"
  shows "E t k = Some v \<longleftrightarrow> (\<exists>m \<in> A. hits m t k \<and> v = hit_val m)"
proof
  assume v: "E t k = Some v"
  then obtain m where m: "m \<in> A" "hits m t k" using s unfolding sync_def exact_def by blast
  then have "E t k = Some (hit_val m)" using s unfolding sync_def served_def by blast
  with m v show "\<exists>m \<in> A. hits m t k \<and> v = hit_val m" by auto
next
  assume "\<exists>m \<in> A. hits m t k \<and> v = hit_val m"
  then show "E t k = Some v" using s unfolding sync_def served_def by blast
qed

lemma sync_sized:
  assumes "sync True A E" and "disjoint_claims A"
  shows "sized E"
  unfolding sized_def
proof (intro allI impI)
  fix t k v
  assume "E t k = Some v"
  then obtain m where m: "m \<in> A" "hits m t k" "v = hit_val m"
    using sync_lookup [OF assms(1)] by blast
  with assms(2) have "mapping_wf m" by (simp add: disjoint_claims_def)
  from hit_val_bytes [OF this m(2)] m(3)
  show "length v = (if t \<in> {DnatSpecific4, DnatWildcard4} then 8 else 20)" by (simp split: if_splits)
qed

text \<open>
  Two lookups, one after the other, in maps that are in step with \<open>A\<close>: they find the element of
  the one mapping that hits either key, and nothing when there is none.
\<close>

lemma first_lookup_hit:
  assumes s: "sync True A E" and m: "m \<in> A" "hits m t k \<or> hits m t' k'"
    and one: "\<And>x. x \<in> A \<Longrightarrow> hits x t k \<or> hits x t' k' \<Longrightarrow> x = m"
  shows "first_some (E t k) (E t' k') = Some (hit_val m)"
proof (cases "E t k")
  case None
  then have "\<not> hits m t k" using sync_lookup [OF s, of t k "hit_val m"] m(1) by auto
  then have "E t' k' = Some (hit_val m)" using sync_lookup [OF s, of t' k' "hit_val m"] m by blast
  with None show ?thesis by (simp add: first_some_def)
next
  case (Some v)
  then obtain x where "x \<in> A" "hits x t k" "v = hit_val x" using sync_lookup [OF s] by blast
  with one [of x] Some show ?thesis by (simp add: first_some_def)
qed

lemma first_lookup_miss:
  assumes s: "sync True A E" and none: "\<And>x. x \<in> A \<Longrightarrow> \<not> hits x t k \<and> \<not> hits x t' k'"
  shows "first_some (E t k) (E t' k') = None"
proof -
  have "E t k = None" "E t' k' = None"
    using sync_lookup [OF s] none by (metis option.exhaust)+
  then show ?thesis by (simp add: first_some_def)
qed

lemma chain_hit:
  assumes M: "nft_machine exec" and c: "wire_carries w pkt" and s: "sync True A E" and a: "disjoint_claims A"
    and m: "m \<in> A" "mapping_claims pkt m"
  shows "translation (run_chain exec E w addDNATRules R) = Some (target_bytes m)"
proof -
  note tr = chain_translation [OF M c sync_sized [OF s a], of R]
  have wf: "mapping_wf x" if "x \<in> A" for x using a that by (simp add: disjoint_claims_def)
  have one: "x = m" if "x \<in> A" "mapping_claims pkt x" for x
    using a m that mapping_claims_Overlaps [of pkt x m] by (auto simp: disjoint_claims_def)
  have z: "addr_Zone (ap_addr (pkt_dst pkt)) = ''''" using c by (simp add: wire_carries_def Let_def)
  show ?thesis
  proof (cases "addr_Is4 (ap_addr (pkt_dst pkt))")
    case True
    note ch = claims_hits4 [OF wf z True]
    have h: "hits m DnatWildcard4 (wild_key pkt) \<or> hits m DnatSpecific4 (spec_key pkt)"
      using ch [OF m(1)] m(2) by simp
    have "first_some (E DnatWildcard4 (wild_key pkt)) (E DnatSpecific4 (spec_key pkt)) = Some (hit_val m)"
      by (rule first_lookup_hit [OF s m(1) h]) (use ch one in blast)
    moreover have "dnat4 (hit_val m) = target_bytes m"
      using h hit_val_bytes [OF wf [OF m(1)]] by fastforce
    ultimately show ?thesis using tr True by simp
  next
    case False
    then have f6: "addr_Is6 (ap_addr (pkt_dst pkt))" using carried_addr6 [OF c] by simp
    note ch = claims_hits6 [OF wf z f6]
    have h: "hits m DnatWildcard6 (wild_key pkt) \<or> hits m DnatSpecific6 (spec_key pkt)"
      using ch [OF m(1)] m(2) by simp
    have "first_some (E DnatWildcard6 (wild_key pkt)) (E DnatSpecific6 (spec_key pkt)) = Some (hit_val m)"
      by (rule first_lookup_hit [OF s m(1) h]) (use ch one in blast)
    moreover have "dnat6 (hit_val m) = target_bytes m"
      using h hit_val_bytes [OF wf [OF m(1)]] by fastforce
    ultimately show ?thesis using tr False by simp
  qed
qed

lemma chain_miss:
  assumes M: "nft_machine exec" and c: "wire_carries w pkt" and s: "sync True A E" and a: "disjoint_claims A"
    and none: "\<And>x. x \<in> A \<Longrightarrow> \<not> mapping_claims pkt x"
  shows "translation (run_chain exec E w addDNATRules R) = None"
proof -
  note tr = chain_translation [OF M c sync_sized [OF s a], of R]
  have wf: "mapping_wf x" if "x \<in> A" for x using a that by (simp add: disjoint_claims_def)
  have z: "addr_Zone (ap_addr (pkt_dst pkt)) = ''''" using c by (simp add: wire_carries_def Let_def)
  show ?thesis
  proof (cases "addr_Is4 (ap_addr (pkt_dst pkt))")
    case True
    have "first_some (E DnatWildcard4 (wild_key pkt)) (E DnatSpecific4 (spec_key pkt)) = None"
      by (rule first_lookup_miss [OF s]) (use claims_hits4 [OF wf z True] none in blast)
    with tr True show ?thesis by simp
  next
    case False
    then have f6: "addr_Is6 (ap_addr (pkt_dst pkt))" using carried_addr6 [OF c] by simp
    have "first_some (E DnatWildcard6 (wild_key pkt)) (E DnatSpecific6 (spec_key pkt)) = None"
      by (rule first_lookup_miss [OF s]) (use claims_hits6 [OF wf z f6] none in blast)
    with tr False show ?thesis by simp
  qed
qed

section \<open>Timeout rules\<close>

text \<open>When the rule of a timeout object attaches it to a packet.\<close>

lemma timeout_rule_attaches:
  assumes M: "nft_machine exec" and c: "wire_carries w pkt"
    and z: "addr_Zone (ap_addr a) = ''''" and v: "addr_IsValid (ap_addr a)"
  shows "attached (run_rule exec E w (rule_Exprs (defineTimeoutRule p a name)) R) =
    (if p = pkt_proto pkt \<and> ap_port a = ap_port (pkt_dst pkt)
        \<and> addr_Is4 (ap_addr a) = addr_Is4 (ap_addr (pkt_dst pkt))
        \<and> (addr_IsUnspecified (ap_addr a) \<or> ap_addr a = ap_addr (pkt_dst pkt))
     then [name] else [])"
proof -
  have z': "addr_Zone (ap_addr (pkt_dst pkt)) = ''''" using c by (simp add: wire_carries_def Let_def)
  have pad2: "load (store R r (pad4 (encodePort q))) r 2 = encodePort q" for R r q
    by (simp add: load_store_in pad4_def)
  have pad16: "load (store R r bs) r 16 = bs" if "length bs = 16" for R r bs
    using that by (simp add: load_store_in)
  have padl4: "load (store R r bs) r 4 = bs" if "length bs = 4" for R r bs
    using that by (simp add: load_store_in)
  have inj: "addr_AsSlice (ap_addr (pkt_dst pkt)) = addr_AsSlice (ap_addr a) \<longleftrightarrow>
      ap_addr a = ap_addr (pkt_dst pkt)"
    using AsSlice_inj z z' by metis
  have pinj: "encodePort (ap_port (pkt_dst pkt)) = encodePort (ap_port a) \<longleftrightarrow>
      ap_port a = ap_port (pkt_dst pkt)"
    using encodePort_inj by metis
  have l4: "w_l4proto w = p \<longleftrightarrow> p = pkt_proto pkt" using carried_proto [OF c] by auto
  note port = carried_port [OF c]
  show ?thesis
  proof (cases "addr_Is4 (ap_addr a)")
    case a4: True
    show ?thesis
    proof (cases "addr_Is4 (ap_addr (pkt_dst pkt))")
      case True
      then show ?thesis
        using a4 port l4 carried_addr4 [OF c True] inj pinj
        by (cases "addr_IsUnspecified (ap_addr a)")
          (simp_all add: defineTimeoutRule_def timeoutSpecific4_def timeoutWildcard4_def Let_def
              machine_simps [OF M] load_1 pad2 padl4 length_AsSlice)
    next
      case False
      then have "w_nfproto w \<noteq> NFPROTO_IPV4" using nfproto_iff [OF c] by simp
      with False a4 l4 show ?thesis
        by (auto simp: defineTimeoutRule_def timeoutSpecific4_def timeoutWildcard4_def Let_def
              machine_simps [OF M] load_1)
    qed
  next
    case False
    then have a6: "addr_Is6 (ap_addr a)" "\<not> addr_Is4 (ap_addr a)" using v by (auto simp: addr_IsValid_iff)
    show ?thesis
    proof (cases "addr_Is4 (ap_addr (pkt_dst pkt))")
      case True
      then have "w_nfproto w \<noteq> NFPROTO_IPV6" using nfproto_iff [OF c] by simp
      with True a6 l4 show ?thesis
        by (auto simp: defineTimeoutRule_def timeoutSpecific6_def timeoutWildcard6_def Let_def
              machine_simps [OF M] load_1)
    next
      case False
      then show ?thesis
        using a6 port l4 carried_addr6 [OF c False] inj pinj
        by (cases "addr_IsUnspecified (ap_addr a)")
          (simp_all add: defineTimeoutRule_def timeoutSpecific6_def timeoutWildcard6_def Let_def
              machine_simps [OF M] load_1 pad2 pad16 length_AsSlice)
    qed
  qed
qed

end
