(* ===== verification/Forwarding_Spec.thy ===== *)
theory Forwarding_Spec
  imports Forwarding Dataplane_Spec
begin

text \<open>
  The dataplane and the kernel together: in every state that calls of the dataplane can reach, the
  kernel's table refines the list of active mappings, and a packet is translated as that list
  says. The two failures the code leaves behind are stated as they are: elements of a group whose
  removal was refused, and timeout rules that look at packets after their translation.
\<close>

declare split_paired_All [simp del] split_paired_Ex [simp del]

section \<open>The abstract forwarding table\<close>

definition active_mappings :: "'n connft \<Rightarrow> dnat_mapping list" where
  "active_mappings d =
     concat (map (\<lambda>(name, g). if cg_enabled (d_heap d g) then group_mappings (d_heap d g) else [])
       (d_groups d))"

lemma set_active_mappings:
  assumes "connft_inv d"
  shows "set (active_mappings d) = active_set d"
proof -
  have core: "inv_core d" using assms by (simp add: connft_inv_def)
  have "m \<in> set (active_mappings d) \<longleftrightarrow>
      (\<exists>n g. (n, g) \<in> set (d_groups d) \<and> cg_enabled (d_heap d g) \<and> m \<in> set (group_mappings (d_heap d g)))"
    for m
    by (force simp: active_mappings_def split: if_splits)
  moreover have "(n, g) \<in> set (d_groups d) \<longleftrightarrow> live d g \<and> cg_name (d_heap d g) = n" for n g
    using core by (simp add: inv_core_def registered_def gomap_mem_iff)
  moreover have "live d g \<Longrightarrow> m \<in> set (group_mappings (d_heap d g)) \<longleftrightarrow> holds (d_heap d g) m" for g m
    using core by (simp add: inv_core_def holds_mappings)
  ultimately have "m \<in> set (active_mappings d) \<longleftrightarrow> m \<in> active_set d" for m
    unfolding active_set_def by blast
  then show ?thesis by blast
qed

lemma active_disjoint:
  assumes "inv_core d"
  shows "disjoint_claims (active_set d)"
proof -
  have "m = x" if m: "m \<in> active_set d" and x: "x \<in> active_set d" and o: "mapping_Overlaps m x" for m x
    using assms that unfolding active_set_def inv_core_def no_overlaps_def by blast
  moreover have "mapping_wf m" if "m \<in> active_set d" for m
    using keyed_active [OF assms] that by (simp add: keyed_def)
  ultimately show ?thesis by (simp add: disjoint_claims_def)
qed

section \<open>Reachable states without another writer of the table\<close>

text \<open>
  \<open>close_failed\<close>: a \<open>Close\<close> that reports an error. The flag of \<open>sync_reach\<close> is true as long as
  there was none.
\<close>

fun close_failed :: "'n nft_ops \<Rightarrow> dp_call \<Rightarrow> 'n connft \<Rightarrow> bool" where
  "close_failed K (CallCloseGroup g) d = (fst (group_Close K g d) \<noteq> None)"
| "close_failed K CallClose d = (fst (connft_Close K d) \<noteq> None)"
| "close_failed K _ d = False"

inductive sync_reach :: "'n nft_ops \<Rightarrow> 'n nft_view \<Rightarrow> bool \<Rightarrow> 'n connft \<Rightarrow> bool" for K V where
  init: "connft_New K name n = (Inr d, n') \<Longrightarrow> nv_queue V n = [] \<Longrightarrow> sync_reach K V True d"
| call: "sync_reach K V b d \<Longrightarrow> sync_reach K V (b \<and> \<not> close_failed K c d) (dp_exec K c d)"
| stale: "sync_reach K V b d \<Longrightarrow> sync_reach K V b (snd (StaleGroups K d))"
| reorder_groups: "sync_reach K V b d \<Longrightarrow> mset gs = mset (d_groups d) \<Longrightarrow>
    sync_reach K V b (d\<lparr>d_groups := gs\<rparr>)"
| reorder_mappings: "sync_reach K V b d \<Longrightarrow> mset xs = mset (cg_bySrc (d_heap d g)) \<Longrightarrow>
    mset ys = mset (cg_byDst (d_heap d g)) \<Longrightarrow>
    sync_reach K V b (upd_group g (\<lambda>gr. gr\<lparr>cg_bySrc := xs, cg_byDst := ys\<rparr>) d)"

lemma dp_exec_kernel:
  assumes doc: "nft_documented K V" and inv: "kernel_inv V b d"
  shows "kernel_inv V (b \<and> \<not> close_failed K c d) (dp_exec K c d)"
proof (cases c)
  case (CallNewGroup name now)
  then show ?thesis using NewGroup_kernel [OF inv] by (cases "NewGroup name now d") auto
next
  case (CallAdd g ms)
  then show ?thesis
    using group_AddMappings_kernel [OF doc inv] by (cases "group_AddMappings K g ms d") auto
next
  case (CallDel g ms)
  then show ?thesis
    using group_DelMappings_kernel [OF doc inv] by (cases "group_DelMappings K g ms d") auto
next
  case (CallClear g)
  then show ?thesis
    using group_DelMappings_kernel [OF doc inv, of g "group_mappings (d_heap d g)"]
    by (cases "group_ClearMappings K g d") (auto simp: group_ClearMappings_Del)
next
  case (CallEnable g)
  then show ?thesis using group_Enable_kernel [OF doc inv] by (cases "group_Enable K g d") auto
next
  case (CallDisable g)
  then show ?thesis using group_Disable_kernel [OF doc inv] by (cases "group_Disable K g d") auto
next
  case (CallSetTimeout g p s t)
  then show ?thesis
    using group_SetTimeout_kernel [OF doc inv] by (cases "group_SetTimeout K g p s t d") auto
next
  case (CallCloseGroup g)
  then show ?thesis using group_Close_kernel [OF doc inv] by (cases "group_Close K g d") auto
next
  case CallClose
  then show ?thesis using connft_Close_kernel [OF doc inv] by (cases "connft_Close K d") auto
qed

lemma kernel_inv_same_table:
  assumes inv: "kernel_inv V b d" and same: "same_table V (d_nft d) n"
  shows "kernel_inv V b (d\<lparr>d_nft := n\<rparr>)"
proof -
  have "connft_inv (d\<lparr>d_nft := n\<rparr>)"
    using inv by (metis kernel_inv_def connft_inv_tables tables_simps(6))
  moreover have "active_set (d\<lparr>d_nft := n\<rparr>) = active_set d"
    by (simp add: active_set_def live_def)
  ultimately show ?thesis
    using inv same
    by (simp add: kernel_inv_def settled_def same_table_def view_defs elems_of_def flow_rules_ok_def)
qed

lemma StaleGroups_nft:
  "snd (StaleGroups K d) = d \<or> snd (StaleGroups K d) = d\<lparr>d_nft := snd (ct_DumpFilter K (d_nft d))\<rparr>"
  by (auto simp: StaleGroups_def Let_def split: prod.splits sum.splits)

text \<open>Another order of the maps shows in no lookup.\<close>

lemma reorder_groups_kernel:
  assumes inv: "kernel_inv V b d" and gs: "mset gs = mset (d_groups d)"
  shows "kernel_inv V b (d\<lparr>d_groups := gs\<rparr>)"
proof -
  have cinv: "connft_inv d" and st: "settled V d" using inv by (simp_all add: kernel_inv_def)
  have "connft_inv (d\<lparr>d_groups := gs\<rparr>)"
    by (rule dp_step_inv [OF dp_step.reorder_groups [OF gs] cinv])
  moreover have "quiet V d (d\<lparr>d_groups := gs\<rparr>)"
    using st by (simp add: quiet_def settled_def elems_of_def flow_rules_ok_def)
  moreover have "active_set (d\<lparr>d_groups := gs\<rparr>) = active_set d"
    by (simp add: active_set_def live_def)
  ultimately show ?thesis by (intro kernel_inv_quiet [OF inv]) simp_all
qed

lemma reorder_mappings_kernel:
  assumes inv: "kernel_inv V b d" and xs: "mset xs = mset (cg_bySrc (d_heap d g))"
    and ys: "mset ys = mset (cg_byDst (d_heap d g))"
  shows "kernel_inv V b (upd_group g (\<lambda>gr. gr\<lparr>cg_bySrc := xs, cg_byDst := ys\<rparr>) d)"
proof -
  let ?d = "upd_group g (\<lambda>gr. gr\<lparr>cg_bySrc := xs, cg_byDst := ys\<rparr>) d"
  have cinv: "connft_inv d" and st: "settled V d" using inv by (simp_all add: kernel_inv_def)
  have "connft_inv ?d" by (rule dp_step_inv [OF dp_step.reorder_mappings [OF xs ys] cinv])
  moreover have "quiet V d ?d" by (rule quiet_upd [OF st]) simp
  moreover have "active_set ?d = active_set d"
  proof -
    have "(live ?d g' \<and> cg_enabled (d_heap ?d g') \<and> holds (d_heap ?d g') m) \<longleftrightarrow>
        (live d g' \<and> cg_enabled (d_heap d g') \<and> holds (d_heap d g') m)" for g' m
    proof (cases "g' = g \<and> live d g")
      case True
      then have "group_ok (d_heap d g)" using cinv by (simp add: connft_inv_def inv_core_def)
      then have "map_of xs = map_of (cg_bySrc (d_heap d g))"
        using gomap_perm_lookup [OF _ xs] by (simp add: group_ok_def)
      with True show ?thesis by (simp add: live_def holds_def)
    next
      case False
      then show ?thesis by (auto simp: live_def)
    qed
    then show ?thesis by (simp add: active_set_def)
  qed
  ultimately show ?thesis by (intro kernel_inv_quiet [OF inv]) simp_all
qed

lemma sync_reach_inv:
  assumes doc: "nft_documented K V" and "sync_reach K V b d"
  shows "kernel_inv V b d"
  using assms(2)
proof (induction rule: sync_reach.induct)
  case (init name n d n')
  then show ?case by (simp add: connft_New_kernel [OF doc])
next
  case (call b d c)
  then show ?case by (simp add: dp_exec_kernel [OF doc])
next
  case (stale b d)
  have "same_table V (d_nft d) (snd (ct_DumpFilter K (d_nft d)))"
    using doc by (simp add: nft_documented_def)
  with stale StaleGroups_nft [of K d] show ?case by (auto simp: kernel_inv_same_table)
next
  case (reorder_groups b d gs)
  then show ?case by (simp add: reorder_groups_kernel)
next
  case (reorder_mappings b d xs g ys)
  then show ?case by (simp add: reorder_mappings_kernel)
qed

section \<open>A demonstration gateway\<close>

text \<open>
  One group with one mapping, enabled on the reference connection, whose next flush is refused.
\<close>

definition demo_nft :: "nft_table \<Rightarrow> string option list \<Rightarrow> ref_nft" where
  "demo_nft t answers = \<lparr>rn_queue = [], rn_table = t, rn_answers = answers\<rparr>"

definition demo_rules :: nft_table where
  "demo_rules = \<lparr>nt_elems = (\<lambda>_ _. None), nt_rules = addDNATRules\<rparr>"

definition demo_opened :: "ref_nft connft" where
  "demo_opened = (connft_init ''proxygw'' (demo_nft demo_rules [None, Some ''busy'']))
     \<lparr>d_table := Some ''proxygw''\<rparr>"

definition demo_web :: "bool \<Rightarrow> connft_group" where
  "demo_web en = \<lparr>cg_name = ''web'', cg_bySrc = [(src_key demo_mapping, demo_mapping)],
     cg_byDst = [(dst_key demo_mapping, demo_mapping)], cg_flowInfo = [], cg_lastSeen = 0, cg_ttl = 0,
     cg_enabled = en, cg_closed = False\<rparr>"

definition demo_mapped :: "ref_nft connft" where
  "demo_mapped = demo_opened\<lparr>d_heap := (d_heap demo_opened)(0 := demo_web False), d_next := 1,
     d_groups := [(''web'', 0)]\<rparr>"

definition demo_enabled :: "ref_nft connft" where
  "demo_enabled = demo_opened\<lparr>d_heap := (d_heap demo_opened)(0 := demo_web True), d_next := 1,
     d_groups := [(''web'', 0)],
     d_nft := demo_nft (demo_rules\<lparr>nt_elems := put_all [demo_mapping] (\<lambda>_ _. None)\<rparr>) [Some ''busy'']\<rparr>"

lemma ref_do [simp]:
  "nft_do ref_ops msg d = (None, d\<lparr>d_nft := (d_nft d)\<lparr>rn_queue := rn_queue (d_nft d) @ [msg]\<rparr>\<rparr>)"
  by (simp add: nft_do_def ref_ops_def)

lemma ref_do_all:
  "nft_do_all ref_ops msgs d = d\<lparr>d_nft := (d_nft d)\<lparr>rn_queue := rn_queue (d_nft d) @ msgs\<rparr>\<rparr>"
  by (induction msgs arbitrary: d) simp_all

lemma ref_add_sets:
  "add_sets ref_ops xs d = (None, d\<lparr>d_nft := (d_nft d)\<lparr>rn_queue := rn_queue (d_nft d) @ map snd xs\<rparr>\<rparr>)"
proof (induction xs arbitrary: d)
  case (Cons x xs)
  then show ?case by (cases x) simp
qed simp

lemma ref_flush_dplane:
  "nft_flush ref_ops d =
     (case rn_answers (d_nft d) of
        Some e # as \<Rightarrow> (Some (NftErr e), d\<lparr>d_nft := (d_nft d)\<lparr>rn_queue := [], rn_answers := as\<rparr>\<rparr>)
      | as \<Rightarrow> (None, d\<lparr>d_nft := (d_nft d)\<lparr>rn_queue := [], rn_answers := tl as,
                 rn_table := apply_batch (rn_queue (d_nft d)) (rn_table (d_nft d))\<rparr>\<rparr>))"
  by (auto simp: nft_flush_def ref_ops_def ref_flush_def Let_def split: list.splits option.splits)

lemma apply_add_rules: "apply_batch (map AddRule rs) t = t\<lparr>nt_rules := nt_rules t @ rs\<rparr>"
  by (induction rs arbitrary: t) simp_all

lemmas ref_simps = ref_do_all ref_add_sets ref_flush_dplane demo_nft_def ref_ops_def

lemma demo_opened_New:
  "connft_New ref_ops ''proxygw'' (demo_nft empty_table [None, None, None, None, Some ''busy'']) =
     (Inr demo_opened, d_nft demo_opened)"
proof -
  have l: "nft_ListTable ref_ops name n = (None, True, n)" for name n by (simp add: ref_ops_def)
  have "ensureTableAdded ref_ops
      (connft_init ''proxygw'' (demo_nft empty_table [None, None, None, None, Some ''busy''])) =
      (None, demo_opened)"
    by (simp add: ensureTableAdded_def l Let_def not_ENOENT_def connft_init_def demo_opened_def demo_nft_def
        ref_do_all ref_add_sets ref_flush_dplane dnat_set_decls_def demo_rules_def apply_add_rules
        empty_table_def)
  then show ?thesis by (simp add: connft_New_def)
qed

lemma demo_mapping_Validate: "mapping_Validate demo_mapping = None"
  by code_simp

lemma demo_mapping_check: "check_new [] [] [demo_mapping] = None"
  by (simp add: demo_mapping_Validate)

lemma demo_mapped_exec:
  "dp_exec ref_ops (CallAdd 0 [demo_mapping]) (dp_exec ref_ops (CallNewGroup ''web'' 0) demo_opened) =
     demo_mapped"
proof -
  have t: "m_Timeout demo_mapping = 0" by (simp add: demo_mapping_def)
  show ?thesis
    using demo_mapping_check
    by (simp add: NewGroup_def NewConnftGroup_def demo_opened_def connft_init_def Let_def
        group_AddMappings_def unusable_def addMappings_def existing_mappings_def group_mappings_def
        insert_mapping_def ensureTimeoutSet_def ensureTimeoutDeleted_def t upd_group_def demo_mapped_def
        demo_web_def fun_upd_def cong: if_cong)
qed

lemma demo_enabled_exec: "dp_exec ref_ops (CallEnable 0) demo_mapped = demo_enabled"
proof -
  have "mapping_sets demo_mapping = [DnatSpecific4]" by code_simp
  then show ?thesis
    by (simp add: group_Enable_def unusable_def demo_mapped_def demo_opened_def connft_init_def demo_web_def
        group_mappings_def ensureDNATAdded_def ref_flush_dplane demo_nft_def upd_group_def demo_enabled_def
        put_all_def demo_rules_def)
qed

lemma demo_enabled_reach: "sync_reach ref_ops ref_view True demo_enabled"
proof -
  have q: "nv_queue ref_view (demo_nft t as) = []" for t as by (simp add: ref_view_def demo_nft_def)
  have s0: "sync_reach ref_ops ref_view True demo_opened" by (rule sync_reach.init [OF demo_opened_New q])
  have one: "sync_reach ref_ops ref_view True (dp_exec ref_ops c d)"
    if "sync_reach ref_ops ref_view True d" "\<not> close_failed ref_ops c d" for c d
    using sync_reach.call [OF that(1), of c] that(2) by simp
  show ?thesis
    unfolding demo_enabled_exec [symmetric] demo_mapped_exec [symmetric]
    by (intro one s0) simp_all
qed

definition demo_packet :: packet where
  "demo_packet = \<lparr>pkt_proto = ProtocolTCP, pkt_dst = \<lparr>ap_addr = IP4 0x0A000001, ap_port = 80\<rparr>\<rparr>"

text \<open>The same packet after its translation to the destination of \<open>demo_mapping\<close>.\<close>

definition demo_translated :: packet where
  "demo_translated = \<lparr>pkt_proto = ProtocolTCP, pkt_dst = m_Destination demo_mapping\<rparr>"

definition demo_wire :: "packet \<Rightarrow> wire" where
  "demo_wire pkt = \<lparr>w_nfproto = NFPROTO_IPV4, w_l4proto = pkt_proto pkt,
     w_network = replicate 16 0 @ addr_AsSlice (ap_addr (pkt_dst pkt)),
     w_transport = [0, 0] @ encodePort (ap_port (pkt_dst pkt)) @ replicate 16 0\<rparr>"

lemma demo_wire_carries: "wire_carries (demo_wire demo_packet) demo_packet"
    "wire_carries (demo_wire demo_translated) demo_translated"
  by (simp_all add: wire_carries_def demo_wire_def demo_packet_def demo_translated_def demo_mapping_def
        Let_def)

lemma demo_enabled_values:
  "active_mappings demo_enabled = [demo_mapping]" "d_closed demo_enabled = False"
  "d_heap demo_enabled 0 = demo_web True"
  by (simp_all add: active_mappings_def demo_enabled_def demo_opened_def connft_init_def demo_web_def
      group_mappings_def)

lemma demo_claims: "mapping_claims demo_packet demo_mapping"
  by (simp add: mapping_claims_def demo_packet_def demo_mapping_def)

lemma demo_num:
  "be_bytes (numeral k) x = be_bytes (pred_numeral k) (x div 256) @ [of_nat (x mod 256)]"
  by (metis be_bytes.simps(2) numeral_eq_Suc)

lemma demo_bytes: "target_bytes demo_mapping = ([10, 0, 0, 2], [31, 144])"
  by (simp add: target_bytes_def demo_mapping_def encodePort_def demo_num)

lemma demo_committed: "map (\<lambda>(s, e). (s, se_Key e, se_Val e)) (dnat_elements [demo_mapping]) =
    [(DnatSpecific4, [6, 0, 0, 0, 10, 0, 0, 1, 0, 80, 0, 0], [10, 0, 0, 2, 31, 144, 0, 0])]"
proof -
  have "replicate 2 x = [x, x]" "replicate 3 x = [x, x, x]" for x :: byte
    by (simp_all add: numeral_eq_Suc)
  then show ?thesis
    by (simp add: mapping_sets_def compileSetElement_def demo_mapping_def addr_IsUnspecified_def
        encodeSpecificKey_def encodeMapValue_def appendConcatField_def encodePort_def ProtocolTCP_def
        demo_num Let_def)
qed

section \<open>The kernel's table refines the forwarding table\<close>

definition committed :: "dnat_mapping list \<Rightarrow> (dnat_set \<times> byte list \<times> byte list) set" where
  "committed ms = (\<lambda>(s, e). (s, se_Key e, se_Val e)) ` set (dnat_elements ms)"

definition table_elements :: "nft_table \<Rightarrow> (dnat_set \<times> byte list \<times> byte list) set" where
  "table_elements t = {(s, k, v). nt_elems t s k = Some v}"

lemma committed_iff: "(s, k, v) \<in> committed ms \<longleftrightarrow> (\<exists>m \<in> set ms. hits m s k \<and> v = hit_val m)"
proof -
  have "(s, e) \<in> set (dnat_elements ms) \<longleftrightarrow>
      (\<exists>m \<in> set ms. s \<in> set (mapping_sets m) \<and> e = compileSetElement m)" for e
    by (auto simp: dnat_elements_def)
  then have "(\<exists>e. (s, e) \<in> set (dnat_elements ms) \<and> k = se_Key e \<and> v = se_Val e) \<longleftrightarrow>
      (\<exists>m \<in> set ms. hits m s k \<and> v = hit_val m)"
    by (auto simp: hits_def hit_val_def)
  then show ?thesis by (force simp: committed_def)
qed

lemma sync_committed:
  assumes "sync b (set ms) (nt_elems t)"
  shows "committed ms \<subseteq> table_elements t" and "b \<Longrightarrow> table_elements t = committed ms"
proof -
  show sub: "committed ms \<subseteq> table_elements t"
    using assms by (auto simp: committed_iff table_elements_def sync_def served_def)
  assume b
  have "x \<in> committed ms" if "x \<in> table_elements t" for x
    using that assms \<open>b\<close> sync_lookup [of "set ms" "nt_elems t"]
    by (cases x) (simp add: committed_iff table_elements_def sync_def)
  with sub show "table_elements t = committed ms" by blast
qed

lemma sync_reach_active:
  assumes "nft_documented K V" and "sync_reach K V b d"
  shows "connft_inv d" and "sync b (set (active_mappings d)) (nt_elems (table_of V d))"
    and "disjoint_claims (set (active_mappings d))" and "queue_of V d = []"
    and "\<not> d_closed d \<Longrightarrow> dnat_rules (table_of V d) = addDNATRules"
proof -
  have k: "kernel_inv V b d" by (rule sync_reach_inv [OF assms])
  then show inv: "connft_inv d" by (simp add: kernel_inv_def)
  note act = set_active_mappings [OF inv]
  show "sync b (set (active_mappings d)) (nt_elems (table_of V d))"
    using k by (simp add: act kernel_inv_def elems_of_def)
  show "disjoint_claims (set (active_mappings d))"
    using inv active_disjoint [of d] by (simp add: act connft_inv_def)
  show "queue_of V d = []" and "\<not> d_closed d \<Longrightarrow> dnat_rules (table_of V d) = addDNATRules"
    using k by (simp_all add: kernel_inv_def settled_def)
qed

text \<open>
  C2. The table of the kernel refines the dataplane: in every state that calls can reach, whatever
  flushes failed on the way, no request is left in the queue, the four DNAT rules are in place
  until the dataplane is closed, and the element of every active mapping is committed; as long as
  no \<open>Close\<close> has reported an error, the committed elements are exactly those of the active
  mappings.
\<close>

theorem kernel_refines_groups:
  assumes "nft_documented K V" and "sync_reach K V exactly d"
  shows "queue_of V d = []
    \<and> (\<not> d_closed d \<longrightarrow> dnat_rules (table_of V d) = addDNATRules)
    \<and> committed (active_mappings d) \<subseteq> table_elements (table_of V d)
    \<and> (exactly \<longrightarrow> table_elements (table_of V d) = committed (active_mappings d))"
  using sync_reach_active [OF assms] sync_committed by blast

theorem kernel_refines_groups_witness:
  "table_elements (table_of ref_view demo_enabled) =
     {(DnatSpecific4, [6, 0, 0, 0, 10, 0, 0, 1, 0, 80, 0, 0], [10, 0, 0, 2, 31, 144, 0, 0])}"
proof -
  have "committed [demo_mapping] =
      set [(DnatSpecific4, [6, 0, 0, 0, 10, 0, 0, 1, 0, 80, 0, 0], [10, 0, 0, 2, 31, 144, 0, 0])]"
    unfolding committed_def by (metis set_map demo_committed)
  then show ?thesis
    using kernel_refines_groups [OF ref_documented demo_enabled_reach] by (simp add: demo_enabled_values)
qed

section \<open>Packets\<close>

lemma find_active:
  assumes "disjoint_claims A" and "set ms = A"
  shows "find (mapping_claims pkt) ms = Some m \<longleftrightarrow> m \<in> A \<and> mapping_claims pkt m"
proof
  assume "find (mapping_claims pkt) ms = Some m"
  then show "m \<in> A \<and> mapping_claims pkt m" using assms(2) by (auto simp: find_Some_iff)
next
  assume m: "m \<in> A \<and> mapping_claims pkt m"
  then obtain x where x: "find (mapping_claims pkt) ms = Some x"
    using assms(2) by (cases "find (mapping_claims pkt) ms") (auto simp: find_None_iff)
  then have "x \<in> A" "mapping_claims pkt x" using assms(2) by (auto simp: find_Some_iff)
  with m assms(1) mapping_claims_Overlaps [of pkt m x] have "m = x" by (auto simp: disjoint_claims_def)
  with x show "find (mapping_claims pkt) ms = Some m" by simp
qed

lemma chain_find:
  assumes "nft_machine exec" and "wire_carries w pkt" and "sync True (set ms) E" and "disjoint_claims (set ms)"
  shows "translation (run_chain exec E w addDNATRules R) =
    map_option target_bytes (find (mapping_claims pkt) ms)"
proof (cases "find (mapping_claims pkt) ms")
  case None
  then have "\<And>x. x \<in> set ms \<Longrightarrow> \<not> mapping_claims pkt x" by (simp add: find_None_iff)
  from chain_miss [OF assms this] None show ?thesis by simp
next
  case (Some m)
  then have "m \<in> set ms" "mapping_claims pkt m" using find_active [OF assms(4) refl] by simp_all
  from chain_hit [OF assms this] Some show ?thesis by simp
qed

text \<open>
  C3. A packet that reaches the gateway while the dataplane is open is translated by the rules and
  elements the kernel has at that moment to the target of the active mapping that claims it, and
  passes untranslated when no active mapping does; as long as no \<open>Close\<close> has reported an error.
\<close>

theorem gateway_translates_packets:
  assumes "nft_documented K V" and "nft_machine exec" and "sync_reach K V True d" and "\<not> d_closed d"
    and "wire_carries w pkt"
  shows "translation (run_chain exec (nt_elems (table_of V d)) w (dnat_rules (table_of V d)) R) =
    map_option target_bytes (find (mapping_claims pkt) (active_mappings d))"
proof -
  note act = sync_reach_active [OF assms(1,3)]
  show ?thesis
    using chain_find [OF assms(2,5) act(2,3)] act(5) assms(4) by simp
qed

theorem gateway_translates_packets_witness:
  "translation (run_chain ref_exec (nt_elems (table_of ref_view demo_enabled)) (demo_wire demo_packet)
     (dnat_rules (table_of ref_view demo_enabled)) (\<lambda>_. 0)) = Some ([10, 0, 0, 2], [31, 144])"
  using gateway_translates_packets [OF ref_documented ref_machine demo_enabled_reach _ demo_wire_carries(1)]
  by (simp add: demo_enabled_values demo_claims demo_bytes)

section \<open>Closing\<close>

lemma ensureTableDeleted_empties:
  assumes doc: "nft_documented K V" and q: "queue_of V d = []" and e: "ensureTableDeleted K d = (None, d')"
  shows "table_of V d' = empty_table"
proof -
  obtain r where f: "nft_flush K (snd (nft_do K (DelTable (d_table d)) d)) = (r, d')"
    and r: "not_ENOENT r = None"
    using e by (auto simp: ensureTableDeleted_def Let_def split: prod.splits)
  note o = nft_do_accepted [OF doc, of "DelTable (d_table d)" d, simplified]
  note v = nft_flush_view [OF doc f, unfolded o]
  show ?thesis using v(2) v(3) [of "d_table d"] q r by (auto simp: not_ENOENT_def split: if_splits)
qed

lemma close_group_refused:
  assumes doc: "nft_documented K V" and st: "settled V d" and e: "close_group K g d = (Some err, d')"
  shows "quiet V d d'"
proof -
  have g: "\<not> cg_closed (d_heap d g)" using e by (auto simp: close_group_def split: if_splits)
  obtain d1 where c: "clearMappings K g d = (Some err, d1)" and d': "d' = t_close g d1"
    using e g by (cases "clearMappings K g d") (auto simp: close_group_eq)
  then have "delMappings K g (group_mappings (d_heap d g)) d = (Some err, d1)"
    by (simp add: clearMappings_def)
  from delMappings_commits [OF doc st this] have q: "quiet V d d1" by simp
  then have "quiet V d1 (upd_group g (\<lambda>gr. gr\<lparr>cg_closed := True\<rparr>) d1)"
    by (intro quiet_upd quiet_settled) simp_all
  then have "quiet V d1 d'"
    by (simp add: d' t_close_def quiet_def settled_def elems_of_def flow_rules_ok_def)
  with q show ?thesis by (rule quiet_trans)
qed

text \<open>
  C14. A \<open>Close\<close> of the dataplane that returns no error leaves nothing behind: the table has no
  element and no rule, so no packet is translated any more, no mapping is active and no request is
  queued.
\<close>

theorem Close_empties_kernel:
  assumes "nft_documented K V" and "sync_reach K V b d" and "\<not> d_closed d"
    and "connft_Close K d = (None, d')"
  shows "table_of V d' = empty_table \<and> queue_of V d' = [] \<and> active_mappings d' = []"
proof -
  let ?d0 = "d\<lparr>d_closed := True\<rparr>"
  have k: "kernel_inv V b d" by (rule sync_reach_inv [OF assms(1,2)])
  have k': "kernel_inv V (b \<and> (None :: dp_error option) = None) d'"
    by (rule connft_Close_kernel [OF assms(1) k assms(4)])
  have core: "inv_core ?d0" and st0: "settled V ?d0" and sy0: "sync b (active_set ?d0) (elems_of V ?d0)"
    using k by (simp_all add: kernel_inv_def inv_defs settled_def flow_rules_ok_def active_set_def elems_of_def)
  obtain es d1 where c: "close_groups K (map snd (d_groups ?d0)) ?d0 = (es, d1)"
    by (cases "close_groups K (map snd (d_groups ?d0)) ?d0")
  obtain e2 d2 where t: "ensureTableDeleted K d1 = (e2, d2)" by (cases "ensureTableDeleted K d1")
  have e2: "e2 = None" and d': "d' = d2\<lparr>d_nft := ct_Close K (d_nft d2)\<rparr>"
    using assms(3,4) c t by (auto simp: connft_Close_def Let_def)
  have "queue_of V d1 = []"
    using close_groups_kernel [OF assms(1) core st0 sy0 c] by (simp add: settled_def)
  from ensureTableDeleted_empties [OF assms(1) this] t e2 have "table_of V d2 = empty_table" by simp
  moreover have "same_table V (d_nft d2) (ct_Close K (d_nft d2))"
    using assms(1) by (simp add: nft_documented_def)
  ultimately have "table_of V d' = empty_table" by (simp add: d' view_defs same_table_def)
  moreover have "d_groups d' = []"
    using k' connft_Close_inv(2) [OF _ assms(4)] k by (simp add: kernel_inv_def connft_inv_def)
  ultimately show ?thesis using k' by (simp add: kernel_inv_def settled_def active_mappings_def)
qed

definition demo_closed :: "ref_nft connft" where
  "demo_closed = snd (connft_Close ref_ops demo_opened)"

theorem Close_empties_kernel_witness:
  "table_of ref_view demo_closed = empty_table"
proof -
  have q: "nv_queue ref_view (demo_nft t as) = []" for t as by (simp add: ref_view_def demo_nft_def)
  note s = sync_reach.init [OF demo_opened_New q]
  have open': "d_closed demo_opened = False" by (simp add: demo_opened_def connft_init_def)
  have "fst (connft_Close ref_ops demo_opened) = None"
    by (simp add: demo_opened_def connft_init_def connft_Close_def ensureTableDeleted_def ref_flush_dplane
        demo_nft_def not_ENOENT_def Let_def errors_join_def)
  then have "connft_Close ref_ops demo_opened = (None, demo_closed)" by (simp add: demo_closed_def prod_eq_iff)
  from Close_empties_kernel [OF ref_documented s _ this] open' show ?thesis by simp
qed


definition demo_stranded :: "ref_nft connft" where
  "demo_stranded = snd (group_Close ref_ops 0 demo_enabled)"


section \<open>Timeout rules\<close>

lemma timeout_rule_on_mapping:
  assumes "nft_machine exec" and "wire_carries w pkt" and "mapping_wf m"
  shows "attached (run_rule exec E w
       (rule_Exprs (defineTimeoutRule (m_Protocol m) (m_Source m) name)) R) =
     (if mapping_claims pkt m then [name] else [])"
proof -
  have "addr_Zone (ap_addr (m_Source m)) = ''''" "addr_IsValid (ap_addr (m_Source m))"
    using assms(3) by (auto simp: mapping_wf_def addr_IsValid_iff)
  from timeout_rule_attaches [OF assms(1,2) this, of E "m_Protocol m" name R]
  show ?thesis by (simp add: mapping_claims_def)
qed

text \<open>
  C16. The rule that \<open>defineTimeoutRule\<close> builds for the listen address of a valid mapping attaches
  its timeout object to exactly the packets that the mapping claims.
\<close>

theorem timeout_rule_follows_mapping:
  assumes "nft_machine exec" and "wire_carries w pkt" and "mapping_Validate m = None"
  shows "attached (run_rule exec E w
       (rule_Exprs (defineTimeoutRule (m_Protocol m) (m_Source m) name)) R) =
     (if mapping_claims pkt m then [name] else [])"
  using timeout_rule_on_mapping [OF assms(1,2)] assms(3) by (simp add: mapping_Validate_None)

theorem timeout_rule_follows_mapping_witness:
  "attached (run_rule ref_exec (\<lambda>_ _. None) (demo_wire demo_packet)
       (rule_Exprs (defineTimeoutRule (m_Protocol demo_mapping) (m_Source demo_mapping) ''ct_1''))
       (\<lambda>_. 0)) = [''ct_1'']"
  using timeout_rule_follows_mapping [OF ref_machine demo_wire_carries(1) demo_mapping_Validate]
  by (simp add: demo_claims)

text \<open>
  C17. The timeout rules are evaluated after the translation, on packets that carry the target as
  their destination. There the rule of a mapping attaches its object only when the listen address
  is a wildcard and listen port and target port are the same: the flows of every other mapping
  never get the timeout that is configured for them.
\<close>

theorem timeout_rule_after_translation:
  assumes "nft_machine exec" and "mapping_Validate m = None"
    and "wire_carries w \<lparr>pkt_proto = m_Protocol m, pkt_dst = m_Destination m\<rparr>"
  shows "attached (run_rule exec E w
       (rule_Exprs (defineTimeoutRule (m_Protocol m) (m_Source m) name)) R) =
     (if addr_IsUnspecified (ap_addr (m_Source m)) \<and> ap_port (m_Source m) = ap_port (m_Destination m)
      then [name] else [])"
proof -
  have wf: "mapping_wf m" using assms(2) by (simp add: mapping_Validate_None)
  then have "mapping_claims \<lparr>pkt_proto = m_Protocol m, pkt_dst = m_Destination m\<rparr> m \<longleftrightarrow>
      addr_IsUnspecified (ap_addr (m_Source m)) \<and> ap_port (m_Source m) = ap_port (m_Destination m)"
    using mapping_wf_family [OF wf]
    by (auto simp: mapping_claims_def mapping_wf_def intro: addr_port.equality)
  with timeout_rule_on_mapping [OF assms(1,3) wf] show ?thesis by simp
qed

theorem timeout_rule_after_translation_witness:
  "attached (run_rule ref_exec (\<lambda>_ _. None) (demo_wire demo_translated)
       (rule_Exprs (defineTimeoutRule (m_Protocol demo_mapping) (m_Source demo_mapping) ''ct_1''))
       (\<lambda>_. 0)) = []"
  using timeout_rule_after_translation [OF ref_machine demo_mapping_Validate, of "demo_wire demo_translated"]
    demo_wire_carries(2)
  by (simp add: demo_translated_def demo_mapping_def addr_IsUnspecified_def)

end
