(* ===== verification/Gateway_Spec.thy ===== *)
theory Gateway_Spec
  imports Engine_Spec Forwarding_Spec
begin

text \<open>
  The gateway as a whole: what the engine, its targets and its frontends do to the dataplane are
  calls of the dataplane, so the kernel's table follows the world, and a packet for the listen
  address of a frontend reaches the endpoint exactly while its target is active.
\<close>

declare target_Warm.simps [simp del] target_Drain.simps [simp del]
  split_paired_All [simp del] split_paired_Ex [simp del]

section \<open>The world calls the dataplane\<close>

definition by_calls :: "'d dataplane_ops \<Rightarrow> 'd \<Rightarrow> 'd \<Rightarrow> bool" where
  "by_calls P d d' \<longleftrightarrow> (\<exists>cs. d' = client_run P cs d) \<or> d' = snd (dp_StaleGroups P d)"

lemma by_calls_refl [simp]: "by_calls P d d"
  unfolding by_calls_def by (metis client_run_def foldl.simps(1))

lemma by_one_call: "d' = client_exec P c d \<Longrightarrow> by_calls P d d'"
  unfolding by_calls_def by (metis client_run_def foldl.simps)

lemma by_two_calls: "d' = client_exec P c (client_exec P c0 d) \<Longrightarrow> by_calls P d d'"
  unfolding by_calls_def by (metis client_run_def foldl.simps)

lemma target_loop_calls:
  assumes "target_loop P (t, d) l (t', d')"
  shows "by_calls P d d'"
  using assms
proof cases
  case (warm err)
  obtain r d1 where e: "g_Enable P (t_group t) d = (r, d1)" by (cases "g_Enable P (t_group t) d")
  have "d' = d \<or> d' = d1" using warm e
    by (auto simp: warm_finish_def Let_def split: if_splits option.splits)
  then show ?thesis using by_one_call [of d1 P "OnGroup (t_group t) GEnable" d] e by auto
next
  case (drain err)
  obtain r d1 where e: "g_Disable P (t_group t) d = (r, d1)" by (cases "g_Disable P (t_group t) d")
  have "d' = d \<or> d' = d1" using drain e
    by (auto simp: drain_finish_def Let_def split: if_splits option.splits)
  then show ?thesis using by_one_call [of d1 P "OnGroup (t_group t) GDisable" d] e by auto
next
  case (gclose err)
  obtain r d1 where e: "g_Close P (t_group t) d = (r, d1)" by (cases "g_Close P (t_group t) d")
  with gclose have "d' = d1" by (simp add: end_group_def)
  then show ?thesis using by_one_call [of d1 P "CloseGroup (t_group t)" d] e by simp
qed simp_all

lemma frontend_loop_calls:
  assumes "frontend_loop P (f, t, d) l (f', t', d')"
  shows "by_calls P d d'"
  using assms
proof cases
  case (unbind err)
  obtain r d1 where e: "g_DelMappings P (t_group t) [f_mapping f] d = (r, d1)"
    by (cases "g_DelMappings P (t_group t) [f_mapping f] d")
  with unbind have "d' = d1" by (auto simp: frontend_end_mapping_def)
  then show ?thesis using by_one_call [of d1 P "OnGroup (t_group t) (GDel [f_mapping f])" d] e by simp
qed simp_all

lemma detect_targets_dplane: "detect_targets ts stale now w = Some w' \<Longrightarrow> w_dplane w' = w_dplane w"
proof (induction ts arbitrary: w)
  case (Cons ni ts)
  obtain n i where ni: "ni = (n, i)" by (cases ni)
  show ?case
    using Cons.prems Cons.IH
    by (auto simp: ni Let_def upd_tgt_def split: if_splits option.splits dest!: Cons.IH)
qed simp

lemma NewTarget_calls: "by_calls P (w_dplane w) (w_dplane (snd (engine_NewTarget P cfg made herr now0 now w)))"
proof -
  obtain res d where n: "dp_NewGroup P (tc_Name cfg) now0 (w_dplane w) = (res, d)"
    by (cases "dp_NewGroup P (tc_Name cfg) now0 (w_dplane w)")
  have d: "d = client_exec P (OpenGroup (tc_Name cfg) now0) (w_dplane w)" by (simp add: n)
  have "\<exists>x. x = w_dplane (snd (engine_NewTarget P cfg made herr now0 now w))
      \<and> (x = w_dplane w \<or> x = d \<or> (\<exists>g. x = snd (g_Close P g d)))"
    by (auto simp: engine_NewTarget_def Let_def n split: sum.split prod.split option.split)
      (metis snd_conv)+
  then show ?thesis
    using by_one_call [OF d] by_two_calls [of _ P "CloseGroup g" "OpenGroup (tc_Name cfg) now0" "w_dplane w" for g]
    by (auto simp: d)
qed

lemma NewFrontend_calls: "by_calls P (w_dplane w) (w_dplane (snd (engine_NewFrontend P cfg made herr w)))"
proof -
  have "\<exists>x. x = w_dplane (snd (engine_NewFrontend P cfg made herr w))
      \<and> (x = w_dplane w \<or> (\<exists>g ms. x = snd (g_AddMappings P g ms (w_dplane w))))"
    by (auto simp: engine_NewFrontend_def frontend_New_def Let_def split: sum.split prod.split option.split)
      (metis snd_conv)+
  then show ?thesis
    using by_one_call [of _ P "OnGroup g (GAdd ms)" "w_dplane w" for g ms] by auto
qed

lemma world_step_calls:
  assumes "world_step P w w'"
  shows "by_calls P (w_dplane w) (w_dplane w')"
  using assms
proof cases
  case (call c)
  then show ?thesis
    by (cases c) (auto simp: NewTarget_calls NewFrontend_calls engine_DelTarget_def engine_DelFrontend_def
        engine_AddTargetKind_def engine_DelTargetKind_def engine_AddFrontendKind_def engine_DelFrontendKind_def
        engine_Close_def world_cancel_def split: option.split)
next
  case dclose
  then show ?thesis using by_one_call [of _ P CloseAll "w_dplane w"] by simp
next
  case eloop
  then show ?thesis
  proof cases
    case (tick ts)
    then have "w_dplane w' = snd (dp_StaleGroups P (w_dplane w))"
      by (auto simp: engine_poll_def split: prod.splits sum.splits)
    then show ?thesis by (simp add: by_calls_def)
  next
    case (detect stale ts w1)
    then show ?thesis
      using detect_targets_dplane [of "w_targets w" stale ts w w1] by (simp add: engine_detectTimeouts_def)
  qed (simp_all add: engine_Close_def world_cancel_def)
next
  case (tloop i l t' d')
  then show ?thesis using target_loop_calls by simp
next
  case (floop i l f' t' d')
  then show ?thesis using frontend_loop_calls by simp
qed (simp_all add: world_cancel_def upd_tgt_def upd_fe_def)

text \<open>
  So the dataplane of every reachable world is one that calls of the dataplane reach; the flag is
  true when no \<open>Close\<close> on the way has reported an error.
\<close>

lemma client_exec_sync:
  assumes "sync_reach K V b d"
  shows "\<exists>b'. sync_reach K V b' (client_exec (connft_dataplane K) c d)"
proof -
  have "\<exists>c'. client_exec (connft_dataplane K) c d = dp_exec K c' d"
  proof (cases c)
    case (OnGroup g gc)
    then show ?thesis
      by (cases gc) (use OnGroup in \<open>simp_all add: connft_dataplane_def\<close>, (metis dp_exec.simps)+)
  next
    case (CloseGroup g)
    then show ?thesis by (intro exI [of _ "CallCloseGroup g"]) (simp add: connft_dataplane_def)
  next
    case (OpenGroup name now)
    then show ?thesis by (intro exI [of _ "CallNewGroup name now"]) (simp add: connft_dataplane_def)
  next
    case CloseAll
    then show ?thesis by (intro exI [of _ CallClose]) (simp add: connft_dataplane_def)
  qed
  with sync_reach.call [OF assms] show ?thesis by metis
qed

lemma client_run_sync:
  assumes "sync_reach K V b d"
  shows "\<exists>b'. sync_reach K V b' (client_run (connft_dataplane K) cs d)"
  using assms
proof (induction cs arbitrary: b d)
  case Nil
  then show ?case by (auto simp: client_run_def)
next
  case (Cons c cs)
  have "client_run (connft_dataplane K) (c # cs) d =
      client_run (connft_dataplane K) cs (client_exec (connft_dataplane K) c d)"
    by (simp add: client_run_def)
  with Cons.IH client_exec_sync [OF Cons.prems, of c] show ?case by metis
qed

lemma world_reach_sync:
  assumes "world_reach (connft_dataplane K) d w" and "sync_reach K V True d"
  shows "\<exists>b. sync_reach K V b (w_dplane w)"
  using assms
proof (induction rule: world_reach.induct)
  case (init pd tgt0 fe0)
  then show ?case by (auto simp: engine_New_def)
next
  case (step w w')
  then obtain b where b: "sync_reach K V b (w_dplane w)" by blast
  from world_step_calls [OF step(2)] show ?case
    unfolding by_calls_def
  proof
    assume "\<exists>cs. w_dplane w' = client_run (connft_dataplane K) cs (w_dplane w)"
    with client_run_sync [OF b] show ?thesis by metis
  next
    assume "w_dplane w' = snd (dp_StaleGroups (connft_dataplane K) (w_dplane w))"
    with sync_reach.stale [OF b] show ?thesis by (auto simp: connft_dataplane_def)
  qed
qed

text \<open>A dataplane that was opened on a connection with nothing queued.\<close>

definition gateway_reach :: "'n nft_ops \<Rightarrow> 'n nft_view \<Rightarrow> 'n connft world \<Rightarrow> bool" where
  "gateway_reach K V w \<longleftrightarrow> (\<exists>name n d n'. connft_New K name n = (Inr d, n') \<and> nv_queue V n = []
     \<and> world_reach (connft_dataplane K) d w)"

lemma gateway_engine: "gateway_reach K V w \<Longrightarrow> engine_reach K w"
  unfolding gateway_reach_def engine_reach_def by blast

lemma gateway_sync: "gateway_reach K V w \<Longrightarrow> \<exists>b. sync_reach K V b (w_dplane w)"
  unfolding gateway_reach_def using world_reach_sync sync_reach.init by metis

section \<open>A demonstration world\<close>

text \<open>An active target and a frontend on it, over the reference connection.\<close>

definition demo_opening :: "ref_nft connft world" where
  "demo_opening = engine_New False demo_target demo_frontend demo_opened"

definition demo_parked :: "ref_nft connft world" where
  "demo_parked = demo_opening\<lparr>w_dplane := demo_mapped, w_targetCtors := [(''static:none'', Some 0)],
     w_frontendCtors := [(''static:always'', Some 0)], w_targets := [(''web'', 0)], w_ntgt := 1,
     w_lastSeen := [(''web'', 5)], w_frontends := [(''fe'', 0)], w_nfe := 1\<rparr>"

lemma demo_registering: "NewGroup ''web'' 0 demo_opened = (Inr 0, snd (NewGroup ''web'' 0 demo_opened))"
  by (simp add: NewGroup_def NewConnftGroup_def demo_opened_def connft_init_def Let_def)

lemma demo_binding:
  "frontend_New (connft_dataplane ref_ops) (Some False) (Some (0, demo_target)) demo_endpoint (Some 1)
     demo_frontend_cfg (snd (NewGroup ''web'' 0 demo_opened)) = (Inr demo_frontend, demo_mapped)"
proof -
  let ?d = "snd (NewGroup ''web'' 0 demo_opened)"
  have "fst (group_AddMappings ref_ops 0 [demo_mapping] ?d) = None"
    using demo_mapping_check
    by (simp add: NewGroup_def NewConnftGroup_def demo_opened_def connft_init_def Let_def
        group_AddMappings_def unusable_def addMappings_def existing_mappings_def group_mappings_def)
  then have "group_AddMappings ref_ops 0 [demo_mapping] ?d = (None, demo_mapped)"
    using demo_mapped_exec by (simp add: prod_eq_iff)
  moreover have "\<lparr>m_Source = fc_Listen demo_frontend_cfg, m_Destination = e_Address demo_endpoint,
      m_Timeout = fc_FlowTimeout demo_frontend_cfg, m_Protocol = fc_Protocol demo_frontend_cfg\<rparr> = demo_mapping"
    by (simp add: demo_frontend_cfg_def demo_endpoint_def demo_mapping_def)
  ultimately show ?thesis
    by (simp add: frontend_New_def connft_dataplane_def demo_frontend_def demo_frontend_cfg_def
        ref_String_def demo_target_def)
qed

lemma demo_parked_calls:
  "foldl (\<lambda>w c. engine_exec (connft_dataplane ref_ops) c w) demo_opening
     [CallAddTargetKind ''static:none'' (Some 0), CallAddFrontendKind ''static:always'' (Some 0),
      CallNewTarget demo_target_cfg (Inr 0) None 0 5, CallNewFrontend demo_frontend_cfg (Inr 1) None] =
   demo_parked"
proof -
  have t: "target_New (Some False) (Some 0) (Some 0) demo_target_cfg = Inr demo_target" by code_simp
  have e: "target_Endpoint ''http'' demo_target = Some demo_endpoint" by code_simp
  have n: "t_name demo_target = ''web''" "t_state demo_target = Inactive" "tc_Name demo_target_cfg = ''web''"
    "ref_String (tc_Kind demo_target_cfg) = ''static:none''" "f_name demo_frontend = ''fe''"
    "fc_Name demo_frontend_cfg = ''fe''" "ref_String (fc_Kind demo_frontend_cfg) = ''static:always''"
    "fc_Endpoint demo_frontend_cfg = \<lparr>ref_Namespace = ''web'', ref_Name = ''http''\<rparr>"
    by (simp_all add: demo_target_def demo_target_cfg_def demo_frontend_def demo_frontend_cfg_def ref_String_def)
  have g: "dp_NewGroup (connft_dataplane ref_ops) ''web'' 0 demo_opened = (Inr 0, snd (NewGroup ''web'' 0 demo_opened))"
    using demo_registering by (simp add: connft_dataplane_def)
  show ?thesis
    by (simp add: demo_opening_def demo_parked_def engine_New_def engine_AddTargetKind_def engine_AddFrontendKind_def
        engine_NewTarget_def engine_NewFrontend_def engine_GetTargetKind_def engine_FrontendKind_def n t e g
        demo_binding Let_def fun_upd_idem_iff del: One_nat_def)
qed
lemma demo_parked_reach: "gateway_reach ref_ops ref_view demo_parked"
proof -
  have q: "nv_queue ref_view (demo_nft t as) = []" for t as by (simp add: ref_view_def demo_nft_def)
  have "world_reach (connft_dataplane ref_ops) demo_opened
      (foldl (\<lambda>w c. engine_exec (connft_dataplane ref_ops) c w) w cs)"
    if "world_reach (connft_dataplane ref_ops) demo_opened w" for w cs
    using that by (induction cs arbitrary: w) (simp_all add: world_reach.step [OF _ world_step.call])
  from this [OF world_reach.init] demo_opened_New q show ?thesis
    unfolding gateway_reach_def demo_parked_calls [symmetric] demo_opening_def by metis
qed

definition demo_active :: target where
  "demo_active = demo_target\<lparr>t_state := Active\<rparr>"

definition demo_serving :: "ref_nft connft world" where
  "demo_serving = (upd_tgt 0 demo_active demo_parked)\<lparr>w_dplane := demo_enabled\<rparr>"

lemma demo_warming:
  "warm_finish (connft_dataplane ref_ops) None (demo_target\<lparr>t_state := Warming, t_pc := TInHandler Warming\<rparr>)
     demo_mapped = (demo_active, demo_enabled)"
proof -
  have "mapping_sets demo_mapping = [DnatSpecific4]" by code_simp
  then have "fst (group_Enable ref_ops 0 demo_mapped) = None"
    by (simp add: group_Enable_def unusable_def demo_mapped_def demo_opened_def connft_init_def demo_web_def
        group_mappings_def ensureDNATAdded_def ref_flush_dplane demo_nft_def)
  then have "group_Enable ref_ops 0 demo_mapped = (None, demo_enabled)"
    using demo_enabled_exec by (simp add: prod_eq_iff)
  then show ?thesis
    by (simp add: warm_finish_def Let_def connft_dataplane_def demo_target_def demo_active_def)
qed

lemma demo_serving_reach: "gateway_reach ref_ops ref_view demo_serving"
proof -
  let ?P = "connft_dataplane ref_ops"
  let ?t1 = "demo_target\<lparr>t_state := Warming, t_requests := [Warming]\<rparr>"
  let ?t2 = "demo_target\<lparr>t_state := Warming, t_pc := TGot Warming\<rparr>"
  let ?t3 = "demo_target\<lparr>t_state := Warming, t_pc := TInHandler Warming\<rparr>"
  have at: "w_tgt (upd_tgt 0 t demo_parked) 0 = t" "w_ntgt (upd_tgt 0 t demo_parked) = 1"
    "w_dplane (upd_tgt 0 t demo_parked) = demo_mapped" for t
    by (simp_all add: upd_tgt_def demo_parked_def)
  have go: "gateway_reach ref_ops ref_view w \<Longrightarrow> world_step ?P w w' \<Longrightarrow> gateway_reach ref_ops ref_view w'" for w w'
    unfolding gateway_reach_def by (meson world_reach.step)
  have loop: "world_step ?P (upd_tgt 0 t demo_parked) ((upd_tgt 0 t' demo_parked)\<lparr>w_dplane := d'\<rparr>)"
    if "target_loop ?P (t, demo_mapped) l (t', d')" for t l t' d'
    using world_step.tloop [of 0 "upd_tgt 0 t demo_parked" ?P l t' d'] that
    by (simp add: at) (simp add: upd_tgt_def)
  have same: "(upd_tgt 0 t demo_parked)\<lparr>w_dplane := demo_mapped\<rparr> = upd_tgt 0 t demo_parked" for t
    by (simp add: upd_tgt_def demo_parked_def)
  have "target_Warm demo_target = Some (True, ?t1)"
    by (simp add: demo_target_def target_request_def chan_send_def target_Warm.simps)
  then have "target_api (w_tgt demo_parked 0) ?t1"
    by (simp add: demo_parked_def demo_opening_def engine_New_def target_api.warm)
  then have s1: "gateway_reach ref_ops ref_view (upd_tgt 0 ?t1 demo_parked)"
    using go [OF demo_parked_reach] world_step.tapi [of 0 demo_parked] by (simp add: demo_parked_def)
  have "target_loop ?P (?t1, demo_mapped) Tau (target_receive ?t1, demo_mapped)"
    by (rule target_loop.receive) (simp_all add: demo_target_def)
  moreover have "target_receive ?t1 = ?t2" by (simp add: target_receive_def demo_target_def)
  ultimately have s2: "gateway_reach ref_ops ref_view (upd_tgt 0 ?t2 demo_parked)"
    using go [OF s1] loop same by metis
  have "target_loop ?P (?t2, demo_mapped) Tau (target_begin Warming ?t2, demo_mapped)"
    by (rule target_loop.enter) simp
  moreover have "target_begin Warming ?t2 = ?t3" by (simp add: target_begin_def)
  ultimately have s3: "gateway_reach ref_ops ref_view (upd_tgt 0 ?t3 demo_parked)"
    using go [OF s2] loop same by metis
  have "target_loop ?P (?t3, demo_mapped) (HWarm None) (demo_active, demo_enabled)"
    unfolding demo_warming [symmetric] by (rule target_loop.warm) simp
  from go [OF s3 loop [OF this]] show ?thesis by (simp add: demo_serving_def)
qed

lemma demo_serving_values:
  "w_dplane demo_serving = demo_enabled" "w_nfe demo_serving = 1" "w_fe demo_serving 0 = demo_frontend"
  "w_tgt demo_serving 0 = demo_active"
  by (simp_all add: demo_serving_def upd_tgt_def demo_parked_def demo_opening_def engine_New_def)

section \<open>Packets and frontends\<close>

text \<open>
  C1. The whole path: take any world that the callers, the loops of the engine, of its targets and of
  its frontends can reach, over a kernel that behaves as documented, in which no \<open>Close\<close> has
  reported an error; then the rules and elements in the kernel translate a packet for the listen
  address of a frontend that has not ended to the endpoint of its mapping when the frontend's target
  is active, and leave it alone when the target is inactive (the target's group being open and the
  target reporting no error).
\<close>

theorem packets_reach_active_targets:
  assumes "nft_documented K V" and "nft_machine exec"
    and "gateway_reach K V w" and "sync_reach K V True (w_dplane w)"
    and "j < w_nfe w" and "f_binds (w_fe w j)" and "t = w_tgt w (f_target (w_fe w j))"
    and "\<not> unusable (w_dplane w) (t_group t)" and "t_err t = None" and "t_state t \<in> {Active, Inactive}"
    and "wire_carries p pkt" and "mapping_claims pkt (f_mapping (w_fe w j))"
  shows "translation (run_chain exec (nt_elems (table_of V (w_dplane w))) p
      (dnat_rules (table_of V (w_dplane w))) R) =
    (if t_state t = Active then Some (target_bytes (f_mapping (w_fe w j))) else None)"
proof -
  let ?d = "w_dplane w" and ?m = "f_mapping (w_fe w j)" and ?g = "t_group t"
  note act = sync_reach_active [OF assms(1,4)]
  note ok = engine_reach_ok [OF gateway_engine [OF assms(3)]]
  have live: "live ?d ?g" and open': "\<not> d_closed ?d"
    using assms(8) by (simp_all add: unusable_def live_def)
  have m: "?m \<in> set (group_Mappings ?g ?d)" using bound_mapping [OF ok assms(5,6)] assms(7,8) by simp
  then have h: "holds (d_heap ?d ?g) ?m" using inv_mappings [OF act(1)] by simp
  have "cdp.switch_ok t ?d"
    unfolding assms(7) by (rule cdp.world_okD(4) [OF ok cdp.world_okD(6) [OF ok assms(5)]])
  then have sw: "t_state t = Active \<longleftrightarrow> cg_enabled (d_heap ?d ?g)"
    using live assms(9,10) by (auto simp: cdp.switch_ok_def cg_isEnabled_def)
  have rules: "dnat_rules (table_of V ?d) = addDNATRules" by (rule act(5) [OF open'])
  show ?thesis
  proof (cases "t_state t = Active")
    case True
    then have "?m \<in> set (active_mappings ?d)"
      unfolding set_active_mappings [OF act(1)] active_set_def using live h sw by blast
    from chain_hit [OF assms(2,11) act(2,3) this assms(12)] True rules show ?thesis by simp
  next
    case False
    have "\<not> mapping_claims pkt x" if x: "x \<in> set (active_mappings ?d)" for x
    proof
      assume "mapping_claims pkt x"
      then have ov: "mapping_Overlaps ?m x" by (rule mapping_claims_Overlaps [OF assms(12)])
      from x obtain g' where "live ?d g'" "cg_enabled (d_heap ?d g')" "holds (d_heap ?d g') x"
        unfolding set_active_mappings [OF act(1)] active_set_def by blast
      with live h ov act(1) sw False show False
        unfolding connft_inv_def inv_core_def no_overlaps_def by metis
    qed
    from chain_miss [OF assms(2,11) act(2,3) this] False rules show ?thesis by simp
  qed
qed

theorem packets_reach_active_targets_witness:
  "translation (run_chain ref_exec (nt_elems (table_of ref_view (w_dplane demo_serving))) (demo_wire demo_packet)
     (dnat_rules (table_of ref_view (w_dplane demo_serving))) (\<lambda>_. 0)) = Some ([10, 0, 0, 2], [31, 144])"
proof -
  have v: "f_binds demo_frontend" "f_target demo_frontend = 0" "f_mapping demo_frontend = demo_mapping"
    "t_group demo_active = 0" "t_err demo_active = None" "t_state demo_active = Active"
    by (simp_all add: demo_frontend_def demo_active_def demo_target_def f_binds_def)
  have u: "\<not> unusable demo_enabled 0" using demo_enabled_values by (simp add: unusable_def demo_web_def)
  show ?thesis
    using packets_reach_active_targets [OF ref_documented ref_machine demo_serving_reach, of 0 demo_active
        "demo_wire demo_packet" demo_packet "\<lambda>_. 0"] demo_enabled_reach v u demo_wire_carries(1) demo_claims
    by (simp add: demo_serving_values demo_bytes)
qed

end
