(* ===== verification/Go_Strings.thy ===== *)
theory Go_Strings
  imports Prelude
begin

text \<open>
  The part of Go's \<open>strings\<close> that the gateway uses. A Go string is a sequence of bytes, here a
  \<^typ>\<open>string\<close> with one \<^typ>\<open>char\<close> for each byte, read as UTF-8 by \<open>TrimSpace\<close>.
\<close>

section \<open>\<open>TrimSpace\<close>\<close>

text \<open>The UTF-8 encodings of the runes that \<open>unicode.IsSpace\<close> accepts.\<close>

definition space_runes :: "string list" where
  "space_runes = [[CHR 0x09], [CHR 0x0A], [CHR 0x0B], [CHR 0x0C], [CHR 0x0D], [CHR 0x20],
     [CHR 0xC2, CHR 0x85], [CHR 0xC2, CHR 0xA0], [CHR 0xE1, CHR 0x9A, CHR 0x80],
     [CHR 0xE2, CHR 0x80, CHR 0x80], [CHR 0xE2, CHR 0x80, CHR 0x81],
     [CHR 0xE2, CHR 0x80, CHR 0x82], [CHR 0xE2, CHR 0x80, CHR 0x83],
     [CHR 0xE2, CHR 0x80, CHR 0x84], [CHR 0xE2, CHR 0x80, CHR 0x85],
     [CHR 0xE2, CHR 0x80, CHR 0x86], [CHR 0xE2, CHR 0x80, CHR 0x87],
     [CHR 0xE2, CHR 0x80, CHR 0x88], [CHR 0xE2, CHR 0x80, CHR 0x89],
     [CHR 0xE2, CHR 0x80, CHR 0x8A], [CHR 0xE2, CHR 0x80, CHR 0xA8],
     [CHR 0xE2, CHR 0x80, CHR 0xA9], [CHR 0xE2, CHR 0x80, CHR 0xAF],
     [CHR 0xE2, CHR 0x81, CHR 0x9F], [CHR 0xE3, CHR 0x80, CHR 0x80]]"

lemma space_runes_nonempty: "[] \<notin> set space_runes"
  by (auto simp: space_runes_def)

fun has_prefix :: "string \<Rightarrow> string \<Rightarrow> bool" where
  "has_prefix [] s = True"
| "has_prefix (x # xs) [] = False"
| "has_prefix (x # xs) (y # ys) = (x = y \<and> has_prefix xs ys)"

lemma has_prefix_iff: "has_prefix p s \<longleftrightarrow> (\<exists>t. s = p @ t)"
  by (induction p s rule: has_prefix.induct) auto

text \<open>
  Dropping runes of a set from the front while there is one; \<open>k\<close> bytes of the current rune are left.
\<close>

fun trim_front :: "string list \<Rightarrow> nat \<Rightarrow> string \<Rightarrow> string" where
  "trim_front rs k [] = []"
| "trim_front rs k (c # s) =
     (if 0 < k then trim_front rs (k - 1) s
      else case find (\<lambda>r. r \<noteq> [] \<and> has_prefix r (c # s)) rs of
        None \<Rightarrow> c # s | Some r \<Rightarrow> trim_front rs (length r - 1) s)"

definition TrimSpace :: "string \<Rightarrow> string" where
  "TrimSpace s = rev (trim_front (map rev space_runes) 0 (rev (trim_front space_runes 0 s)))"

section \<open>\<open>ToLower\<close>\<close>

text \<open>
  Only ASCII letters are mapped: no other rune has a lower-case form that is one of the letters the
  gateway compares with.
\<close>

definition lower_char :: "char \<Rightarrow> char" where
  "lower_char c = (let n = of_char c :: nat in if 65 \<le> n \<and> n \<le> 90 then char_of (n + 32) else c)"

definition ToLower :: "string \<Rightarrow> string" where
  "ToLower s = map lower_char s"

text \<open>What is left begins with no rune of the set, and nothing else has been dropped.\<close>

lemma trim_front_done: "k = 0 \<or> k < length s \<Longrightarrow> find (\<lambda>r. r \<noteq> [] \<and> has_prefix r (trim_front rs k s)) rs = None"
proof (induction rs k s rule: trim_front.induct)
  case (1 rs k)
  then show ?case by (auto simp: find_None_iff has_prefix_iff)
next
  case (2 rs k c s)
  show ?case
  proof (cases "0 < k")
    case True
    with 2(3) have "k - 1 < length s" by auto
    with 2(1) [OF True] True show ?thesis by simp
  next
    case False
    show ?thesis
    proof (cases "find (\<lambda>r. r \<noteq> [] \<and> has_prefix r (c # s)) rs")
      case None
      with False show ?thesis by simp
    next
      case (Some r)
      then have r: "r \<noteq> []" "has_prefix r (c # s)" by (auto simp: find_Some_iff)
      then have "length r - 1 = 0 \<or> length r - 1 < length s \<or> length r - 1 = length s"
        by (auto simp: has_prefix_iff Cons_eq_append_conv)
      moreover have "trim_front rs (length s) s = []" for s :: string
        by (induction s) auto
      ultimately show ?thesis using 2(2) [OF False Some] False Some
        by (auto simp: find_None_iff has_prefix_iff)
    qed
  qed
qed

lemma trim_front_suffix: "\<exists>p. s = p @ trim_front rs k s"
proof (induction rs k s rule: trim_front.induct)
  case (2 rs k c s)
  show ?case
  proof (cases "0 < k")
    case True
    with 2(1) obtain p where "s = p @ trim_front rs (k - 1) s" by blast
    then have "c # s = (c # p) @ trim_front rs k (c # s)" using True by simp
    then show ?thesis by blast
  next
    case False
    show ?thesis
    proof (cases "find (\<lambda>r. r \<noteq> [] \<and> has_prefix r (c # s)) rs")
      case (Some r)
      with 2(2) [OF False Some] obtain p where "s = p @ trim_front rs (length r - 1) s" by blast
      then have "c # s = (c # p) @ trim_front rs k (c # s)" using False Some by simp
      then show ?thesis by blast
    qed (use False in simp)
  qed
qed simp

end
