(* ===== verification/Ipc_Method.thy ===== *)
theory Ipc_Method
  imports Config_Validate Go_Strings
begin

text \<open>
  The messages of the control protocol (\<open>plugin/ctl/ipc/method\<close>), the packet that carries them
  (\<open>packet.go\<close>), the choice of a codec (\<open>codec/codec.go\<close>) and the decoding of a packet's body
  (\<open>ParseRawBody\<close>, \<open>MakePacket\<close>). The encodings themselves are those of \<open>encoding/json\<close> and
  \<open>fxamacker/cbor\<close>; a codec is a parameter with its \<open>Marshal\<close> and \<open>Unmarshal\<close>.
\<close>

section \<open>Method numbers (method.go)\<close>

definition MethodEmpty :: u16 where "MethodEmpty = 0"
definition MethodErrorResponse :: u16 where "MethodErrorResponse = 1"
definition MethodStatusRequest :: u16 where "MethodStatusRequest = 2"
definition MethodStatusResponse :: u16 where "MethodStatusResponse = 3"
definition MethodPluginInitRequest :: u16 where "MethodPluginInitRequest = 4"
definition MethodPluginInitResponse :: u16 where "MethodPluginInitResponse = 5"
definition MethodNewTargetRequest :: u16 where "MethodNewTargetRequest = 6"
definition MethodNewTargetResponse :: u16 where "MethodNewTargetResponse = 7"
definition MethodWarmTargetRequest :: u16 where "MethodWarmTargetRequest = 8"
definition MethodWarmTargetResponse :: u16 where "MethodWarmTargetResponse = 9"
definition MethodDrainTargetRequest :: u16 where "MethodDrainTargetRequest = 10"
definition MethodDrainTargetResponse :: u16 where "MethodDrainTargetResponse = 11"
definition MethodCloseTargetRequest :: u16 where "MethodCloseTargetRequest = 12"
definition MethodCloseTargetResponse :: u16 where "MethodCloseTargetResponse = 13"
definition MethodNewFrontendRequest :: u16 where "MethodNewFrontendRequest = 14"
definition MethodNewFrontendResponse :: u16 where "MethodNewFrontendResponse = 15"
definition MethodStartFrontendRequest :: u16 where "MethodStartFrontendRequest = 16"
definition MethodStartFrontendResponse :: u16 where "MethodStartFrontendResponse = 17"
definition MethodStopFrontendRequest :: u16 where "MethodStopFrontendRequest = 18"
definition MethodStopFrontendResponse :: u16 where "MethodStopFrontendResponse = 19"
definition MethodCloseFrontendRequest :: u16 where "MethodCloseFrontendRequest = 20"
definition MethodCloseFrontendResponse :: u16 where "MethodCloseFrontendResponse = 21"
definition MethodFrontendShouldWarmNotification :: u16 where
  "MethodFrontendShouldWarmNotification = 0 + 32768"

lemmas method_numbers = MethodEmpty_def MethodErrorResponse_def MethodStatusRequest_def
  MethodStatusResponse_def MethodPluginInitRequest_def MethodPluginInitResponse_def
  MethodNewTargetRequest_def MethodNewTargetResponse_def MethodWarmTargetRequest_def
  MethodWarmTargetResponse_def MethodDrainTargetRequest_def MethodDrainTargetResponse_def
  MethodCloseTargetRequest_def MethodCloseTargetResponse_def MethodNewFrontendRequest_def
  MethodNewFrontendResponse_def MethodStartFrontendRequest_def MethodStartFrontendResponse_def
  MethodStopFrontendRequest_def MethodStopFrontendResponse_def MethodCloseFrontendRequest_def
  MethodCloseFrontendResponse_def MethodFrontendShouldWarmNotification_def

definition IsResponse :: "u16 \<Rightarrow> bool" where
  "IsResponse m = (if 32768 \<le> m then False else m mod 2 = 1)"

section \<open>Messages\<close>

record TargetEndpointInfo =
  tei_Name :: string
  tei_Protocol :: protocol
  tei_Address :: string

record TargetStatus =
  ts_Name :: string
  ts_Kind :: string
  ts_State :: string
  ts_LastError :: string
  ts_Endpoints :: "TargetEndpointInfo list"

record FrontendStatus =
  fs_Name :: string
  fs_Kind :: string
  fs_State :: string
  fs_LastError :: string
  fs_Protocol :: protocol
  fs_Listen :: string
  fs_TargetName :: string
  fs_EndpointName :: string
  fs_ProxyAddress :: string

record StatusReport =
  sr_Closed :: bool
  sr_Targets :: "TargetStatus list"
  sr_Frontends :: "FrontendStatus list"

text \<open>One constructor for each struct that implements \<open>Method\<close>, with its fields in order.\<close>

datatype method_body =
    Empty
  | ErrorResponse string
  | StatusRequest
  | StatusResponse StatusReport
  | PluginInitRequest
  | PluginInitResponse "string list" "string list"
  | NewTargetRequest string string any_options
  | NewTargetResponse
  | WarmTargetRequest string
  | WarmTargetResponse
  | DrainTargetRequest string
  | DrainTargetResponse
  | CloseTargetRequest string
  | CloseTargetResponse
  | NewFrontendRequest string string protocol string any_options
  | NewFrontendResponse
  | StartFrontendRequest string
  | StartFrontendResponse
  | StopFrontendRequest string
  | StopFrontendResponse
  | CloseFrontendRequest string
  | CloseFrontendResponse
  | FrontendShouldWarmNotification string

text \<open>The \<open>Method\<close> of each struct.\<close>

definition Empty_Method :: u16 where "Empty_Method = MethodEmpty"
definition ErrorResponse_Method :: u16 where "ErrorResponse_Method = MethodErrorResponse"
definition StatusRequest_Method :: u16 where "StatusRequest_Method = MethodStatusRequest"
definition StatusResponse_Method :: u16 where "StatusResponse_Method = MethodStatusResponse"
definition PluginInitRequest_Method :: u16 where "PluginInitRequest_Method = MethodPluginInitRequest"
definition PluginInitResponse_Method :: u16 where "PluginInitResponse_Method = MethodPluginInitResponse"
definition NewTargetRequest_Method :: u16 where "NewTargetRequest_Method = MethodNewTargetRequest"
definition NewTargetResponse_Method :: u16 where "NewTargetResponse_Method = MethodNewTargetResponse"
definition WarmTargetRequest_Method :: u16 where "WarmTargetRequest_Method = MethodWarmTargetRequest"
definition WarmTargetResponse_Method :: u16 where "WarmTargetResponse_Method = MethodWarmTargetResponse"
definition DrainTargetRequest_Method :: u16 where "DrainTargetRequest_Method = MethodDrainTargetRequest"
definition DrainTargetResponse_Method :: u16 where "DrainTargetResponse_Method = MethodDrainTargetResponse"
definition CloseTargetRequest_Method :: u16 where "CloseTargetRequest_Method = MethodCloseTargetRequest"
definition CloseTargetResponse_Method :: u16 where "CloseTargetResponse_Method = MethodCloseTargetResponse"
definition NewFrontendRequest_Method :: u16 where "NewFrontendRequest_Method = MethodNewFrontendRequest"
definition NewFrontendResponse_Method :: u16 where "NewFrontendResponse_Method = MethodNewFrontendResponse"
definition StartFrontendRequest_Method :: u16 where "StartFrontendRequest_Method = MethodStartFrontendRequest"
definition StartFrontendResponse_Method :: u16 where "StartFrontendResponse_Method = MethodStartFrontendResponse"
definition StopFrontendRequest_Method :: u16 where "StopFrontendRequest_Method = MethodStopFrontendRequest"
definition StopFrontendResponse_Method :: u16 where "StopFrontendResponse_Method = MethodStopFrontendResponse"
definition CloseFrontendRequest_Method :: u16 where "CloseFrontendRequest_Method = MethodCloseFrontendRequest"
definition CloseFrontendResponse_Method :: u16 where "CloseFrontendResponse_Method = MethodCloseFrontendResponse"
definition FrontendShouldWarmNotification_Method :: u16 where "FrontendShouldWarmNotification_Method = MethodFrontendShouldWarmNotification"

lemmas struct_methods [simp] = Empty_Method_def ErrorResponse_Method_def StatusRequest_Method_def
  StatusResponse_Method_def PluginInitRequest_Method_def PluginInitResponse_Method_def
  NewTargetRequest_Method_def NewTargetResponse_Method_def WarmTargetRequest_Method_def
  WarmTargetResponse_Method_def DrainTargetRequest_Method_def DrainTargetResponse_Method_def
  CloseTargetRequest_Method_def CloseTargetResponse_Method_def NewFrontendRequest_Method_def
  NewFrontendResponse_Method_def StartFrontendRequest_Method_def StartFrontendResponse_Method_def
  StopFrontendRequest_Method_def StopFrontendResponse_Method_def CloseFrontendRequest_Method_def
  CloseFrontendResponse_Method_def FrontendShouldWarmNotification_Method_def

fun body_Method :: "method_body \<Rightarrow> u16" where
  "body_Method Empty = Empty_Method"
| "body_Method (ErrorResponse _) = ErrorResponse_Method"
| "body_Method StatusRequest = StatusRequest_Method"
| "body_Method (StatusResponse _) = StatusResponse_Method"
| "body_Method PluginInitRequest = PluginInitRequest_Method"
| "body_Method (PluginInitResponse _ _) = PluginInitResponse_Method"
| "body_Method (NewTargetRequest _ _ _) = NewTargetRequest_Method"
| "body_Method NewTargetResponse = NewTargetResponse_Method"
| "body_Method (WarmTargetRequest _) = WarmTargetRequest_Method"
| "body_Method WarmTargetResponse = WarmTargetResponse_Method"
| "body_Method (DrainTargetRequest _) = DrainTargetRequest_Method"
| "body_Method DrainTargetResponse = DrainTargetResponse_Method"
| "body_Method (CloseTargetRequest _) = CloseTargetRequest_Method"
| "body_Method CloseTargetResponse = CloseTargetResponse_Method"
| "body_Method (NewFrontendRequest _ _ _ _ _) = NewFrontendRequest_Method"
| "body_Method NewFrontendResponse = NewFrontendResponse_Method"
| "body_Method (StartFrontendRequest _) = StartFrontendRequest_Method"
| "body_Method StartFrontendResponse = StartFrontendResponse_Method"
| "body_Method (StopFrontendRequest _) = StopFrontendRequest_Method"
| "body_Method StopFrontendResponse = StopFrontendResponse_Method"
| "body_Method (CloseFrontendRequest _) = CloseFrontendRequest_Method"
| "body_Method CloseFrontendResponse = CloseFrontendResponse_Method"
| "body_Method (FrontendShouldWarmNotification _) = FrontendShouldWarmNotification_Method"

section \<open>Packets\<close>

text \<open>
  The \<open>Body\<close> of a packet is an \<open>any\<close>: the raw bytes \<open>Read\<close> leaves, a pointer to a message that
  \<open>ParseRawBody\<close> has filled, or a message put there by the sender.
\<close>

datatype packet_body = RawBody "byte list" | PtrBody method_body | ValBody method_body

record ipc_packet =
  p_Id :: u32
  p_Method :: u16
  p_Body :: packet_body

definition MakePacket :: "u32 \<Rightarrow> method_body \<Rightarrow> ipc_packet" where
  "MakePacket i body = \<lparr>p_Id = i, p_Method = body_Method body, p_Body = ValBody body\<rparr>"

record codec =
  cd_Marshal :: "packet_body \<Rightarrow> byte list"
  cd_Unmarshal :: "byte list \<Rightarrow> method_body \<Rightarrow> string + method_body"

text \<open>The \<open>switch\<close> of \<open>ParseRawBody\<close>: the zero value of the struct a method number stands for.\<close>

definition zero_body :: "u16 \<Rightarrow> method_body option" where
  "zero_body m =
     (if m = MethodEmpty then Some Empty
      else if m = MethodErrorResponse then Some (ErrorResponse '''')
      else if m = MethodStatusRequest then Some StatusRequest
      else if m = MethodStatusResponse then
        Some (StatusResponse \<lparr>sr_Closed = False, sr_Targets = [], sr_Frontends = []\<rparr>)
      else if m = MethodPluginInitRequest then Some PluginInitRequest
      else if m = MethodPluginInitResponse then Some (PluginInitResponse [] [])
      else if m = MethodNewTargetRequest then Some (NewTargetRequest '''' '''' [])
      else if m = MethodNewTargetResponse then Some NewTargetResponse
      else if m = MethodWarmTargetRequest then Some (WarmTargetRequest '''')
      else if m = MethodWarmTargetResponse then Some WarmTargetResponse
      else if m = MethodDrainTargetRequest then Some (DrainTargetRequest '''')
      else if m = MethodDrainTargetResponse then Some DrainTargetResponse
      else if m = MethodCloseTargetRequest then Some (CloseTargetRequest '''')
      else if m = MethodCloseTargetResponse then Some CloseTargetResponse
      else if m = MethodNewFrontendRequest then Some (NewFrontendRequest '''' '''' 0 '''' [])
      else if m = MethodNewFrontendResponse then Some NewFrontendResponse
      else if m = MethodStartFrontendRequest then Some (StartFrontendRequest '''')
      else if m = MethodStartFrontendResponse then Some StartFrontendResponse
      else if m = MethodStopFrontendRequest then Some (StopFrontendRequest '''')
      else if m = MethodStopFrontendResponse then Some StopFrontendResponse
      else if m = MethodCloseFrontendRequest then Some (CloseFrontendRequest '''')
      else if m = MethodCloseFrontendResponse then Some CloseFrontendResponse
      else if m = MethodFrontendShouldWarmNotification then Some (FrontendShouldWarmNotification '''')
      else None)"

text \<open>
  \<open>ParseRawBody\<close> on a packet whose body is the raw bytes \<open>raw\<close>; the caller drops the packet when
  it returns an error.
\<close>

definition ParseRawBody :: "codec \<Rightarrow> byte list \<Rightarrow> ipc_packet \<Rightarrow> string + ipc_packet" where
  "ParseRawBody C raw p =
     (case zero_body (p_Method p) of
        None \<Rightarrow> Inr p
      | Some Empty \<Rightarrow> Inr (p\<lparr>p_Body := PtrBody Empty\<rparr>)
      | Some z \<Rightarrow>
          (case cd_Unmarshal C raw z of
             Inl e \<Rightarrow> Inl e
           | Inr b \<Rightarrow> Inr (p\<lparr>p_Body := PtrBody b\<rparr>)))"

text \<open>The codecs: \<open>FindByName\<close>.\<close>

datatype codec_name = CodecJSON | CodecCBOR

definition FindByName :: "string \<Rightarrow> codec_name option" where
  "FindByName name =
     (let n = ToLower (TrimSpace name)
      in if n = ''json'' then Some CodecJSON else if n = ''cbor'' then Some CodecCBOR else None)"

section \<open>Lemmas\<close>

text \<open>The number of a struct selects the zero value of the same struct.\<close>

fun same_struct :: "method_body \<Rightarrow> method_body \<Rightarrow> bool" where
  "same_struct a b \<longleftrightarrow> body_Method a = body_Method b"

lemma zero_body_Method: "zero_body m = Some z \<Longrightarrow> body_Method z = m"
  by (auto simp: zero_body_def split: if_splits)

lemma zero_body_of: "\<exists>z. zero_body (body_Method b) = Some z \<and> same_struct z b"
  by (cases b) (simp_all add: zero_body_def method_numbers)

lemma IsResponse_numbers:
  "IsResponse (body_Method b) \<longleftrightarrow> (case b of
      ErrorResponse _ \<Rightarrow> True | StatusResponse _ \<Rightarrow> True | PluginInitResponse _ _ \<Rightarrow> True
    | NewTargetResponse \<Rightarrow> True | WarmTargetResponse \<Rightarrow> True | DrainTargetResponse \<Rightarrow> True
    | CloseTargetResponse \<Rightarrow> True | NewFrontendResponse \<Rightarrow> True | StartFrontendResponse \<Rightarrow> True
    | StopFrontendResponse \<Rightarrow> True | CloseFrontendResponse \<Rightarrow> True | _ \<Rightarrow> False)"
  by (cases b) (simp_all add: IsResponse_def method_numbers word_le_nat_alt)

lemma body_Method_eq:
  "body_Method b = body_Method StatusRequest \<longleftrightarrow> b = StatusRequest"
  "body_Method b = body_Method (StatusResponse r) \<longleftrightarrow> (\<exists>r'. b = StatusResponse r')"
  by (cases b; simp add: method_numbers)+

end
