(* ===== verification/Ipc_Base.thy ===== *)
theory Ipc_Base
  imports Ipc_Method
begin

text \<open>
  The two ends of a control connection: \<open>BaseClient\<close>, \<open>BaseServer\<close> and \<open>BasePeer\<close>, with the table of
  pending outgoing requests (\<open>outbox\<close>) and of unanswered incoming ones (\<open>inbox\<close>) that they share.
  A critical section is one function. What a \<open>Write\<close> or \<open>Read\<close> of the connection returns is an
  argument; a packet that is written is returned. The read loops are step relations with a program
  counter, because they block on bounded channels.
\<close>

section \<open>Pending requests\<close>

datatype ipc_error = IpcCannotSendResponse | IpcCannotRespondWithRequest | IpcIdInUse | IpcZeroId
  | IpcNotPending | IpcWrite string

text \<open>A response channel: made with capacity 1, closed by \<open>end\<close> or after a failed write.\<close>

record resp_chan =
  rc_buf :: "ipc_packet list"
  rc_closed :: bool

record outbox =
  ob_map :: "(u32, nat) gomap"
  ob_nextId :: u32
  ob_chans :: "nat \<Rightarrow> resp_chan"
  ob_next :: nat

definition outbox_init :: outbox where
  "outbox_init = \<lparr>ob_map = [], ob_nextId = 0, ob_chans = (\<lambda>_. \<lparr>rc_buf = [], rc_closed = False\<rparr>), ob_next = 0\<rparr>"

definition assignId :: "outbox \<Rightarrow> u32 \<times> outbox" where
  "assignId ob = (let n = ob_nextId ob + 1; n' = (if n = 0 then 1 else n) in (n', ob\<lparr>ob_nextId := n'\<rparr>))"

definition close_chan :: "nat \<Rightarrow> outbox \<Rightarrow> outbox" where
  "close_chan ch ob = ob\<lparr>ob_chans := (ob_chans ob)(ch := (ob_chans ob ch)\<lparr>rc_closed := True\<rparr>)\<rparr>"

text \<open>\<open>Request\<close> under the lock: the result, the packet that reaches the connection, the new table.\<close>

definition ob_Request :: "ipc_packet \<Rightarrow> string option \<Rightarrow> outbox \<Rightarrow> (ipc_error + nat) \<times> ipc_packet option \<times> outbox" where
  "ob_Request req werr ob =
     (let (i, ob1) = assignId ob
      in if map_of (ob_map ob1) i \<noteq> None then (Inl IpcIdInUse, None, ob1)
         else let ch = ob_next ob1;
                  ob2 = ob1\<lparr>ob_map := AList.update i ch (ob_map ob1), ob_next := Suc ch,
                            ob_chans := (ob_chans ob1)(ch := \<lparr>rc_buf = [], rc_closed = False\<rparr>)\<rparr>
              in case werr of
                   Some e \<Rightarrow> (Inl (IpcWrite e), None,
                              close_chan ch (ob2\<lparr>ob_map := AList.delete i (ob_map ob2)\<rparr>))
                 | None \<Rightarrow> (Inr ch, Some (req\<lparr>p_Id := i\<rparr>), ob2))"

text \<open>
  \<open>matchResp\<close>; \<^const>\<open>None\<close> when the send would block or panic, which it would do holding the lock.
\<close>

definition matchResp :: "ipc_packet \<Rightarrow> outbox \<Rightarrow> outbox option" where
  "matchResp res ob =
     (case map_of (ob_map ob) (p_Id res) of
        None \<Rightarrow> Some ob
      | Some ch \<Rightarrow>
          (let c = ob_chans ob ch
           in if rc_closed c \<or> 1 \<le> length (rc_buf c) then None
              else Some (ob\<lparr>ob_map := AList.delete (p_Id res) (ob_map ob),
                            ob_chans := (ob_chans ob)(ch := c\<lparr>rc_buf := rc_buf c @ [res]\<rparr>)\<rparr>)))"

definition close_all :: "outbox \<Rightarrow> outbox" where
  "close_all ob = foldl (\<lambda>ob ch. close_chan ch ob) ob (map snd (ob_map ob))"

section \<open>Unanswered requests\<close>

type_synonym inbox = "(u32, unit) gomap"

definition inFlight :: "u32 \<Rightarrow> ipc_packet" where
  "inFlight i = MakePacket i (ErrorResponse ''existing request already in flight'')"

text \<open>\<open>Respond\<close> under the lock; \<open>checked\<close> tells whether the method has to be that of a response.\<close>

definition ib_Respond ::
    "bool \<Rightarrow> ipc_packet \<Rightarrow> string option \<Rightarrow> inbox \<Rightarrow> ipc_error option \<times> ipc_packet option \<times> inbox" where
  "ib_Respond checked res werr ib =
     (if p_Id res = 0 then (Some IpcZeroId, None, ib)
      else if checked \<and> \<not> IsResponse (p_Method res) then (Some IpcCannotRespondWithRequest, None, ib)
      else if map_of ib (p_Id res) = None then (Some IpcNotPending, None, ib)
      else case werr of
        Some e \<Rightarrow> (Some (IpcWrite e), None, ib)
      | None \<Rightarrow> (None, Some res, AList.delete (p_Id res) ib))"

text \<open>
  The first part of \<open>dispatchReq\<close>: \<^const>\<open>None\<close> when the request is accepted and the loop goes on to
  send it while it holds the lock, else the packet written and whether that failed.
\<close>

definition ib_dispatch :: "ipc_packet \<Rightarrow> string option \<Rightarrow> inbox \<Rightarrow> (bool \<times> ipc_packet option) option \<times> inbox" where
  "ib_dispatch req werr ib =
     (if map_of ib (p_Id req) \<noteq> None
      then (case werr of
              Some e \<Rightarrow> (Some (True, None), ib)
            | None \<Rightarrow> (Some (False, Some (inFlight (p_Id req))), ib))
      else (None, AList.update (p_Id req) () ib))"

text \<open>\<open>Notify\<close> forces the identifier to zero.\<close>

definition ipc_Notify :: "ipc_packet \<Rightarrow> string option \<Rightarrow> ipc_error option \<times> ipc_packet option" where
  "ipc_Notify notif werr =
     (case werr of Some e \<Rightarrow> (Some (IpcWrite e), None) | None \<Rightarrow> (None, Some (notif\<lparr>p_Id := 0\<rparr>)))"

section \<open>The wire\<close>

text \<open>
  A packet on the wire has its body marshalled; \<open>Read\<close> gives back the identifier, the method and the
  bytes, or an error. \<open>chan_cap\<close> is the capacity of the notification and request channels.
\<close>

definition frame_of :: "codec \<Rightarrow> ipc_packet \<Rightarrow> ipc_packet" where
  "frame_of C p = p\<lparr>p_Body := RawBody (cd_Marshal C (p_Body p))\<rparr>"

fun raw_bytes :: "packet_body \<Rightarrow> byte list" where
  "raw_bytes (RawBody bs) = bs"
| "raw_bytes _ = []"

definition parse_frame :: "codec \<Rightarrow> ipc_packet \<Rightarrow> string + ipc_packet" where
  "parse_frame C p = ParseRawBody C (raw_bytes (p_Body p)) p"

definition chan_cap :: nat where
  "chan_cap = 16"

datatype ipc_label = LRead "string + ipc_packet" | LWrite ipc_packet | LTau

abbreviation wrote :: "ipc_packet option \<Rightarrow> ipc_label" where
  "wrote w \<equiv> (case w of None \<Rightarrow> LTau | Some p \<Rightarrow> LWrite p)"

section \<open>BaseClient\<close>

datatype client_pc = CRead | CNotify ipc_packet | CMatch ipc_packet | CEnding | CEnded

record client =
  bc_outbox :: outbox
  bc_notifs :: "ipc_packet list"
  bc_notifsClosed :: bool
  bc_pc :: client_pc

definition NewBaseClient :: client where
  "NewBaseClient = \<lparr>bc_outbox = outbox_init, bc_notifs = [], bc_notifsClosed = False, bc_pc = CRead\<rparr>"

definition client_Request :: "ipc_packet \<Rightarrow> string option \<Rightarrow> client \<Rightarrow> (ipc_error + nat) \<times> ipc_packet option \<times> client" where
  "client_Request req werr c =
     (if IsResponse (p_Method req) then (Inl IpcCannotSendResponse, None, c)
      else let (r, w, ob) = ob_Request req werr (bc_outbox c) in (r, w, c\<lparr>bc_outbox := ob\<rparr>))"

definition client_end :: "client \<Rightarrow> client" where
  "client_end c = c\<lparr>bc_outbox := close_all (bc_outbox c), bc_notifsClosed := True, bc_pc := CEnded\<rparr>"

text \<open>The loop of \<open>start\<close>, up to where it hands the packet on.\<close>

definition client_got :: "codec \<Rightarrow> string + ipc_packet \<Rightarrow> client \<Rightarrow> client" where
  "client_got C ev c =
     (case ev of
        Inl e \<Rightarrow> c\<lparr>bc_pc := CEnding\<rparr>
      | Inr p \<Rightarrow>
          if p_Id p \<noteq> 0 \<and> \<not> IsResponse (p_Method p) then c
          else (case parse_frame C p of
                  Inl e \<Rightarrow> c\<lparr>bc_pc := CEnding\<rparr>
                | Inr p' \<Rightarrow> if p_Id p' = 0 then c\<lparr>bc_pc := CNotify p'\<rparr> else c\<lparr>bc_pc := CMatch p'\<rparr>))"

inductive client_loop :: "codec \<Rightarrow> client \<Rightarrow> ipc_label \<Rightarrow> client \<Rightarrow> bool" for C where
  c_read: "bc_pc c = CRead \<Longrightarrow> client_loop C c (LRead ev) (client_got C ev c)"
| c_notify: "bc_pc c = CNotify p \<Longrightarrow> length (bc_notifs c) < chan_cap \<Longrightarrow>
    client_loop C c LTau (c\<lparr>bc_notifs := bc_notifs c @ [p], bc_pc := CRead\<rparr>)"
| c_match: "bc_pc c = CMatch p \<Longrightarrow> matchResp p (bc_outbox c) = Some ob \<Longrightarrow>
    client_loop C c LTau (c\<lparr>bc_outbox := ob, bc_pc := CRead\<rparr>)"
| c_end: "bc_pc c = CEnding \<Longrightarrow> client_loop C c LTau (client_end c)"

section \<open>BaseServer\<close>

text \<open>At \<open>SSend\<close> the loop is in \<open>bs.reqs <- req\<close> and holds the lock.\<close>

datatype server_pc = SRead | SNotify ipc_packet | SDispatch ipc_packet | SSend ipc_packet | SEnding | SEnded

record server =
  bs_notifs :: "ipc_packet list"
  bs_reqs :: "ipc_packet list"
  bs_closed :: bool
  bs_inbox :: inbox
  bs_pc :: server_pc

definition NewBaseServer :: server where
  "NewBaseServer = \<lparr>bs_notifs = [], bs_reqs = [], bs_closed = False, bs_inbox = [], bs_pc = SRead\<rparr>"

definition server_locked :: "server \<Rightarrow> bool" where
  "server_locked s \<longleftrightarrow> (case bs_pc s of SSend _ \<Rightarrow> True | _ \<Rightarrow> False)"

definition server_Respond :: "ipc_packet \<Rightarrow> string option \<Rightarrow> server \<Rightarrow> ipc_error option \<times> ipc_packet option \<times> server" where
  "server_Respond res werr s =
     (let (r, w, ib) = ib_Respond True res werr (bs_inbox s) in (r, w, s\<lparr>bs_inbox := ib\<rparr>))"

definition server_end :: "server \<Rightarrow> server" where
  "server_end s = s\<lparr>bs_closed := True, bs_pc := SEnded\<rparr>"

definition server_got :: "codec \<Rightarrow> string + ipc_packet \<Rightarrow> server \<Rightarrow> server" where
  "server_got C ev s =
     (case ev of
        Inl e \<Rightarrow> s\<lparr>bs_pc := SEnding\<rparr>
      | Inr p \<Rightarrow>
          if p_Id p \<noteq> 0 \<and> IsResponse (p_Method p) then s
          else (case parse_frame C p of
                  Inl e \<Rightarrow> s\<lparr>bs_pc := SEnding\<rparr>
                | Inr p' \<Rightarrow> if p_Id p' = 0 then s\<lparr>bs_pc := SNotify p'\<rparr> else s\<lparr>bs_pc := SDispatch p'\<rparr>))"

definition server_dispatchReq :: "ipc_packet \<Rightarrow> string option \<Rightarrow> server \<Rightarrow> ipc_packet option \<times> server" where
  "server_dispatchReq p werr s =
     (case ib_dispatch p werr (bs_inbox s) of
        (None, ib) \<Rightarrow> (None, s\<lparr>bs_inbox := ib, bs_pc := SSend p\<rparr>)
      | (Some (failed, w), ib) \<Rightarrow> (w, s\<lparr>bs_inbox := ib, bs_pc := if failed then SEnding else SRead\<rparr>))"

inductive server_loop :: "codec \<Rightarrow> server \<Rightarrow> ipc_label \<Rightarrow> server \<Rightarrow> bool" for C where
  s_read: "bs_pc s = SRead \<Longrightarrow> server_loop C s (LRead ev) (server_got C ev s)"
| s_notify: "bs_pc s = SNotify p \<Longrightarrow> length (bs_notifs s) < chan_cap \<Longrightarrow>
    server_loop C s LTau (s\<lparr>bs_notifs := bs_notifs s @ [p], bs_pc := SRead\<rparr>)"
| s_dispatch: "bs_pc s = SDispatch p \<Longrightarrow> server_dispatchReq p werr s = (w, s') \<Longrightarrow>
    server_loop C s (wrote w) s'"
| s_send: "bs_pc s = SSend p \<Longrightarrow> length (bs_reqs s) < chan_cap \<Longrightarrow>
    server_loop C s LTau (s\<lparr>bs_reqs := bs_reqs s @ [p], bs_pc := SRead\<rparr>)"
| s_end: "bs_pc s = SEnding \<Longrightarrow> server_loop C s LTau (server_end s)"

section \<open>BasePeer\<close>

datatype peer_pc = PRead | PNotify ipc_packet | PMatch ipc_packet | PDispatch ipc_packet | PSend ipc_packet | PEnding | PEnded

record peer =
  bp_notifs :: "ipc_packet list"
  bp_reqs :: "ipc_packet list"
  bp_closed :: bool
  bp_outbox :: outbox
  bp_inbox :: inbox
  bp_pc :: peer_pc

definition NewBasePeer :: peer where
  "NewBasePeer = \<lparr>bp_notifs = [], bp_reqs = [], bp_closed = False, bp_outbox = outbox_init, bp_inbox = [],
                 bp_pc = PRead\<rparr>"

definition peer_Request :: "ipc_packet \<Rightarrow> string option \<Rightarrow> peer \<Rightarrow> (ipc_error + nat) \<times> ipc_packet option \<times> peer" where
  "peer_Request req werr c =
     (let (r, w, ob) = ob_Request req werr (bp_outbox c) in (r, w, c\<lparr>bp_outbox := ob\<rparr>))"

definition peer_Respond :: "ipc_packet \<Rightarrow> string option \<Rightarrow> peer \<Rightarrow> ipc_error option \<times> ipc_packet option \<times> peer" where
  "peer_Respond res werr s =
     (let (r, w, ib) = ib_Respond False res werr (bp_inbox s) in (r, w, s\<lparr>bp_inbox := ib\<rparr>))"

definition peer_end :: "peer \<Rightarrow> peer" where
  "peer_end c = c\<lparr>bp_outbox := close_all (bp_outbox c), bp_closed := True, bp_pc := PEnded\<rparr>"

definition peer_matchResp :: "ipc_packet \<Rightarrow> peer \<Rightarrow> peer option" where
  "peer_matchResp res c = map_option (\<lambda>ob. c\<lparr>bp_outbox := ob\<rparr>) (matchResp res (bp_outbox c))"

text \<open>The loop falls through: a notification is then tested for a response, and everything dispatched.\<close>

definition peer_after_notify :: "ipc_packet \<Rightarrow> peer_pc" where
  "peer_after_notify p = (if IsResponse (p_Method p) then PMatch p else PDispatch p)"

definition peer_got :: "codec \<Rightarrow> string + ipc_packet \<Rightarrow> peer \<Rightarrow> peer" where
  "peer_got C ev c =
     (case ev of
        Inl e \<Rightarrow> c\<lparr>bp_pc := PEnding\<rparr>
      | Inr p \<Rightarrow>
          (case parse_frame C p of
             Inl e \<Rightarrow> c\<lparr>bp_pc := PEnding\<rparr>
           | Inr p' \<Rightarrow> c\<lparr>bp_pc := if p_Id p' = 0 then PNotify p' else peer_after_notify p'\<rparr>))"

definition peer_dispatchReq :: "ipc_packet \<Rightarrow> string option \<Rightarrow> peer \<Rightarrow> ipc_packet option \<times> peer" where
  "peer_dispatchReq p werr s =
     (case ib_dispatch p werr (bp_inbox s) of
        (None, ib) \<Rightarrow> (None, s\<lparr>bp_inbox := ib, bp_pc := PSend p\<rparr>)
      | (Some (failed, w), ib) \<Rightarrow> (w, s\<lparr>bp_inbox := ib, bp_pc := if failed then PEnding else PRead\<rparr>))"

inductive peer_loop :: "codec \<Rightarrow> peer \<Rightarrow> ipc_label \<Rightarrow> peer \<Rightarrow> bool" for C where
  p_read: "bp_pc c = PRead \<Longrightarrow> peer_loop C c (LRead ev) (peer_got C ev c)"
| p_notify: "bp_pc c = PNotify p \<Longrightarrow> length (bp_notifs c) < chan_cap \<Longrightarrow>
    peer_loop C c LTau (c\<lparr>bp_notifs := bp_notifs c @ [p], bp_pc := peer_after_notify p\<rparr>)"
| p_match: "bp_pc c = PMatch p \<Longrightarrow> peer_matchResp p c = Some c' \<Longrightarrow>
    peer_loop C c LTau (c'\<lparr>bp_pc := PDispatch p\<rparr>)"
| p_dispatch: "bp_pc c = PDispatch p \<Longrightarrow> peer_dispatchReq p werr c = (w, c') \<Longrightarrow> peer_loop C c (wrote w) c'"
| p_send: "bp_pc c = PSend p \<Longrightarrow> length (bp_reqs c) < chan_cap \<Longrightarrow>
    peer_loop C c LTau (c\<lparr>bp_reqs := bp_reqs c @ [p], bp_pc := PRead\<rparr>)"
| p_end: "bp_pc c = PEnding \<Longrightarrow> peer_loop C c LTau (peer_end c)"

end
