(* ===== verification/Ctl_Server.thy ===== *)
theory Ctl_Server
  imports Ipc_Base Engine "HOL-Library.List_Lexorder" "HOL-Library.Char_ord"
begin

text \<open>
  \<open>plugin/ctl/server.go\<close>: the control server that answers requests from the state of the engine, and
  its loop \<open>Serve\<close>, and the answer \<open>proxygwctl\<close> takes from it (\<open>cmd/proxygwctl/client.go\<close>). The text of an error is that of its \<open>Error\<close> method, a parameter here. Strings are
  ordered by their bytes, as in Go.
\<close>

section \<open>The status report\<close>

definition endpoint_info :: "Endpoint \<Rightarrow> TargetEndpointInfo" where
  "endpoint_info ep = \<lparr>tei_Name = e_Name ep, tei_Protocol = e_Protocol ep, tei_Address = ap_String (e_Address ep)\<rparr>"

definition error_text :: "('e \<Rightarrow> string) \<Rightarrow> 'e option \<Rightarrow> string" where
  "error_text render err = (case err of None \<Rightarrow> '''' | Some e \<Rightarrow> render e)"

definition target_status :: "(target_error \<Rightarrow> string) \<Rightarrow> target \<Rightarrow> TargetStatus" where
  "target_status terr t = \<lparr>ts_Name = target_Name t, ts_Kind = target_Kind t, ts_State = target_state_String (target_State t),
     ts_LastError = error_text terr (target_Error t),
     ts_Endpoints = map endpoint_info (sort_key e_Name (target_Endpoints t))\<rparr>"

definition frontend_status :: "(frontend_error \<Rightarrow> string) \<Rightarrow> (tid \<Rightarrow> target) \<Rightarrow> frontend \<Rightarrow> FrontendStatus" where
  "frontend_status ferr tgt f = \<lparr>fs_Name = frontend_Name f, fs_Kind = frontend_Kind f,
     fs_State = frontend_state_String (frontend_State f), fs_LastError = error_text ferr (frontend_Error f),
     fs_Protocol = frontend_Protocol f, fs_Listen = frontend_Listen f, fs_TargetName = target_Name (tgt (frontend_Target f)),
     fs_EndpointName = e_Name (frontend_Endpoint f), fs_ProxyAddress = frontend_ProxyAddress f\<rparr>"

definition statusResponse ::
    "(target_error \<Rightarrow> string) \<Rightarrow> (frontend_error \<Rightarrow> string) \<Rightarrow> 'd world \<Rightarrow> StatusReport" where
  "statusResponse terr ferr w =
     \<lparr>sr_Closed = engine_Closed w,
      sr_Targets = map (target_status terr) (sort_key target_Name (map (w_tgt w) (engine_Targets w))),
      sr_Frontends = map (frontend_status ferr (w_tgt w)) (sort_key frontend_Name (map (w_fe w) (engine_Frontends w)))\<rparr>"

section \<open>Answers\<close>

text \<open>\<open>handle\<close>: \<open>rep\<close> is the status report of the engine when the request is handled.\<close>

definition server_answer :: "StatusReport \<Rightarrow> ipc_packet \<Rightarrow> ipc_packet" where
  "server_answer rep req =
     (case p_Body req of
        PtrBody StatusRequest \<Rightarrow> MakePacket (p_Id req) (StatusResponse rep)
      | _ \<Rightarrow> MakePacket (p_Id req)
               (ErrorResponse (''unsupported method '' @ show_nat (unat (p_Method req)))))"

definition server_handle ::
    "StatusReport \<Rightarrow> ipc_packet \<Rightarrow> string option \<Rightarrow> server \<Rightarrow> ipc_error option \<times> ipc_packet option \<times> server" where
  "server_handle rep req werr s = server_Respond (server_answer rep req) werr s"

section \<open>Serve\<close>

text \<open>
  In the \<open>select\<close>, handling a request, returned after an error of \<open>handle\<close> on a request, or returned
  because the context or the connection is closed. A notification is dropped. \<open>R\<close> tells which reports
  \<open>statusResponse\<close> may give while the server runs.
\<close>

datatype serve_pc = VSelect | VHandle ipc_packet | VFailed ipc_packet | VReturned

inductive serve_step :: "(StatusReport \<Rightarrow> bool) \<Rightarrow> bool \<Rightarrow> serve_pc \<times> server \<Rightarrow> ipc_packet option \<Rightarrow> serve_pc \<times> server \<Rightarrow> bool" for R ctx_done where
  v_done: "ctx_done \<Longrightarrow> serve_step R ctx_done (VSelect, s) None (VReturned, s)"
| v_request: "bs_reqs s = p # ps \<Longrightarrow>
    serve_step R ctx_done (VSelect, s) None (VHandle p, s\<lparr>bs_reqs := ps\<rparr>)"
| v_closed: "bs_reqs s = [] \<Longrightarrow> bs_closed s \<Longrightarrow> serve_step R ctx_done (VSelect, s) None (VReturned, s)"
| v_notification: "bs_notifs s = p # ps \<Longrightarrow>
    serve_step R ctx_done (VSelect, s) None (VSelect, s\<lparr>bs_notifs := ps\<rparr>)"
| v_answer: "\<not> server_locked s \<Longrightarrow> R rep \<Longrightarrow> server_handle rep p werr s = (None, w, s') \<Longrightarrow>
    serve_step R ctx_done (VHandle p, s) w (VSelect, s')"
| v_failed: "\<not> server_locked s \<Longrightarrow> R rep \<Longrightarrow> server_handle rep p werr s = (Some e, w, s') \<Longrightarrow>
    serve_step R ctx_done (VHandle p, s) w (VFailed p, s')"

section \<open>The client of proxygwctl\<close>

text \<open>What \<open>StatusRequest\<close> makes of what it receives from the response channel.\<close>

datatype status_error = StatusConnClosed | StatusRefused string | StatusUnexpected u16

definition StatusRequest_result :: "ipc_packet option \<Rightarrow> status_error + StatusReport" where
  "StatusRequest_result resp =
     (case resp of
        None \<Rightarrow> Inl StatusConnClosed
      | Some p \<Rightarrow>
          (case p_Body p of
             PtrBody (StatusResponse body) \<Rightarrow> Inr body
           | PtrBody (ErrorResponse body) \<Rightarrow> Inl (StatusRefused body)
           | _ \<Rightarrow> Inl (StatusUnexpected (p_Method p))))"

lemma server_answer_id [simp]: "p_Id (server_answer rep req) = p_Id req"
  by (simp add: server_answer_def MakePacket_def split: packet_body.split method_body.split)

lemma server_answer_response: "IsResponse (p_Method (server_answer rep req))"
  by (simp add: server_answer_def MakePacket_def IsResponse_def method_numbers word_le_nat_alt
      split: packet_body.split method_body.split)

end
