(* ===== verification/Ipc_System.thy ===== *)
theory Ipc_System
  imports Ctl_Server
begin

text \<open>
  A control client and a control server on the two directions of one connection, under every
  interleaving of the client's callers, the two read loops, \<open>Serve\<close> and a connection whose reads and
  writes may fail at any time; a failed write transfers nothing, and the reports are any with a property \<open>R\<close>. The invariant follows every request
  from the table of the client through the wire and the server back to its channel.
\<close>

section \<open>The system\<close>

text \<open>\<open>sy_req\<close> remembers for every response channel the request that was written for it.\<close>

record ipc_sys =
  sy_client :: client
  sy_c2s :: "ipc_packet list"
  sy_server :: server
  sy_serve :: serve_pc
  sy_s2c :: "ipc_packet list"
  sy_req :: "nat \<Rightarrow> ipc_packet"

definition wire :: "codec \<Rightarrow> ipc_packet option \<Rightarrow> ipc_packet list" where
  "wire C w = (case w of None \<Rightarrow> [] | Some p \<Rightarrow> [frame_of C p])"

definition ipc_start :: ipc_sys where
  "ipc_start = \<lparr>sy_client = NewBaseClient, sy_c2s = [], sy_server = NewBaseServer, sy_serve = VSelect,
     sy_s2c = [], sy_req = (\<lambda>_. MakePacket 0 Empty)\<rparr>"

definition take_response :: "nat \<Rightarrow> client \<Rightarrow> client" where
  "take_response ch c = (let ob = bc_outbox c in c\<lparr>bc_outbox := ob\<lparr>ob_chans :=
     (ob_chans ob)(ch := (ob_chans ob ch)\<lparr>rc_buf := tl (rc_buf (ob_chans ob ch))\<rparr>)\<rparr>\<rparr>)"

inductive ipc_step :: "codec \<Rightarrow> (StatusReport \<Rightarrow> bool) \<Rightarrow> ipc_sys \<Rightarrow> ipc_sys \<Rightarrow> bool" for C R where
  request: "client_Request req werr (sy_client y) = (Inr ch, Some p, c) \<Longrightarrow>
    ipc_step C R y (y\<lparr>sy_client := c, sy_c2s := sy_c2s y @ [frame_of C p], sy_req := (sy_req y)(ch := p)\<rparr>)"
| request_failed: "client_Request req werr (sy_client y) = (Inl e, w, c) \<Longrightarrow> ipc_step C R y (y\<lparr>sy_client := c\<rparr>)"
| client_notify: "ipc_Notify n werr = (e, w) \<Longrightarrow> ipc_step C R y (y\<lparr>sy_c2s := sy_c2s y @ wire C w\<rparr>)"
| client_read: "bc_pc (sy_client y) = CRead \<Longrightarrow> sy_s2c y = p # ps \<Longrightarrow>
    ipc_step C R y (y\<lparr>sy_client := client_got C (Inr p) (sy_client y), sy_s2c := ps\<rparr>)"
| client_read_error: "bc_pc (sy_client y) = CRead \<Longrightarrow>
    ipc_step C R y (y\<lparr>sy_client := client_got C (Inl e) (sy_client y)\<rparr>)"
| client_tau: "client_loop C (sy_client y) LTau c \<Longrightarrow> ipc_step C R y (y\<lparr>sy_client := c\<rparr>)"
| client_receives: "ipc_step C R y (y\<lparr>sy_client := take_response ch (sy_client y)\<rparr>)"
| client_notified: "bc_notifs (sy_client y) = n # ns \<Longrightarrow>
    ipc_step C R y (y\<lparr>sy_client := (sy_client y)\<lparr>bc_notifs := ns\<rparr>\<rparr>)"
| server_read: "bs_pc (sy_server y) = SRead \<Longrightarrow> sy_c2s y = p # ps \<Longrightarrow>
    ipc_step C R y (y\<lparr>sy_server := server_got C (Inr p) (sy_server y), sy_c2s := ps\<rparr>)"
| server_read_error: "bs_pc (sy_server y) = SRead \<Longrightarrow>
    ipc_step C R y (y\<lparr>sy_server := server_got C (Inl e) (sy_server y)\<rparr>)"
| server_tau: "server_loop C (sy_server y) LTau s \<Longrightarrow> ipc_step C R y (y\<lparr>sy_server := s\<rparr>)"
| server_write: "server_loop C (sy_server y) (LWrite p) s \<Longrightarrow>
    ipc_step C R y (y\<lparr>sy_server := s, sy_s2c := sy_s2c y @ [frame_of C p]\<rparr>)"
| serve: "serve_step R ctx_done (sy_serve y, sy_server y) w (v, s) \<Longrightarrow>
    ipc_step C R y (y\<lparr>sy_serve := v, sy_server := s, sy_s2c := sy_s2c y @ wire C w\<rparr>)"
| server_notify: "\<not> server_locked (sy_server y) \<Longrightarrow> ipc_Notify n werr = (e, w) \<Longrightarrow>
    ipc_step C R y (y\<lparr>sy_s2c := sy_s2c y @ wire C w\<rparr>)"

inductive ipc_reach :: "codec \<Rightarrow> (StatusReport \<Rightarrow> bool) \<Rightarrow> ipc_sys \<Rightarrow> bool" for C R where
  init: "ipc_reach C R ipc_start"
| step: "ipc_reach C R y \<Longrightarrow> ipc_step C R y y' \<Longrightarrow> ipc_reach C R y'"

section \<open>Where the requests are\<close>

text \<open>
  A request is on its way to the server, pending there, answered and on its way back, or its response
  has been read and is about to be matched.
\<close>

datatype stage = Asked | Pending | Answered | Received

definition numbered :: "stage \<Rightarrow> ipc_packet list \<Rightarrow> (stage \<times> ipc_packet) multiset" where
  "numbered st ps = mset (map (Pair st) (filter (\<lambda>p. p_Id p \<noteq> 0) ps))"

definition at_reader :: "server_pc \<Rightarrow> (stage \<times> ipc_packet) multiset" where
  "at_reader pc = (case pc of SDispatch p \<Rightarrow> {#(Pending, p)#} | SSend p \<Rightarrow> {#(Pending, p)#} | _ \<Rightarrow> {#})"

definition at_serve :: "serve_pc \<Rightarrow> (stage \<times> ipc_packet) multiset" where
  "at_serve pc = (case pc of VHandle p \<Rightarrow> {#(Pending, p)#} | VFailed p \<Rightarrow> {#(Pending, p)#} | _ \<Rightarrow> {#})"

definition at_client :: "client_pc \<Rightarrow> (stage \<times> ipc_packet) multiset" where
  "at_client pc = (case pc of CMatch p \<Rightarrow> {#(Received, p)#} | _ \<Rightarrow> {#})"

definition flights :: "ipc_sys \<Rightarrow> (stage \<times> ipc_packet) multiset" where
  "flights y = numbered Asked (sy_c2s y) + at_reader (bs_pc (sy_server y))
     + mset (map (Pair Pending) (bs_reqs (sy_server y))) + at_serve (sy_serve y)
     + numbered Answered (sy_s2c y) + at_client (bc_pc (sy_client y))"

definition answer_of :: "codec \<Rightarrow> (StatusReport \<Rightarrow> bool) \<Rightarrow> ipc_packet \<Rightarrow> ipc_packet \<Rightarrow> bool" where
  "answer_of C R q res \<longleftrightarrow> (\<exists>rep p. R rep \<and> parse_frame C (frame_of C q) = Inr p
     \<and> parse_frame C (frame_of C (server_answer rep p)) = Inr res)"

fun stage_ok :: "codec \<Rightarrow> (StatusReport \<Rightarrow> bool) \<Rightarrow> ipc_packet \<Rightarrow> stage \<Rightarrow> ipc_packet \<Rightarrow> bool" where
  "stage_ok C R q Asked p \<longleftrightarrow> p = frame_of C q"
| "stage_ok C R q Pending p \<longleftrightarrow> parse_frame C (frame_of C q) = Inr p"
| "stage_ok C R q Answered p \<longleftrightarrow>
     (\<exists>rep p0. R rep \<and> parse_frame C (frame_of C q) = Inr p0 \<and> p = frame_of C (server_answer rep p0))"
| "stage_ok C R q Received p \<longleftrightarrow> answer_of C R q p"

text \<open>Every identifier is in flight once, and belongs to the channel the client has for it.\<close>

definition flights_ok ::
    "codec \<Rightarrow> (StatusReport \<Rightarrow> bool) \<Rightarrow> (u32 \<Rightarrow> nat option) \<Rightarrow> (nat \<Rightarrow> ipc_packet) \<Rightarrow> (stage \<times> ipc_packet) multiset \<Rightarrow> bool" where
  "flights_ok C R m req F \<longleftrightarrow> (\<forall>i. count (image_mset (\<lambda>x. p_Id (snd x)) F) i \<le> 1)
     \<and> (\<forall>st p. (st, p) \<in># F \<longrightarrow> p_Id p \<noteq> 0 \<and> (\<exists>ch. m (p_Id p) = Some ch \<and> stage_ok C R (req ch) st p))"

lemma flights_okI:
  assumes "\<And>i. count (image_mset (\<lambda>x. p_Id (snd x)) F) i \<le> 1"
    and "\<And>st p. (st, p) \<in># F \<Longrightarrow> p_Id p \<noteq> 0 \<and> (\<exists>ch. m (p_Id p) = Some ch \<and> stage_ok C R (req ch) st p)"
  shows "flights_ok C R m req F"
  using assms unfolding flights_ok_def by blast

lemma flights_okD:
  assumes "flights_ok C R m req F"
  shows "count (image_mset (\<lambda>x. p_Id (snd x)) F) i \<le> 1"
    and "(st, p) \<in># F \<Longrightarrow> p_Id p \<noteq> 0 \<and> (\<exists>ch. m (p_Id p) = Some ch \<and> stage_ok C R (req ch) st p)"
  using assms unfolding flights_ok_def by blast+

lemma flights_ok_sub:
  assumes "flights_ok C R m req F" and "G \<subseteq># F"
  shows "flights_ok C R m req G"
proof (rule flights_okI)
  fix i
  have "count (image_mset (\<lambda>x. p_Id (snd x)) G) i \<le> count (image_mset (\<lambda>x. p_Id (snd x)) F) i"
    by (intro mset_subset_eq_count image_mset_subseteq_mono assms(2))
  with flights_okD(1) [OF assms(1), of i] show "count (image_mset (\<lambda>x. p_Id (snd x)) G) i \<le> 1" by simp
next
  fix st p
  assume "(st, p) \<in># G"
  then show "p_Id p \<noteq> 0 \<and> (\<exists>ch. m (p_Id p) = Some ch \<and> stage_ok C R (req ch) st p)"
    by (intro flights_okD(2) [OF assms(1)] mset_subset_eqD [OF assms(2)])
qed

lemma flights_ok_replace:
  assumes "flights_ok C R m req (add_mset (st, p) F)" and "p_Id p' = p_Id p"
    and "\<And>q. stage_ok C R q st p \<Longrightarrow> stage_ok C R q st' p'"
  shows "flights_ok C R m req (add_mset (st', p') F)"
proof (rule flights_okI)
  show "count (image_mset (\<lambda>x. p_Id (snd x)) (add_mset (st', p') F)) i \<le> 1" for i
    using flights_okD(1) [OF assms(1), of i] assms(2) by simp
  show "p_Id r \<noteq> 0 \<and> (\<exists>ch. m (p_Id r) = Some ch \<and> stage_ok C R (req ch) sr r)"
    if "(sr, r) \<in># add_mset (st', p') F" for sr r
    using that flights_okD(2) [OF assms(1), of st p] flights_okD(2) [OF assms(1), of sr r] assms(2,3) by auto
qed

lemma flights_ok_unique:
  assumes "flights_ok C R m req (add_mset (st, p) F)" and "(st', p') \<in># F"
  shows "p_Id p' \<noteq> p_Id p"
proof
  assume eq: "p_Id p' = p_Id p"
  have "p_Id p \<in># image_mset (\<lambda>x. p_Id (snd x)) F"
    using assms(2) eq by (force simp: image_iff)
  moreover have "count (image_mset (\<lambda>x. p_Id (snd x)) F) (p_Id p) = 0"
    using flights_okD(1) [OF assms(1), of "p_Id p"] by simp
  ultimately show False by (metis count_eq_zero_iff)
qed

lemma flights_ok_done:
  assumes "flights_ok C R m req (add_mset (st, p) F)" and "\<And>i. i \<noteq> p_Id p \<Longrightarrow> m' i = m i"
  shows "flights_ok C R m' req F"
proof (rule flights_okI)
  have sub: "flights_ok C R m req F" by (rule flights_ok_sub [OF assms(1)]) simp
  show "count (image_mset (\<lambda>x. p_Id (snd x)) F) i \<le> 1" for i by (rule flights_okD(1) [OF sub])
  show "p_Id r \<noteq> 0 \<and> (\<exists>ch. m' (p_Id r) = Some ch \<and> stage_ok C R (req ch) sr r)" if "(sr, r) \<in># F" for sr r
    using flights_okD(2) [OF sub that] assms(2) flights_ok_unique [OF assms(1) that] by simp
qed

lemma flights_ok_new:
  assumes ok: "flights_ok C R m req F" and "m (p_Id p) = None" and "p_Id p \<noteq> 0"
    and "\<And>i c. m i = Some c \<Longrightarrow> c \<noteq> ch"
  shows "flights_ok C R (m(p_Id p \<mapsto> ch)) (req(ch := p)) (add_mset (Asked, frame_of C p) F)"
proof (rule flights_okI)
  have fresh: "p_Id r \<noteq> p_Id p" if "(sr, r) \<in># F" for sr r
    using flights_okD(2) [OF ok that] assms(2) by auto
  have none: "p_Id p \<notin># image_mset (\<lambda>x. p_Id (snd x)) F"
  proof
    assume "p_Id p \<in># image_mset (\<lambda>x. p_Id (snd x)) F"
    then obtain x where "x \<in># F" "p_Id (snd x) = p_Id p" by auto
    then show False using fresh [of "fst x" "snd x"] by simp
  qed
  have frame: "p_Id (frame_of C p) = p_Id p" by (simp add: frame_of_def)
  show "count (image_mset (\<lambda>x. p_Id (snd x)) (add_mset (Asked, frame_of C p) F)) i \<le> 1" for i
  proof (cases "i = p_Id p")
    case True
    have "count (image_mset (\<lambda>x. p_Id (snd x)) F) i = 0" unfolding True using none by (metis count_eq_zero_iff)
    then show ?thesis by (simp add: frame)
  next
    case False
    then show ?thesis using flights_okD(1) [OF ok, of i] by (simp add: frame)
  qed
  show "p_Id r \<noteq> 0 \<and> (\<exists>c. (m(p_Id p \<mapsto> ch)) (p_Id r) = Some c \<and> stage_ok C R ((req(ch := p)) c) sr r)"
    if x: "(sr, r) \<in># add_mset (Asked, frame_of C p) F" for sr r
  proof (cases "(sr, r) = (Asked, frame_of C p)")
    case True
    then show ?thesis using assms(3) by (simp add: frame)
  next
    case False
    then have "(sr, r) \<in># F" using x by auto
    then show ?thesis using flights_okD(2) [OF ok, of sr r] fresh [of sr r] assms(4) by auto
  qed
qed

section \<open>The operations on the tables\<close>

text \<open>Channels of pending requests are known, belong to their identifier, and are open and empty.\<close>

definition outbox_ok :: "(nat \<Rightarrow> ipc_packet) \<Rightarrow> outbox \<Rightarrow> bool" where
  "outbox_ok req ob \<longleftrightarrow> (\<forall>i ch. map_of (ob_map ob) i = Some ch \<longrightarrow> ch < ob_next ob \<and> p_Id (req ch) = i)"

definition chans_open :: "outbox \<Rightarrow> bool" where
  "chans_open ob \<longleftrightarrow> (\<forall>i ch. map_of (ob_map ob) i = Some ch \<longrightarrow>
     rc_buf (ob_chans ob ch) = [] \<and> \<not> rc_closed (ob_chans ob ch))"

definition chans_hold :: "codec \<Rightarrow> (StatusReport \<Rightarrow> bool) \<Rightarrow> (nat \<Rightarrow> ipc_packet) \<Rightarrow> outbox \<Rightarrow> bool" where
  "chans_hold C R req ob \<longleftrightarrow> (\<forall>ch < ob_next ob. length (rc_buf (ob_chans ob ch)) \<le> 1
     \<and> (\<forall>res \<in> set (rc_buf (ob_chans ob ch)). answer_of C R (req ch) res \<and> p_Id res = p_Id (req ch)))"

lemma assignId_nonzero: "assignId ob = (i, ob') \<Longrightarrow> i \<noteq> 0 \<and> ob' = ob\<lparr>ob_nextId := i\<rparr>"
  by (auto simp: assignId_def Let_def split: if_splits)

lemma ob_Request_ok:
  assumes "ob_Request req werr ob = (Inr ch, w, ob')"
  shows "\<exists>i. i \<noteq> 0 \<and> map_of (ob_map ob) i = None \<and> w = Some (req\<lparr>p_Id := i\<rparr>) \<and> ch = ob_next ob
    \<and> ob_next ob' = Suc ch \<and> map_of (ob_map ob') = (map_of (ob_map ob))(i \<mapsto> ch)
    \<and> ob_chans ob' = (ob_chans ob)(ch := \<lparr>rc_buf = [], rc_closed = False\<rparr>)"
proof -
  obtain i ob1 where a: "assignId ob = (i, ob1)" by (cases "assignId ob")
  with assignId_nonzero [OF a] assms show ?thesis
    by (auto simp: ob_Request_def Let_def update_conv' split: if_splits option.splits)
qed

lemma ob_Request_failed:
  assumes "ob_Request req werr ob = (Inl e, w, ob')"
  shows "w = None \<and> map_of (ob_map ob') = map_of (ob_map ob) \<and> ob_next ob \<le> ob_next ob'
    \<and> (\<forall>ch. ch \<noteq> ob_next ob \<longrightarrow> ob_chans ob' ch = ob_chans ob ch)
    \<and> (ob_next ob < ob_next ob' \<longrightarrow> ob_next ob' = Suc (ob_next ob) \<and> rc_buf (ob_chans ob' (ob_next ob)) = [])"
proof -
  obtain i ob1 where a: "assignId ob = (i, ob1)" by (cases "assignId ob")
  with assignId_nonzero [OF a] assms show ?thesis
    by (auto simp: ob_Request_def Let_def close_chan_def delete_conv' update_conv' fun_eq_iff
        split: if_splits option.splits)
qed

lemma outbox_request:
  assumes "outbox_ok req ob" and "chans_hold C R req ob"
    and "ob_Request r werr ob = (Inr ch, Some p, ob')"
  shows "outbox_ok (req(ch := p)) ob'" and "chans_hold C R (req(ch := p)) ob'"
    and "chans_open ob \<Longrightarrow> chans_open ob'"
proof -
  obtain i where i: "i \<noteq> 0" "map_of (ob_map ob) i = None" "p = r\<lparr>p_Id := i\<rparr>" "ch = ob_next ob"
    "ob_next ob' = Suc ch" "map_of (ob_map ob') = (map_of (ob_map ob))(i \<mapsto> ch)"
    "ob_chans ob' = (ob_chans ob)(ch := \<lparr>rc_buf = [], rc_closed = False\<rparr>)"
    using ob_Request_ok [OF assms(3)] by blast
  show "outbox_ok (req(ch := p)) ob'"
    using assms(1) unfolding outbox_ok_def i(5,6) by (fastforce simp: i(3,4) split: if_splits)
  show "chans_hold C R (req(ch := p)) ob'"
    using assms(2) unfolding chans_hold_def i(5,7) by (auto simp: i(4) less_Suc_eq)
  show "chans_open ob'" if "chans_open ob"
    using that assms(1) unfolding chans_open_def outbox_ok_def i(6,7) by (fastforce simp: i(4) split: if_splits)
qed

lemma outbox_request_failed:
  assumes "outbox_ok req ob" and "chans_hold C R req ob" and "ob_Request r werr ob = (Inl e, w, ob')"
  shows "outbox_ok req ob'" and "chans_hold C R req ob'" and "chans_open ob \<Longrightarrow> chans_open ob'"
proof -
  note f = ob_Request_failed [OF assms(3)]
  show "outbox_ok req ob'" using assms(1) f unfolding outbox_ok_def by (metis order_less_le_trans)
  have old: "ch = ob_next ob \<and> rc_buf (ob_chans ob' ch) = [] \<or> ch < ob_next ob \<and> ob_chans ob' ch = ob_chans ob ch"
    if "ch < ob_next ob'" for ch
    using f that by (cases "ch = ob_next ob") auto
  show "chans_hold C R req ob'" unfolding chans_hold_def
  proof (intro allI impI)
    fix ch assume "ch < ob_next ob'"
    with old [OF this] assms(2) show "length (rc_buf (ob_chans ob' ch)) \<le> 1 \<and> (\<forall>res \<in> set (rc_buf (ob_chans ob' ch)).
        answer_of C R (req ch) res \<and> p_Id res = p_Id (req ch))"
      unfolding chans_hold_def by auto
  qed
  show "chans_open ob'" if "chans_open ob"
    using that assms(1) f unfolding chans_open_def outbox_ok_def by (metis order_less_irrefl)
qed

text \<open>A response is matched without blocking, and only ever with an answer to the request of its channel.\<close>

lemma matchResp_some:
  assumes "chans_open ob"
  shows "\<exists>ob'. matchResp res ob = Some ob'"
  using assms by (auto simp: matchResp_def chans_open_def Let_def split: option.split)

lemma matchResp_ok:
  assumes "outbox_ok req ob" and "chans_hold C R req ob" and "chans_open ob"
    and "map_of (ob_map ob) (p_Id res) = Some ch" and "answer_of C R (req ch) res"
    and m: "matchResp res ob = Some ob'"
  shows "outbox_ok req ob' \<and> chans_hold C R req ob' \<and> chans_open ob'
    \<and> map_of (ob_map ob') = (map_of (ob_map ob))(p_Id res := None)"
proof -
  have ob': "ob' = ob\<lparr>ob_map := AList.delete (p_Id res) (ob_map ob),
      ob_chans := (ob_chans ob)(ch := (ob_chans ob ch)\<lparr>rc_buf := [res]\<rparr>)\<rparr>"
    using m assms(3,4) by (auto simp: matchResp_def chans_open_def Let_def split: if_splits)
  have map: "map_of (ob_map ob') = (map_of (ob_map ob))(p_Id res := None)"
    by (simp add: ob' delete_conv')
  have id: "p_Id (req ch) = p_Id res" using assms(1,4) by (simp add: outbox_ok_def)
  have other: "c \<noteq> ch" if "i \<noteq> p_Id res" "map_of (ob_map ob) i = Some c" for i c
    using assms(1) that id by (auto simp: outbox_ok_def)
  have "outbox_ok req ob'" using assms(1) unfolding outbox_ok_def map by (simp add: ob')
  moreover have "chans_open ob'" using assms(3) other unfolding chans_open_def map by (simp add: ob')
  moreover have "chans_hold C R req ob'"
    using assms(2,5) id unfolding chans_hold_def by (simp add: ob')
  ultimately show ?thesis using map by blast
qed

lemma close_all_simps [simp]:
  "ob_map (close_all ob) = ob_map ob" "ob_next (close_all ob) = ob_next ob"
  "rc_buf (ob_chans (close_all ob) ch) = rc_buf (ob_chans ob ch)"
proof -
  have "ob_map (foldl (\<lambda>ob ch. close_chan ch ob) ob cs) = ob_map ob
      \<and> ob_next (foldl (\<lambda>ob ch. close_chan ch ob) ob cs) = ob_next ob
      \<and> rc_buf (ob_chans (foldl (\<lambda>ob ch. close_chan ch ob) ob cs) ch) = rc_buf (ob_chans ob ch)" for cs
    by (induction cs arbitrary: ob) (simp_all add: close_chan_def)
  then show "ob_map (close_all ob) = ob_map ob" "ob_next (close_all ob) = ob_next ob"
    "rc_buf (ob_chans (close_all ob) ch) = rc_buf (ob_chans ob ch)" by (simp_all add: close_all_def)
qed

section \<open>The invariant\<close>

text \<open>The requests the server has taken into its table: those it has not yet answered.\<close>

definition claimed :: "ipc_sys \<Rightarrow> u32 set" where
  "claimed y = p_Id ` ((case bs_pc (sy_server y) of SSend p \<Rightarrow> {p} | _ \<Rightarrow> {}) \<union> set (bs_reqs (sy_server y))
     \<union> (case sy_serve y of VHandle p \<Rightarrow> {p} | VFailed p \<Rightarrow> {p} | _ \<Rightarrow> {}))"

definition sys_inv :: "codec \<Rightarrow> (StatusReport \<Rightarrow> bool) \<Rightarrow> ipc_sys \<Rightarrow> bool" where
  "sys_inv C R y \<longleftrightarrow>
     flights_ok C R (map_of (ob_map (bc_outbox (sy_client y)))) (sy_req y) (flights y)
     \<and> dom (map_of (bs_inbox (sy_server y))) = claimed y
     \<and> outbox_ok (sy_req y) (bc_outbox (sy_client y)) \<and> chans_hold C R (sy_req y) (bc_outbox (sy_client y))
     \<and> (bc_pc (sy_client y) \<noteq> CEnded \<longrightarrow> chans_open (bc_outbox (sy_client y)))"

lemmas sys_parts = flights_def claimed_def

lemma numbered_simps [simp]:
  "numbered st [] = {#}" "numbered st (p # ps) = (if p_Id p \<noteq> 0 then add_mset (st, p) (numbered st ps) else numbered st ps)"
  "numbered st (ps @ qs) = numbered st ps + numbered st qs"
  by (simp_all add: numbered_def)

lemma parse_frame_header: "parse_frame C p = Inr p' \<Longrightarrow> p_Id p' = p_Id p \<and> p_Method p' = p_Method p"
  by (auto simp: parse_frame_def ParseRawBody_def split: option.splits method_body.splits sum.splits)

lemma frame_of_header [simp]: "p_Id (frame_of C p) = p_Id p" "p_Method (frame_of C p) = p_Method p"
  by (simp_all add: frame_of_def)

lemma numbered_notify: "ipc_Notify n werr = (e, w) \<Longrightarrow> numbered st (wire C w) = {#}"
  by (auto simp: ipc_Notify_def wire_def split: option.splits)

lemma sys_inv_start: "sys_inv C R ipc_start"
  by (simp add: sys_inv_def sys_parts ipc_start_def NewBaseClient_def NewBaseServer_def outbox_init_def
      flights_ok_def outbox_ok_def chans_hold_def chans_open_def at_reader_def at_serve_def at_client_def)

text \<open>Steps of the client.\<close>

lemma step_request:
  assumes inv: "sys_inv C R y" and r: "client_Request req werr (sy_client y) = (Inr ch, Some p, c)"
  shows "sys_inv C R (y\<lparr>sy_client := c, sy_c2s := sy_c2s y @ [frame_of C p], sy_req := (sy_req y)(ch := p)\<rparr>)"
proof -
  let ?ob = "bc_outbox (sy_client y)"
  obtain ob' where ob: "ob_Request req werr ?ob = (Inr ch, Some p, ob')" "c = (sy_client y)\<lparr>bc_outbox := ob'\<rparr>"
    using r by (auto simp: client_Request_def split: if_splits prod.splits)
  obtain i where i: "i \<noteq> 0" "map_of (ob_map ?ob) i = None" "p = req\<lparr>p_Id := i\<rparr>" "ch = ob_next ?ob"
    "map_of (ob_map ob') = (map_of (ob_map ?ob))(i \<mapsto> ch)"
    using ob_Request_ok [OF ob(1)] by blast
  have "flights_ok C R ((map_of (ob_map ?ob))(p_Id p \<mapsto> ch)) ((sy_req y)(ch := p))
      (add_mset (Asked, frame_of C p) (flights y))"
    by (rule flights_ok_new) (use inv i in \<open>auto simp: sys_inv_def outbox_ok_def\<close>)
  then show ?thesis
    using inv outbox_request [OF _ _ ob(1), of "sy_req y" C R] i
    by (simp add: sys_inv_def sys_parts ob(2))
qed

lemma step_request_failed:
  assumes inv: "sys_inv C R y" and r: "client_Request req werr (sy_client y) = (Inl e, w, c)"
  shows "sys_inv C R (y\<lparr>sy_client := c\<rparr>)"
proof (cases "IsResponse (p_Method req)")
  case True
  then have "c = sy_client y" using r by (simp add: client_Request_def)
  with inv show ?thesis by simp
next
  case False
  then obtain ob' where ob: "ob_Request req werr (bc_outbox (sy_client y)) = (Inl e, w, ob')"
    "c = (sy_client y)\<lparr>bc_outbox := ob'\<rparr>"
    using r by (auto simp: client_Request_def split: prod.splits)
  show ?thesis
    using inv outbox_request_failed [OF _ _ ob(1), of "sy_req y" C R] ob_Request_failed [OF ob(1)]
    by (simp add: sys_inv_def sys_parts ob(2))
qed

lemma step_client_read:
  assumes inv: "sys_inv C R y" and pc: "bc_pc (sy_client y) = CRead" and q: "sy_s2c y = p # ps"
  shows "sys_inv C R (y\<lparr>sy_client := client_got C (Inr p) (sy_client y), sy_s2c := ps\<rparr>)"
proof -
  let ?m = "map_of (ob_map (bc_outbox (sy_client y)))" and ?c = "client_got C (Inr p) (sy_client y)"
  define F where "F = numbered Asked (sy_c2s y) + at_reader (bs_pc (sy_server y))
     + mset (map (Pair Pending) (bs_reqs (sy_server y))) + at_serve (sy_serve y) + numbered Answered ps"
  have fl: "flights_ok C R ?m (sy_req y) (if p_Id p \<noteq> 0 then add_mset (Answered, p) F else F)"
    using inv by (simp add: sys_inv_def flights_def F_def q pc at_client_def split: if_splits)
  then have sub: "flights_ok C R ?m (sy_req y) F"
    by (rule flights_ok_sub) simp
  have same: "bc_outbox ?c = bc_outbox (sy_client y)" "bc_pc ?c = CEnded \<longrightarrow> False"
    using pc by (auto simp: client_got_def split: sum.split)
  have "flights_ok C R ?m (sy_req y) (F + at_client (bc_pc ?c))"
  proof (cases "\<exists>p'. bc_pc ?c = CMatch p'")
    case True
    then obtain p' where p': "bc_pc ?c = CMatch p'" by blast
    then have "parse_frame C p = Inr p'" "p_Id p' \<noteq> 0"
      using pc by (auto simp: client_got_def split: sum.splits if_splits)
    with parse_frame_header [OF this(1)] flights_ok_replace [of C R ?m "sy_req y" Answered p F p' Received] fl
    have "flights_ok C R ?m (sy_req y) (add_mset (Received, p') F)"
      by (auto simp: answer_of_def)
    with p' show ?thesis by (simp add: at_client_def)
  next
    case False
    then have "at_client (bc_pc ?c) = {#}" by (auto simp: at_client_def split: client_pc.split)
    with sub show ?thesis by simp
  qed
  then show ?thesis
    using inv same pc by (simp add: sys_inv_def sys_parts F_def)
qed

lemma step_client_tau:
  assumes inv: "sys_inv C R y" and l: "client_loop C (sy_client y) LTau c"
  shows "sys_inv C R (y\<lparr>sy_client := c\<rparr>)"
  using l
proof cases
  case (c_notify p)
  with inv show ?thesis by (simp add: sys_inv_def sys_parts at_client_def)
next
  case (c_match p ob)
  let ?ob = "bc_outbox (sy_client y)"
  define F where "F = numbered Asked (sy_c2s y) + at_reader (bs_pc (sy_server y))
     + mset (map (Pair Pending) (bs_reqs (sy_server y))) + at_serve (sy_serve y) + numbered Answered (sy_s2c y)"
  have fl: "flights_ok C R (map_of (ob_map ?ob)) (sy_req y) (add_mset (Received, p) F)"
    using inv by (simp add: sys_inv_def flights_def F_def c_match at_client_def)
  then obtain ch where ch: "map_of (ob_map ?ob) (p_Id p) = Some ch" "answer_of C R (sy_req y ch) p"
    using flights_okD(2) [OF fl, of Received p] by auto
  have ob: "outbox_ok (sy_req y) ob \<and> chans_hold C R (sy_req y) ob \<and> chans_open ob
      \<and> map_of (ob_map ob) = (map_of (ob_map ?ob))(p_Id p := None)"
    by (rule matchResp_ok [where ch = ch, OF _ _ _ _ _ c_match(3)]) (use ch inv c_match in \<open>simp_all add: sys_inv_def\<close>)
  moreover have "flights_ok C R (map_of (ob_map ob)) (sy_req y) F"
    by (rule flights_ok_done [OF fl]) (use ob in simp)
  ultimately show ?thesis
    using inv c_match by (simp add: sys_inv_def sys_parts F_def at_client_def)
next
  case c_end
  with inv show ?thesis
    by (simp add: sys_inv_def sys_parts client_end_def at_client_def outbox_ok_def chans_hold_def)
qed

lemma step_client_receives:
  assumes inv: "sys_inv C R y"
  shows "sys_inv C R (y\<lparr>sy_client := take_response ch (sy_client y)\<rparr>)"
proof -
  let ?ob = "bc_outbox (sy_client y)" and ?ob' = "bc_outbox (take_response ch (sy_client y))"
  have same: "ob_map ?ob' = ob_map ?ob" "ob_next ?ob' = ob_next ?ob" "bc_pc (take_response ch (sy_client y)) = bc_pc (sy_client y)"
    "rc_closed (ob_chans ?ob' c) = rc_closed (ob_chans ?ob c)" "set (rc_buf (ob_chans ?ob' c)) \<subseteq> set (rc_buf (ob_chans ?ob c))"
    "length (rc_buf (ob_chans ?ob' c)) \<le> length (rc_buf (ob_chans ?ob c))" for c
    using list.set_sel(2) [of "rc_buf (ob_chans ?ob ch)"]
    by (auto simp: take_response_def Let_def) (metis list.sel(2) list.set_sel(2))
  have "chans_hold C R (sy_req y) ?ob'"
    using inv same(2,5,6) unfolding sys_inv_def chans_hold_def by (metis order_trans subsetD)
  moreover have "chans_open ?ob'" if "chans_open ?ob"
    using that same(1,4) same(5) unfolding chans_open_def by (metis set_empty subset_empty)
  ultimately show ?thesis
    using inv same by (simp add: sys_inv_def sys_parts outbox_ok_def)
qed

text \<open>Steps of the server.\<close>

lemma step_server_read:
  assumes inv: "sys_inv C R y" and pc: "bs_pc (sy_server y) = SRead" and q: "sy_c2s y = p # ps"
  shows "sys_inv C R (y\<lparr>sy_server := server_got C (Inr p) (sy_server y), sy_c2s := ps\<rparr>)"
proof -
  let ?m = "map_of (ob_map (bc_outbox (sy_client y)))" and ?s = "server_got C (Inr p) (sy_server y)"
  define F where "F = numbered Asked ps + mset (map (Pair Pending) (bs_reqs (sy_server y)))
     + at_serve (sy_serve y) + numbered Answered (sy_s2c y) + at_client (bc_pc (sy_client y))"
  have fl: "flights_ok C R ?m (sy_req y) (if p_Id p \<noteq> 0 then add_mset (Asked, p) F else F)"
    using inv by (simp add: sys_inv_def flights_def F_def q pc at_reader_def split: if_splits)
  then have sub: "flights_ok C R ?m (sy_req y) F" by (rule flights_ok_sub) simp
  have same: "bs_reqs ?s = bs_reqs (sy_server y)" "bs_inbox ?s = bs_inbox (sy_server y)"
    "(case bs_pc ?s of SSend p \<Rightarrow> {p} | _ \<Rightarrow> {}) = {}"
    using pc by (auto simp: server_got_def split: sum.split)
  have "flights_ok C R ?m (sy_req y) (F + at_reader (bs_pc ?s))"
  proof (cases "\<exists>p'. bs_pc ?s = SDispatch p'")
    case True
    then obtain p' where p': "bs_pc ?s = SDispatch p'" by blast
    then have "parse_frame C p = Inr p'" "p_Id p' \<noteq> 0"
      using pc by (auto simp: server_got_def split: sum.splits if_splits)
    with parse_frame_header [OF this(1)] flights_ok_replace [of C R ?m "sy_req y" Asked p F p' Pending] fl
    have "flights_ok C R ?m (sy_req y) (add_mset (Pending, p') F)" by auto
    with p' show ?thesis by (simp add: at_reader_def)
  next
    case False
    then have "at_reader (bs_pc ?s) = {#}"
      using same(3) by (auto simp: at_reader_def split: server_pc.splits)
    with sub show ?thesis by simp
  qed
  then show ?thesis
    using inv same pc by (simp add: sys_inv_def sys_parts F_def ac_simps)
qed

text \<open>A request that the client has numbered is never already in the server's table.\<close>

lemma dispatch_fresh:
  assumes inv: "sys_inv C R y" and pc: "bs_pc (sy_server y) = SDispatch p"
  shows "map_of (bs_inbox (sy_server y)) (p_Id p) = None"
proof (rule ccontr)
  define F where "F = numbered Asked (sy_c2s y) + mset (map (Pair Pending) (bs_reqs (sy_server y)))
     + at_serve (sy_serve y) + numbered Answered (sy_s2c y) + at_client (bc_pc (sy_client y))"
  have fl: "flights_ok C R (map_of (ob_map (bc_outbox (sy_client y)))) (sy_req y) (add_mset (Pending, p) F)"
    using inv by (simp add: sys_inv_def flights_def F_def pc at_reader_def ac_simps)
  assume "map_of (bs_inbox (sy_server y)) (p_Id p) \<noteq> None"
  then have "p_Id p \<in> claimed y" using inv by (auto simp: sys_inv_def)
  then obtain p' where p'': "p_Id p' = p_Id p"
    "p' \<in> set (bs_reqs (sy_server y)) \<or> p' \<in> (case sy_serve y of VHandle p \<Rightarrow> {p} | VFailed p \<Rightarrow> {p} | _ \<Rightarrow> {})"
    by (fastforce simp: claimed_def pc)
  then have p': "(Pending, p') \<in># F"
    by (auto simp: F_def at_serve_def split: serve_pc.splits)
  from flights_ok_unique [OF fl p'] p''(1) show False by simp
qed

lemma step_server_tau:
  assumes inv: "sys_inv C R y" and l: "server_loop C (sy_server y) l s"
  shows "l \<noteq> LWrite p \<and> (l = LTau \<longrightarrow> sys_inv C R (y\<lparr>sy_server := s\<rparr>))"
  using l
proof cases
  case (s_notify p)
  with inv show ?thesis by (simp add: sys_inv_def sys_parts at_reader_def)
next
  case (s_dispatch p werr w)
  have "map_of (bs_inbox (sy_server y)) (p_Id p) = None" by (rule dispatch_fresh [OF inv s_dispatch(2)])
  then have "w = None" "s = (sy_server y)\<lparr>bs_inbox := AList.update (p_Id p) () (bs_inbox (sy_server y)), bs_pc := SSend p\<rparr>"
    using s_dispatch(3) by (auto simp: server_dispatchReq_def ib_dispatch_def)
  with inv s_dispatch show ?thesis
    by (simp add: sys_inv_def sys_parts at_reader_def update_conv')
next
  case (s_send p)
  with inv show ?thesis by (simp add: sys_inv_def sys_parts at_reader_def insert_commute)
next
  case s_end
  with inv show ?thesis by (simp add: sys_inv_def sys_parts at_reader_def server_end_def)
qed simp

lemma step_serve:
  assumes inv: "sys_inv C R y" and l: "serve_step R cd (sy_serve y, sy_server y) w (v, s)"
  shows "sys_inv C R (y\<lparr>sy_serve := v, sy_server := s, sy_s2c := sy_s2c y @ wire C w\<rparr>)"
  using l
proof cases
  case v_done
  with inv show ?thesis by (simp add: sys_inv_def sys_parts at_serve_def wire_def)
next
  case (v_request p ps)
  with inv show ?thesis by (simp add: sys_inv_def sys_parts at_serve_def wire_def)
next
  case v_closed
  with inv show ?thesis by (simp add: sys_inv_def sys_parts at_serve_def wire_def)
next
  case (v_notification p ps)
  with inv show ?thesis by (simp add: sys_inv_def sys_parts at_serve_def wire_def)
next
  case (v_answer rep p werr)
  let ?m = "map_of (ob_map (bc_outbox (sy_client y)))"
  have w: "w = Some (server_answer rep p)"
    "s = (sy_server y)\<lparr>bs_inbox := AList.delete (p_Id p) (bs_inbox (sy_server y))\<rparr>"
    using v_answer(5) by (auto simp: server_handle_def server_Respond_def ib_Respond_def split: if_splits option.splits)
  define F where "F = numbered Asked (sy_c2s y) + at_reader (bs_pc (sy_server y))
     + mset (map (Pair Pending) (bs_reqs (sy_server y))) + numbered Answered (sy_s2c y) + at_client (bc_pc (sy_client y))"
  have fl: "flights_ok C R ?m (sy_req y) (add_mset (Pending, p) F)"
    using inv by (simp add: sys_inv_def flights_def F_def v_answer at_serve_def)
  then have nz: "p_Id p \<noteq> 0" using flights_okD(2) [OF fl, of Pending p] by simp
  have "flights_ok C R ?m (sy_req y) (add_mset (Answered, frame_of C (server_answer rep p)) F)"
    by (rule flights_ok_replace [OF fl]) (use v_answer(4) in auto)
  moreover have "p_Id p \<notin> p_Id ` ((case bs_pc (sy_server y) of SSend p \<Rightarrow> {p} | _ \<Rightarrow> {}) \<union> set (bs_reqs (sy_server y)))"
  proof
    assume "p_Id p \<in> p_Id ` ((case bs_pc (sy_server y) of SSend p \<Rightarrow> {p} | _ \<Rightarrow> {}) \<union> set (bs_reqs (sy_server y)))"
    then obtain p' where id: "p_Id p' = p_Id p"
      and "p' \<in> (case bs_pc (sy_server y) of SSend p \<Rightarrow> {p} | _ \<Rightarrow> {}) \<union> set (bs_reqs (sy_server y))"
      by fastforce
    then have "(Pending, p') \<in># F" by (auto simp: F_def at_reader_def split: server_pc.splits)
    with flights_ok_unique [OF fl] id show False by metis
  qed
  ultimately show ?thesis
    using inv v_answer nz by (auto simp: sys_inv_def sys_parts F_def w wire_def at_serve_def delete_conv')
next
  case (v_failed rep p werr e)
  then have "w = None" "s = sy_server y"
    by (auto simp: server_handle_def server_Respond_def ib_Respond_def split: if_splits option.splits)
  with inv v_failed show ?thesis by (simp add: sys_inv_def sys_parts at_serve_def wire_def)
qed

lemma sys_inv_step:
  assumes step: "ipc_step C R y y'" and inv: "sys_inv C R y"
  shows "sys_inv C R y'"
  using step
proof cases
  case (request req werr ch p c)
  with step_request [OF inv] show ?thesis by simp
next
  case (request_failed req werr e w c)
  with step_request_failed [OF inv] show ?thesis by simp
next
  case (client_notify n werr e w)
  then show ?thesis using inv numbered_notify [OF client_notify(2), of Asked C]
    by (simp add: sys_inv_def sys_parts)
next
  case (client_read p ps)
  with step_client_read [OF inv] show ?thesis by simp
next
  case (client_read_error e)
  with inv show ?thesis by (simp add: sys_inv_def sys_parts client_got_def at_client_def)
next
  case (client_tau c)
  with step_client_tau [OF inv] show ?thesis by simp
next
  case (client_receives ch)
  with step_client_receives [OF inv] show ?thesis by simp
next
  case (client_notified n ns)
  with inv show ?thesis by (simp add: sys_inv_def sys_parts)
next
  case (server_read p ps)
  with step_server_read [OF inv] show ?thesis by simp
next
  case (server_read_error e)
  with inv show ?thesis by (simp add: sys_inv_def sys_parts server_got_def at_reader_def)
next
  case (server_tau s)
  with step_server_tau [OF inv server_tau(2)] show ?thesis by simp
next
  case (server_write p s)
  with step_server_tau [OF inv server_write(2), of p] show ?thesis by simp
next
  case (serve cd w v s)
  with step_serve [OF inv serve(2)] show ?thesis by simp
next
  case (server_notify n werr e w)
  then show ?thesis using inv numbered_notify [OF server_notify(3), of Answered C]
    by (simp add: sys_inv_def sys_parts)
qed

lemma ipc_reach_inv: "ipc_reach C R y \<Longrightarrow> sys_inv C R y"
  by (induction rule: ipc_reach.induct) (simp_all add: sys_inv_start sys_inv_step)

end
