(* ===== verification/Ipc_Spec.thy ===== *)
theory Ipc_Spec
  imports Ipc_System
begin

text \<open>The properties of the control connection, and runs of it that witness them.\<close>

section \<open>An executable scheduler\<close>

text \<open>Some of the steps of the system as a function, to build runs; every one of them is a step.\<close>

datatype ipc_cmd = DoRequest ipc_packet | DoServerRead | DoServerTau | DoServe StatusReport
  | DoClientRead | DoClientTau

fun ipc_do :: "codec \<Rightarrow> (StatusReport \<Rightarrow> bool) \<Rightarrow> ipc_cmd \<Rightarrow> ipc_sys \<Rightarrow> ipc_sys option" where
  "ipc_do C R (DoRequest q) y =
     (case client_Request q None (sy_client y) of
        (Inr ch, Some p, c) \<Rightarrow>
          Some (y\<lparr>sy_client := c, sy_c2s := sy_c2s y @ [frame_of C p], sy_req := (sy_req y)(ch := p)\<rparr>)
      | _ \<Rightarrow> None)"
| "ipc_do C R DoServerRead y =
     (if bs_pc (sy_server y) = SRead
      then (case sy_c2s y of [] \<Rightarrow> None
            | p # ps \<Rightarrow> Some (y\<lparr>sy_server := server_got C (Inr p) (sy_server y), sy_c2s := ps\<rparr>))
      else None)"
| "ipc_do C R DoServerTau y =
     (let s = sy_server y in case bs_pc s of
        SDispatch p \<Rightarrow> (case server_dispatchReq p None s of
            (None, s') \<Rightarrow> Some (y\<lparr>sy_server := s'\<rparr>) | _ \<Rightarrow> None)
      | SSend p \<Rightarrow> if length (bs_reqs s) < chan_cap
                   then Some (y\<lparr>sy_server := s\<lparr>bs_reqs := bs_reqs s @ [p], bs_pc := SRead\<rparr>\<rparr>) else None
      | _ \<Rightarrow> None)"
| "ipc_do C R (DoServe rep) y =
     (let s = sy_server y in case sy_serve y of
        VSelect \<Rightarrow> (case bs_reqs s of [] \<Rightarrow> None
            | p # ps \<Rightarrow> Some (y\<lparr>sy_serve := VHandle p, sy_server := s\<lparr>bs_reqs := ps\<rparr>\<rparr>))
      | VHandle p \<Rightarrow> if server_locked s \<or> \<not> R rep then None
          else (case server_handle rep p None s of
                  (None, w, s') \<Rightarrow> Some (y\<lparr>sy_serve := VSelect, sy_server := s', sy_s2c := sy_s2c y @ wire C w\<rparr>)
                | _ \<Rightarrow> None)
      | _ \<Rightarrow> None)"
| "ipc_do C R DoClientRead y =
     (if bc_pc (sy_client y) = CRead
      then (case sy_s2c y of [] \<Rightarrow> None
            | p # ps \<Rightarrow> Some (y\<lparr>sy_client := client_got C (Inr p) (sy_client y), sy_s2c := ps\<rparr>))
      else None)"
| "ipc_do C R DoClientTau y =
     (case bc_pc (sy_client y) of
        CMatch p \<Rightarrow> map_option (\<lambda>ob. y\<lparr>sy_client := (sy_client y)\<lparr>bc_outbox := ob, bc_pc := CRead\<rparr>\<rparr>)
                      (matchResp p (bc_outbox (sy_client y)))
      | _ \<Rightarrow> None)"

lemma ipc_do_step:
  assumes "ipc_do C R cmd y = Some y'"
  shows "ipc_step C R y y'"
proof (cases cmd)
  case (DoRequest q)
  with assms show ?thesis
    by (auto intro: ipc_step.request split: prod.splits sum.splits option.splits)
next
  case DoServerRead
  with assms show ?thesis by (auto intro: ipc_step.server_read split: if_splits list.splits)
next
  case DoServerTau
  with assms show ?thesis
    using server_loop.s_dispatch [of "sy_server y" _ None None _ C]
    by (auto simp: Let_def intro!: ipc_step.server_tau intro: server_loop.s_send
        split: server_pc.splits prod.splits option.splits if_splits)
next
  case (DoServe rep)
  show ?thesis
  proof (cases "sy_serve y")
    case VSelect
    with assms DoServe obtain p ps where "bs_reqs (sy_server y) = p # ps"
      and y': "y' = y\<lparr>sy_serve := VHandle p, sy_server := (sy_server y)\<lparr>bs_reqs := ps\<rparr>\<rparr>"
      by (auto simp: Let_def split: list.splits)
    then have "serve_step R False (VSelect, sy_server y) None (VHandle p, (sy_server y)\<lparr>bs_reqs := ps\<rparr>)"
      by (intro serve_step.v_request)
    with VSelect y' show ?thesis
      using ipc_step.serve [of R False y None "VHandle p" "(sy_server y)\<lparr>bs_reqs := ps\<rparr>" C] by (simp add: wire_def)
  next
    case (VHandle p)
    with assms DoServe obtain w s where "\<not> server_locked (sy_server y)" "R rep"
      "server_handle rep p None (sy_server y) = (None, w, s)"
      and y': "y' = y\<lparr>sy_serve := VSelect, sy_server := s, sy_s2c := sy_s2c y @ wire C w\<rparr>"
      by (auto simp: Let_def split: if_splits prod.splits option.splits)
    then have "serve_step R False (VHandle p, sy_server y) w (VSelect, s)" by (intro serve_step.v_answer)
    with VHandle y' show ?thesis using ipc_step.serve [of R False y w VSelect s C] by simp
  qed (use assms DoServe in simp_all)
next
  case DoClientRead
  with assms show ?thesis by (auto intro: ipc_step.client_read split: if_splits list.splits)
next
  case DoClientTau
  with assms show ?thesis
    by (auto intro!: ipc_step.client_tau intro: client_loop.c_match split: client_pc.splits)
qed

fun ipc_run :: "codec \<Rightarrow> (StatusReport \<Rightarrow> bool) \<Rightarrow> ipc_cmd list \<Rightarrow> ipc_sys \<Rightarrow> ipc_sys option" where
  "ipc_run C R [] y = Some y"
| "ipc_run C R (c # cs) y = (case ipc_do C R c y of None \<Rightarrow> None | Some y' \<Rightarrow> ipc_run C R cs y')"

lemma ipc_run_reach: "ipc_run C R cs y = Some y' \<Longrightarrow> ipc_reach C R y \<Longrightarrow> ipc_reach C R y'"
  by (induction cs arbitrary: y) (auto split: option.splits dest: ipc_do_step intro: ipc_reach.step)

lemma ipc_run_the: "ipc_run C R cs y \<noteq> None \<Longrightarrow> ipc_reach C R y \<Longrightarrow> ipc_reach C R (the (ipc_run C R cs y))"
  using ipc_run_reach [of C R cs y] by (cases "ipc_run C R cs y") auto

text \<open>A codec that writes nothing and reads the zero value of the announced struct.\<close>

definition silent_codec :: codec where
  "silent_codec = \<lparr>cd_Marshal = (\<lambda>_. []), cd_Unmarshal = (\<lambda>_ z. Inr z)\<rparr>"

definition status_request :: ipc_packet where
  "status_request = MakePacket 0 StatusRequest"

definition empty_report :: StatusReport where
  "empty_report = \<lparr>sr_Closed = False, sr_Targets = [], sr_Frontends = []\<rparr>"

definition only_empty :: "StatusReport \<Rightarrow> bool" where
  "only_empty rep \<longleftrightarrow> rep = empty_report"

definition demo_call :: ipc_sys where
  "demo_call = the (ipc_run silent_codec only_empty [DoRequest status_request, DoServerRead, DoServerTau, DoServerTau,
     DoServe empty_report, DoServe empty_report, DoClientRead, DoClientTau] ipc_start)"

lemma demo_call_reach: "ipc_reach silent_codec only_empty demo_call"
  unfolding demo_call_def by (intro ipc_run_the ipc_reach.init) code_simp

lemma demo_call_values:
  "ob_next (bc_outbox (sy_client demo_call)) = 1"
  "rc_buf (ob_chans (bc_outbox (sy_client demo_call)) 0) =
     [\<lparr>p_Id = 1, p_Method = MethodStatusResponse, p_Body = PtrBody (StatusResponse empty_report)\<rparr>]"
  by code_simp+

section \<open>Requests and answers\<close>

lemma answer_in_channel:
  assumes "ipc_reach C R y" and "ch < ob_next (bc_outbox (sy_client y))"
    and "rc_buf (ob_chans (bc_outbox (sy_client y)) ch) = res # rest"
  shows "rest = [] \<and> p_Id res = p_Id (sy_req y ch)
    \<and> (\<exists>rep req. R rep \<and> parse_frame C (frame_of C (sy_req y ch)) = Inr req
         \<and> parse_frame C (frame_of C (server_answer rep req)) = Inr res)"
proof -
  have "chans_hold C R (sy_req y) (bc_outbox (sy_client y))"
    using ipc_reach_inv [OF assms(1)] by (simp add: sys_inv_def)
  then have "length (res # rest) \<le> 1 \<and> answer_of C R (sy_req y ch) res \<and> p_Id res = p_Id (sy_req y ch)"
    using assms(2,3) unfolding chans_hold_def by (metis list.set_intros(1))
  then show ?thesis by (simp add: answer_of_def)
qed

text \<open>
  C27. The pipelined connection refines a call: under every interleaving, and with reads and writes that
  fail at any time, what a response channel holds is at most one packet, it carries the identifier of
  the request that was written for that channel, and it is the server's answer to that request, with one
  of the reports the server may give, as the two codecs transmit it.
\<close>

theorem channel_holds_answer:
  assumes "ipc_reach C R y" and "ch < ob_next (bc_outbox (sy_client y))"
    and "rc_buf (ob_chans (bc_outbox (sy_client y)) ch) = res # rest"
  shows "rest = [] \<and> p_Id res = p_Id (sy_req y ch)
    \<and> (\<exists>rep req. R rep \<and> parse_frame C (frame_of C (sy_req y ch)) = Inr req
         \<and> parse_frame C (frame_of C (server_answer rep req)) = Inr res)"
  by (rule answer_in_channel [OF assms])

theorem channel_holds_answer_witness:
  "\<exists>rep req. only_empty rep \<and> parse_frame silent_codec (frame_of silent_codec (sy_req demo_call 0)) = Inr req
     \<and> parse_frame silent_codec (frame_of silent_codec (server_answer rep req)) =
         Inr \<lparr>p_Id = 1, p_Method = MethodStatusResponse, p_Body = PtrBody (StatusResponse empty_report)\<rparr>"
  using channel_holds_answer [OF demo_call_reach, of 0] demo_call_values by simp

text \<open>
  The client never blocks or panics while it holds its lock: when it matches a response, the channel
  of the request is open and empty. And the identifiers of its pending requests are nonzero, belong to
  one channel each and occur once in the whole system, so that the server never sees one twice.
\<close>

lemma matching_never_blocks:
  assumes "ipc_reach C R y"
  shows "bc_pc (sy_client y) = CMatch p \<Longrightarrow> \<exists>ob. matchResp p (bc_outbox (sy_client y)) = Some ob"
    and "bs_pc (sy_server y) = SDispatch q \<Longrightarrow> map_of (bs_inbox (sy_server y)) (p_Id q) = None"
proof -
  have inv: "sys_inv C R y" using assms by (rule ipc_reach_inv)
  show "\<exists>ob. matchResp p (bc_outbox (sy_client y)) = Some ob" if "bc_pc (sy_client y) = CMatch p"
    by (rule matchResp_some) (use inv that in \<open>simp add: sys_inv_def\<close>)
  show "map_of (bs_inbox (sy_server y)) (p_Id q) = None" if "bs_pc (sy_server y) = SDispatch q"
    by (rule dispatch_fresh [OF inv that])
qed

section \<open>Messages\<close>

text \<open>
  C28. The number in a packet decides the type of its body: when \<open>ParseRawBody\<close> accepts a packet with a
  known number, the body is a pointer to a message of the struct with that number, the header is kept,
  and exactly the numbers of response structs count as responses. That \<open>Unmarshal\<close> keeps the type of
  the struct it fills is Go's typing.
\<close>

theorem ParseRawBody_typed:
  assumes typed: "\<And>raw z b. cd_Unmarshal C raw z = Inr b \<Longrightarrow> body_Method b = body_Method z"
    and "zero_body (p_Method p) \<noteq> None" and "ParseRawBody C raw p = Inr p'"
  shows "\<exists>b. p' = p\<lparr>p_Body := PtrBody b\<rparr> \<and> body_Method b = p_Method p
    \<and> (IsResponse (p_Method p) \<longleftrightarrow> (\<exists>msg r fk tk. b = ErrorResponse msg \<or> b = StatusResponse r
         \<or> b = PluginInitResponse fk tk \<or> b \<in> {NewTargetResponse, WarmTargetResponse, DrainTargetResponse,
             CloseTargetResponse, NewFrontendResponse, StartFrontendResponse, StopFrontendResponse,
             CloseFrontendResponse}))"
proof -
  obtain z where z: "zero_body (p_Method p) = Some z" using assms(2) by blast
  have "\<exists>b. p' = p\<lparr>p_Body := PtrBody b\<rparr> \<and> body_Method b = p_Method p"
  proof (cases "z = Empty")
    case True
    with z zero_body_Method [OF z] assms(3) show ?thesis by (auto simp: ParseRawBody_def)
  next
    case False
    with z assms(3) have "case cd_Unmarshal C raw z of Inl e \<Rightarrow> False | Inr b \<Rightarrow> p' = p\<lparr>p_Body := PtrBody b\<rparr>"
      by (auto simp: ParseRawBody_def split: method_body.splits sum.splits)
    then show ?thesis using typed zero_body_Method [OF z] by (auto split: sum.splits)
  qed
  then obtain b where b: "p' = p\<lparr>p_Body := PtrBody b\<rparr>" "body_Method b = p_Method p" by blast
  moreover have "IsResponse (p_Method p) \<longleftrightarrow> (\<exists>msg r fk tk. b = ErrorResponse msg \<or> b = StatusResponse r
         \<or> b = PluginInitResponse fk tk \<or> b \<in> {NewTargetResponse, WarmTargetResponse, DrainTargetResponse,
             CloseTargetResponse, NewFrontendResponse, StartFrontendResponse, StopFrontendResponse,
             CloseFrontendResponse})"
    unfolding b(2) [symmetric] IsResponse_numbers by (cases b) simp_all
  ultimately show ?thesis by blast
qed

theorem ParseRawBody_typed_witness:
  "\<exists>b. (\<lparr>p_Id = 1, p_Method = 3, p_Body = RawBody []\<rparr>)\<lparr>p_Body := PtrBody (StatusResponse empty_report)\<rparr>
     = \<lparr>p_Id = 1, p_Method = 3, p_Body = PtrBody b\<rparr> \<and> body_Method b = 3"
proof -
  let ?p = "\<lparr>p_Id = 1, p_Method = 3, p_Body = RawBody []\<rparr>"
  have "zero_body (p_Method ?p) \<noteq> None" by code_simp
  moreover have "ParseRawBody silent_codec [] ?p = Inr (?p\<lparr>p_Body := PtrBody (StatusResponse empty_report)\<rparr>)" by code_simp
  ultimately show ?thesis
    using ParseRawBody_typed [of silent_codec ?p "[]"] by (auto simp: silent_codec_def)
qed

text \<open>A message that the codec reads back as it was written arrives as that message, with its number.\<close>

lemma packet_roundtrip:
  assumes "\<And>z. zero_body (body_Method b) = Some z \<Longrightarrow> cd_Unmarshal C (cd_Marshal C (ValBody b)) z = Inr b"
  shows "parse_frame C (frame_of C (MakePacket i b)) = Inr \<lparr>p_Id = i, p_Method = body_Method b, p_Body = PtrBody b\<rparr>"
proof -
  obtain z where z: "zero_body (body_Method b) = Some z" "same_struct z b" using zero_body_of by blast
  show ?thesis
  proof (cases "z = Empty")
    case True
    then have "b = Empty" using z(2) by (cases b) (simp_all add: method_numbers)
    with z True show ?thesis by (simp add: parse_frame_def frame_of_def MakePacket_def ParseRawBody_def)
  next
    case False
    with z(1) assms [OF z(1)] show ?thesis
      by (cases z) (simp_all add: parse_frame_def frame_of_def MakePacket_def ParseRawBody_def)
  qed
qed

section \<open>Where the connection stops\<close>

text \<open>
  With one request being handled and a full channel behind it, the reader blocks on the next one while it
  holds the lock that \<open>Respond\<close> needs: neither goroutine of the server ever moves again.
\<close>

definition server_stuck :: "ipc_sys \<Rightarrow> bool" where
  "server_stuck y \<longleftrightarrow> (\<exists>p q. sy_serve y = VHandle p \<and> bs_pc (sy_server y) = SSend q)
     \<and> chan_cap \<le> length (bs_reqs (sy_server y))"

lemma server_stuck_step:
  assumes "server_stuck y" and "ipc_step C R y y'"
  shows "server_stuck y' \<and> sy_server y' = sy_server y \<and> sy_serve y' = sy_serve y"
proof -
  obtain p q where pc: "sy_serve y = VHandle p" "bs_pc (sy_server y) = SSend q"
    and full: "\<not> length (bs_reqs (sy_server y)) < chan_cap"
    using assms(1) by (auto simp: server_stuck_def)
  have loop: "\<not> server_loop C (sy_server y) l s" for l s
    using pc(2) full by (auto elim: server_loop.cases)
  have serve: "\<not> serve_step R cd (sy_serve y, sy_server y) w v" for cd w v
    using pc by (auto elim: serve_step.cases simp: server_locked_def)
  have "sy_server y' = sy_server y \<and> sy_serve y' = sy_serve y"
    using assms(2) by cases (use pc(2) loop serve in auto)
  with assms(1) show ?thesis by (simp add: server_stuck_def)
qed

definition demo_stuck :: ipc_sys where
  "demo_stuck = the (ipc_run silent_codec only_empty
     ([DoRequest status_request, DoServerRead, DoServerTau, DoServerTau, DoServe empty_report]
      @ concat (replicate 16 [DoRequest status_request, DoServerRead, DoServerTau, DoServerTau])
      @ [DoRequest status_request, DoServerRead, DoServerTau]) ipc_start)"

text \<open>A client that sends eighteen requests without reading is enough.\<close>

lemma server_stuck_reachable: "ipc_reach silent_codec only_empty demo_stuck \<and> server_stuck demo_stuck"
proof
  show "ipc_reach silent_codec only_empty demo_stuck"
    unfolding demo_stuck_def by (intro ipc_run_the ipc_reach.init) code_simp
  have "(case sy_serve demo_stuck of VHandle _ \<Rightarrow> True | _ \<Rightarrow> False)
    \<and> (case bs_pc (sy_server demo_stuck) of SSend _ \<Rightarrow> True | _ \<Rightarrow> False)
    \<and> length (bs_reqs (sy_server demo_stuck)) = 16" by code_simp
  then show "server_stuck demo_stuck"
    by (auto simp: server_stuck_def chan_cap_def split: serve_pc.splits server_pc.splits)
qed

text \<open>
  The read loop of \<open>BasePeer\<close> falls through: a notification is also dispatched as a request with the
  identifier zero, which \<open>Respond\<close> refuses to answer, so that the next one is answered with an error.
\<close>

lemma peer_notification_is_request:
  assumes "parse_frame C p = Inr p'" and "p_Id p' = 0" and "\<not> IsResponse (p_Method p')"
  shows "\<exists>c1 c2 c3 c4. peer_loop C NewBasePeer (LRead (Inr p)) c1 \<and> peer_loop C c1 LTau c2
    \<and> peer_loop C c2 LTau c3 \<and> peer_loop C c3 LTau c4 \<and> bp_notifs c4 = [p'] \<and> bp_reqs c4 = [p']
    \<and> map_of (bp_inbox c4) 0 = Some () \<and> fst (peer_Respond res None c4) \<noteq> None
    \<and> fst (peer_dispatchReq p' None c4) = Some (inFlight 0)"
proof -
  let ?c1 = "NewBasePeer\<lparr>bp_pc := PNotify p'\<rparr>"
  let ?c2 = "NewBasePeer\<lparr>bp_notifs := [p'], bp_pc := PDispatch p'\<rparr>"
  let ?c3 = "NewBasePeer\<lparr>bp_notifs := [p'], bp_inbox := [(0, ())], bp_pc := PSend p'\<rparr>"
  let ?c4 = "NewBasePeer\<lparr>bp_notifs := [p'], bp_reqs := [p'], bp_inbox := [(0, ())], bp_pc := PRead\<rparr>"
  have "peer_got C (Inr p) NewBasePeer = ?c1" using assms by (simp add: peer_got_def)
  then have "peer_loop C NewBasePeer (LRead (Inr p)) ?c1"
    using peer_loop.p_read [of NewBasePeer C "Inr p"] by (simp add: NewBasePeer_def)
  moreover have "peer_loop C ?c1 LTau ?c2"
    using peer_loop.p_notify [of ?c1 p' C] assms(3) by (simp add: NewBasePeer_def chan_cap_def peer_after_notify_def)
  moreover have "peer_loop C ?c2 LTau ?c3"
    using peer_loop.p_dispatch [of ?c2 p' None None ?c3 C] assms(2)
    by (simp add: peer_dispatchReq_def ib_dispatch_def NewBasePeer_def)
  moreover have "peer_loop C ?c3 LTau ?c4"
    using peer_loop.p_send [of ?c3 p' C] by (simp add: NewBasePeer_def chan_cap_def)
  moreover have "fst (peer_Respond res None ?c4) \<noteq> None \<or> p_Id res = 0" if "p_Id res \<noteq> 0"
    using that by (simp add: peer_Respond_def ib_Respond_def)
  then have "fst (peer_Respond res None ?c4) \<noteq> None"
    by (cases "p_Id res = 0") (auto simp: peer_Respond_def ib_Respond_def)
  moreover have "fst (peer_dispatchReq p' None ?c4) = Some (inFlight 0)"
    using assms(2) by (simp add: peer_dispatchReq_def ib_dispatch_def)
  ultimately show ?thesis by (intro exI [of _ ?c1] exI [of _ ?c2] exI [of _ ?c3] exI [of _ ?c4]) simp
qed

text \<open>
  A client whose read loop has ended, for instance on a body it cannot decode, still sends: the channel
  it returns is never answered and never closed.
\<close>

lemma request_after_end_hangs:
  assumes "bc_pc c = CEnded" and "client_Request req None c = (Inr ch, w, c1)" and "client_loop C c1 l c2"
  shows False
proof -
  have "bc_pc c1 = CEnded" using assms(1,2) by (auto simp: client_Request_def split: if_splits prod.splits)
  with assms(3) show False by (auto elim: client_loop.cases)
qed

end
