(* ===== verification/Ctl_Spec.thy ===== *)
theory Ctl_Spec
  imports Ipc_Spec Engine_Spec
begin

text \<open>The status report, in every world the engine can reach, and the status call that asks for it.\<close>

lemma sort_key_distinct:
  assumes "distinct (map f xs)"
  shows "sorted_wrt (<) (map f (sort_key f xs))"
proof -
  have "distinct (map f (sort_key f xs))"
    using assms by (metis distinct_map distinct_sort set_sort)
  moreover have "sorted (map f (sort_key f xs))" by simp
  ultimately show ?thesis by (simp add: strict_sorted_iff)
qed

lemma table_values:
  assumes "gomap_ok m" and "\<And>n i. map_of m n = Some i \<Longrightarrow> name i = n"
  shows "distinct (map name (map snd m))" and "i \<in> set (map snd m) \<longleftrightarrow> map_of m (name i) = Some i"
proof -
  have mem: "name (snd x) = fst x" if "x \<in> set m" for x
    by (rule assms(2)) (use that assms(1) in \<open>simp add: gomap_mem_iff [symmetric]\<close>)
  then have keys: "map name (map snd m) = map fst m" by (simp add: map_eq_conv)
  show "distinct (map name (map snd m))" unfolding keys using assms(1) by (simp add: gomap_ok_def)
  show "i \<in> set (map snd m) \<longleftrightarrow> map_of m (name i) = Some i"
    using assms by (metis gomap_values_iff)
qed

text \<open>
  C35. The status report names exactly the registered targets and frontends, each once and in the order of
  their names, every entry is the state of the target or frontend registered under that name, and the
  endpoints of a target are all of its endpoints in the order of their names.
\<close>

theorem status_reports_engine:
  assumes "engine_reach K w" and r_def: "r = statusResponse terr ferr w"
  shows "sr_Closed r = w_closed w
    \<and> sorted_wrt (<) (map ts_Name (sr_Targets r)) \<and> sorted_wrt (<) (map fs_Name (sr_Frontends r))
    \<and> set (sr_Targets r) = {target_status terr (w_tgt w i) | i. map_of (w_targets w) (t_name (w_tgt w i)) = Some i}
    \<and> set (sr_Frontends r) =
        {frontend_status ferr (w_tgt w) (w_fe w j) | j. map_of (w_frontends w) (f_name (w_fe w j)) = Some j}
    \<and> (\<forall>t. sorted (map tei_Name (ts_Endpoints (target_status terr t)))
         \<and> mset (ts_Endpoints (target_status terr t)) = mset (map endpoint_info (target_Endpoints t)))"
proof -
  have ok: "tables_ok w" by (rule cdp.world_okD(2) [OF engine_reach_ok [OF assms(1)]])
  have tn: "ts_Name (target_status terr t) = t_name t" for t by (simp add: target_status_def)
  have fn: "fs_Name (frontend_status ferr tg f) = f_name f" for tg f by (simp add: frontend_status_def)
  have tv: "distinct (map (\<lambda>i. t_name (w_tgt w i)) (map snd (w_targets w)))"
    "i \<in> set (map snd (w_targets w)) \<longleftrightarrow> map_of (w_targets w) (t_name (w_tgt w i)) = Some i" for i
    using table_values [of "w_targets w" "\<lambda>i. t_name (w_tgt w i)"] ok by (simp_all add: tables_ok_def)
  have fv: "distinct (map (\<lambda>i. f_name (w_fe w i)) (map snd (w_frontends w)))"
    "i \<in> set (map snd (w_frontends w)) \<longleftrightarrow> map_of (w_frontends w) (f_name (w_fe w i)) = Some i" for i
    using table_values [of "w_frontends w" "\<lambda>i. f_name (w_fe w i)"] ok by (simp_all add: tables_ok_def)
  have "sorted_wrt (<) (map t_name (sort_key t_name (map (w_tgt w) (engine_Targets w))))"
    by (rule sort_key_distinct) (use tv(1) in \<open>simp add: engine_Targets_def comp_def\<close>)
  then have "sorted_wrt (<) (map ts_Name (sr_Targets r))"
    by (simp add: r_def statusResponse_def comp_def tn target_Name_def [abs_def])
  moreover have "sorted_wrt (<) (map f_name (sort_key f_name (map (w_fe w) (engine_Frontends w))))"
    by (rule sort_key_distinct) (use fv(1) in \<open>simp add: engine_Frontends_def comp_def\<close>)
  then have "sorted_wrt (<) (map fs_Name (sr_Frontends r))"
    by (simp add: r_def statusResponse_def comp_def fn frontend_Name_def [abs_def])
  moreover have "set (sr_Targets r) = {target_status terr (w_tgt w i) | i. i \<in> set (map snd (w_targets w))}"
    by (auto simp: r_def statusResponse_def engine_Targets_def)
  moreover have "set (sr_Frontends r) = {frontend_status ferr (w_tgt w) (w_fe w j) | j. j \<in> set (map snd (w_frontends w))}"
    by (auto simp: r_def statusResponse_def engine_Frontends_def)
  moreover have "sorted (map tei_Name (ts_Endpoints (target_status terr t)))
      \<and> mset (ts_Endpoints (target_status terr t)) = mset (map endpoint_info (target_Endpoints t))" for t
    by (simp add: target_status_def endpoint_info_def comp_def)
  ultimately show ?thesis unfolding tv(2) fv(2) by (simp add: r_def statusResponse_def)
qed

theorem status_reports_engine_witness:
  "set (sr_Targets (statusResponse (\<lambda>_. '''') (\<lambda>_. '''') demo_world)) =
     {target_status (\<lambda>_. '''') (w_tgt demo_world i) | i. map_of (w_targets demo_world) (t_name (w_tgt demo_world i)) = Some i}"
  using status_reports_engine [OF demo_world_reach refl, of "\<lambda>_. ''''" "\<lambda>_. ''''"] by blast

section \<open>A status call\<close>

text \<open>
  A status call of \<open>proxygwctl\<close> returns a report, never a refusal or an unexpected message: whatever
  else is under way on the connection, when the channel of a status request holds a packet it is made of
  a report with which the server answered that request, one it may give, as the codec transmits it.
\<close>

theorem status_call_returns_report:
  assumes "ipc_reach C R y" and "ch < ob_next (bc_outbox (sy_client y))"
    and "sy_req y ch = MakePacket i StatusRequest"
    and "rc_buf (ob_chans (bc_outbox (sy_client y)) ch) = res # rest"
    and typed: "\<And>raw z b. cd_Unmarshal C raw z = Inr b \<Longrightarrow> body_Method b = body_Method z"
  shows "\<exists>rep got. R rep \<and> StatusRequest_result (Some res) = Inr got
    \<and> cd_Unmarshal C (cd_Marshal C (ValBody (StatusResponse rep))) (StatusResponse empty_report) = Inr (StatusResponse got)"
proof -
  obtain rep req where rep: "R rep" and req: "parse_frame C (frame_of C (MakePacket i StatusRequest)) = Inr req"
    and res: "parse_frame C (frame_of C (server_answer rep req)) = Inr res"
    using answer_in_channel [OF assms(1,2,4)] assms(3) by auto
  obtain b0 where b0: "p_Body req = PtrBody b0" "cd_Unmarshal C (cd_Marshal C (ValBody StatusRequest)) StatusRequest = Inr b0"
    using req by (auto simp: parse_frame_def frame_of_def MakePacket_def ParseRawBody_def zero_body_def
        method_numbers split: sum.splits)
  then have "p_Body req = PtrBody StatusRequest" using typed [OF b0(2)] body_Method_eq(1) by simp
  then have "server_answer rep req = MakePacket (p_Id req) (StatusResponse rep)" by (simp add: server_answer_def)
  with res obtain b where b: "p_Body res = PtrBody b"
    "cd_Unmarshal C (cd_Marshal C (ValBody (StatusResponse rep))) (StatusResponse empty_report) = Inr b"
    by (auto simp: parse_frame_def frame_of_def MakePacket_def ParseRawBody_def zero_body_def empty_report_def
        method_numbers split: sum.splits)
  moreover obtain got where "b = StatusResponse got" using typed [OF b(2)] body_Method_eq(2) by auto
  ultimately show ?thesis using rep by (auto simp: StatusRequest_result_def)
qed

theorem status_call_returns_report_witness:
  "StatusRequest_result (Some \<lparr>p_Id = 1, p_Method = MethodStatusResponse, p_Body = PtrBody (StatusResponse empty_report)\<rparr>)
     = Inr empty_report"
proof -
  have "sy_req demo_call 0 = MakePacket 1 StatusRequest" by code_simp
  from status_call_returns_report [OF demo_call_reach _ this] demo_call_values show ?thesis
    by (auto simp: silent_codec_def)
qed

end
