(* ===== verification/Go_Json.thy ===== *)
theory Go_Json
  imports Config_Validate "HOL-Library.List_Lexorder" "HOL-Library.Char_ord"
begin

text \<open>
  The part of Go's \<open>encoding/json\<close> that the control protocol uses: JSON values, the text \<open>Marshal\<close>
  writes for them and the grammar \<open>Unmarshal\<close> and \<open>Decoder\<close> read. Text is a \<^typ>\<open>string\<close> with one
  \<^typ>\<open>char\<close> for each byte. What is written is read back: \<open>p_value_print\<close>.
\<close>

section \<open>UTF-8\<close>

definition byte_of :: "char \<Rightarrow> nat" where
  "byte_of c = of_char c"

definition in_range :: "nat \<Rightarrow> nat \<Rightarrow> char \<Rightarrow> bool" where
  "in_range lo hi c \<longleftrightarrow> lo \<le> byte_of c \<and> byte_of c \<le> hi"

text \<open>The length of the rune a text begins with, 0 if its first bytes are not the encoding of one.\<close>

definition lead2 :: "char \<Rightarrow> char \<Rightarrow> bool" where
  "lead2 a b \<longleftrightarrow> in_range 0xC2 0xDF a \<and> in_range 0x80 0xBF b"

definition lead3 :: "char \<Rightarrow> char \<Rightarrow> char \<Rightarrow> bool" where
  "lead3 a b c \<longleftrightarrow> in_range 0x80 0xBF c \<and>
     (byte_of a = 0xE0 \<and> in_range 0xA0 0xBF b \<or> byte_of a = 0xED \<and> in_range 0x80 0x9F b
      \<or> in_range 0xE1 0xEF a \<and> byte_of a \<noteq> 0xED \<and> in_range 0x80 0xBF b)"

definition lead4 :: "char \<Rightarrow> char \<Rightarrow> char \<Rightarrow> char \<Rightarrow> bool" where
  "lead4 a b c d \<longleftrightarrow> in_range 0x80 0xBF c \<and> in_range 0x80 0xBF d \<and>
     (byte_of a = 0xF0 \<and> in_range 0x90 0xBF b \<or> byte_of a = 0xF4 \<and> in_range 0x80 0x8F b
      \<or> in_range 0xF1 0xF3 a \<and> in_range 0x80 0xBF b)"

fun rune_len :: "string \<Rightarrow> nat" where
  "rune_len [] = 0"
| "rune_len [a] = (if byte_of a < 128 then 1 else 0)"
| "rune_len [a, b] = (if byte_of a < 128 then 1 else if lead2 a b then 2 else 0)"
| "rune_len [a, b, c] = (if byte_of a < 128 then 1 else if lead2 a b then 2 else if lead3 a b c then 3 else 0)"
| "rune_len (a # b # c # d # s) =
     (if byte_of a < 128 then 1 else if lead2 a b then 2 else if lead3 a b c then 3
      else if lead4 a b c d then 4 else 0)"

lemma rune_len_le: "rune_len s \<le> length s"
  by (cases s rule: rune_len.cases) auto

function valid_utf8 :: "string \<Rightarrow> bool" where
  "valid_utf8 s =
     (if s = [] then True else if rune_len s = 0 then False else valid_utf8 (drop (rune_len s) s))"
  by pat_completeness auto
termination by (relation "measure length") auto

declare valid_utf8.simps [simp del]

text \<open>The encoding of a rune, and of U+FFFD for what is not one.\<close>

definition replacement :: string where
  "replacement = [CHR 0xEF, CHR 0xBF, CHR 0xBD]"

definition utf8_encode :: "nat \<Rightarrow> string" where
  "utf8_encode r =
     (if r < 0x80 then [char_of r]
      else if r < 0x800 then [char_of (0xC0 + r div 64), char_of (0x80 + r mod 64)]
      else if 0xD800 \<le> r \<and> r < 0xE000 \<or> 0x10FFFF < r then replacement
      else if r < 0x10000 then
        [char_of (0xE0 + r div 4096), char_of (0x80 + r div 64 mod 64), char_of (0x80 + r mod 64)]
      else [char_of (0xF0 + r div 262144), char_of (0x80 + r div 4096 mod 64),
            char_of (0x80 + r div 64 mod 64), char_of (0x80 + r mod 64)])"

section \<open>Strings\<close>

definition hex_char :: "nat \<Rightarrow> char" where
  "hex_char n = (if n < 10 then char_of (48 + n) else char_of (87 + n))"

definition hex_val :: "char \<Rightarrow> nat option" where
  "hex_val c =
     (if in_range 48 57 c then Some (byte_of c - 48)
      else if in_range 97 102 c then Some (byte_of c - 87)
      else if in_range 65 70 c then Some (byte_of c - 55)
      else None)"

abbreviation (input) quote_char :: char where "quote_char \<equiv> CHR 0x22"
abbreviation (input) backslash :: char where "backslash \<equiv> CHR 0x5C"

text \<open>One byte below 128 as \<open>Marshal\<close> writes it, the characters of HTML escaped.\<close>

definition escape_ascii :: "char \<Rightarrow> string" where
  "escape_ascii c =
     (if c = quote_char \<or> c = backslash then [backslash, c]
      else if c = CHR 0x08 then [backslash, CHR ''b'']
      else if c = CHR 0x0C then [backslash, CHR ''f'']
      else if c = CHR 0x0A then [backslash, CHR ''n'']
      else if c = CHR 0x0D then [backslash, CHR ''r'']
      else if c = CHR 0x09 then [backslash, CHR ''t'']
      else if byte_of c < 32 \<or> c = CHR ''<'' \<or> c = CHR ''>'' \<or> c = CHR ''&'' then
        [backslash, CHR ''u'', CHR ''0'', CHR ''0'', hex_char (byte_of c div 16), hex_char (byte_of c mod 16)]
      else [c])"

text \<open>The next rune of a nonempty text as it is written, and what is left; a stray byte becomes U+FFFD.\<close>

definition quote_step :: "string \<Rightarrow> string \<times> string" where
  "quote_step s =
     (let n = rune_len s
      in if n = 0 then (backslash # ''ufffd'', tl s)
         else if n = 1 then (escape_ascii (hd s), tl s)
         else if take n s = [CHR 0xE2, CHR 0x80, CHR 0xA8] then (backslash # ''u2028'', drop n s)
         else if take n s = [CHR 0xE2, CHR 0x80, CHR 0xA9] then (backslash # ''u2029'', drop n s)
         else (take n s, drop n s))"

lemma quote_step_shorter: "s \<noteq> [] \<Longrightarrow> length (snd (quote_step s)) < length s"
  by (cases s) (auto simp: quote_step_def Let_def)

function quote_body :: "string \<Rightarrow> string" where
  "quote_body s = (if s = [] then [] else fst (quote_step s) @ quote_body (snd (quote_step s)))"
  by pat_completeness auto
termination by (relation "measure length") (auto simp: quote_step_shorter)

declare quote_body.simps [simp del]

definition json_quote :: "string \<Rightarrow> string" where
  "json_quote s = quote_char # quote_body s @ [quote_char]"

text \<open>Reading: four hexadecimal digits, an escape after its backslash, the next element of a string.\<close>

definition hex4 :: "string \<Rightarrow> (nat \<times> string) option" where
  "hex4 s =
     (case s of
        a # b # c # d # r \<Rightarrow>
          (case (hex_val a, hex_val b, hex_val c, hex_val d) of
             (Some a, Some b, Some c, Some d) \<Rightarrow> Some (a * 4096 + b * 256 + c * 16 + d, r)
           | _ \<Rightarrow> None)
      | _ \<Rightarrow> None)"

text \<open>A surrogate must be followed by the other half of its pair.\<close>

definition second_half :: "nat \<Rightarrow> string \<Rightarrow> (nat \<times> string) option" where
  "second_half r s =
     (case s of
        x # y # s1 \<Rightarrow>
          if x = backslash \<and> y = CHR ''u'' then
            (case hex4 s1 of
               Some (r2, s2) \<Rightarrow>
                 if r < 0xDC00 \<and> 0xDC00 \<le> r2 \<and> r2 < 0xE000
                 then Some (0x10000 + (r - 0xD800) * 1024 + (r2 - 0xDC00), s2) else None
             | None \<Rightarrow> None)
          else None
      | _ \<Rightarrow> None)"

definition unescape_rune :: "nat \<Rightarrow> string \<Rightarrow> string \<times> string" where
  "unescape_rune r s =
     (if 0xD800 \<le> r \<and> r < 0xE000
      then (case second_half r s of Some (r2, s2) \<Rightarrow> (utf8_encode r2, s2) | None \<Rightarrow> (replacement, s))
      else (utf8_encode r, s))"

definition unescape :: "string \<Rightarrow> (string \<times> string) option" where
  "unescape s =
     (case s of
        [] \<Rightarrow> None
      | c # cs \<Rightarrow>
          if c = quote_char \<or> c = backslash \<or> c = CHR 0x2F then Some ([c], cs)
          else if c = CHR ''b'' then Some ([CHR 0x08], cs)
          else if c = CHR ''f'' then Some ([CHR 0x0C], cs)
          else if c = CHR ''n'' then Some ([CHR 0x0A], cs)
          else if c = CHR ''r'' then Some ([CHR 0x0D], cs)
          else if c = CHR ''t'' then Some ([CHR 0x09], cs)
          else if c = CHR ''u'' then map_option (\<lambda>(r, s1). unescape_rune r s1) (hex4 cs)
          else None)"

definition str_step :: "string \<Rightarrow> (string \<times> string) option" where
  "str_step s =
     (case s of
        [] \<Rightarrow> None
      | c # cs \<Rightarrow>
          if c = backslash then unescape cs
          else if byte_of c < 32 then None
          else if rune_len s = 0 then Some (replacement, cs)
          else Some (take (rune_len s) s, drop (rune_len s) s))"

lemma hex4_shorter: "hex4 s = Some (r, t) \<Longrightarrow> length t < length s"
  by (auto simp: hex4_def split: list.splits option.splits prod.splits)

lemma unescape_shorter: "unescape s = Some (out, t) \<Longrightarrow> length t < length s"
  by (auto simp: unescape_def unescape_rune_def second_half_def dest!: hex4_shorter
      split: list.splits if_splits option.splits)

lemma str_step_shorter: "str_step s = Some (out, t) \<Longrightarrow> length t < length s"
  by (cases s) (auto simp: str_step_def dest: unescape_shorter split: if_splits)

text \<open>A string after its opening quote.\<close>

function p_string :: "string \<Rightarrow> (string \<times> string) option" where
  "p_string s =
     (if s \<noteq> [] \<and> hd s = quote_char then Some ([], tl s)
      else case str_step s of
        None \<Rightarrow> None
      | Some (out, r) \<Rightarrow> map_option (\<lambda>(t, r'). (out @ t, r')) (p_string r))"
  by pat_completeness auto
termination by (relation "measure length") (auto dest: str_step_shorter)

declare p_string.simps [simp del]

section \<open>Numbers\<close>

definition p_frac :: "string \<Rightarrow> (string \<times> string) option" where
  "p_frac s =
     (if s \<noteq> [] \<and> hd s = CHR ''.'' then
        (let ds = takeWhile is_digit (tl s)
         in if ds = [] then None else Some (CHR ''.'' # ds, dropWhile is_digit (tl s)))
      else Some ([], s))"

definition p_sign :: "char set \<Rightarrow> string \<Rightarrow> string \<times> string" where
  "p_sign S s = (if s \<noteq> [] \<and> hd s \<in> S then ([hd s], tl s) else ([], s))"

definition p_exp :: "string \<Rightarrow> (string \<times> string) option" where
  "p_exp s =
     (if s \<noteq> [] \<and> hd s \<in> {CHR ''e'', CHR ''E''} then
        (let (sg, a) = p_sign {CHR ''+'', CHR ''-''} (tl s); ds = takeWhile is_digit a
         in if ds = [] then None else Some (hd s # sg @ ds, dropWhile is_digit a))
      else Some ([], s))"

definition p_int :: "string \<Rightarrow> (string \<times> string) option" where
  "p_int s =
     (if s \<noteq> [] \<and> hd s = CHR ''0'' then Some (''0'', tl s)
      else let ds = takeWhile is_digit s in if ds = [] then None else Some (ds, dropWhile is_digit s))"

definition p_number :: "string \<Rightarrow> (string \<times> string) option" where
  "p_number s =
     (let (sg, a) = p_sign {CHR ''-''} s
      in case p_int a of
           None \<Rightarrow> None
         | Some (ip, b) \<Rightarrow>
             (case p_frac b of
                None \<Rightarrow> None
              | Some (fp, c) \<Rightarrow> map_option (\<lambda>(ep, d). (sg @ ip @ fp @ ep, d)) (p_exp c)))"

section \<open>Values\<close>

text \<open>A number is its literal; an object is its members in order, with whatever keys occur twice.\<close>

datatype json = JNull | JBool bool | JNumber string | JString string | JArray "json list"
  | JObject "(string \<times> json) list"

fun commas :: "string list \<Rightarrow> string" where
  "commas [] = []"
| "commas [x] = x"
| "commas (x # y # xs) = x @ '','' @ commas (y # xs)"

fun print_json :: "json \<Rightarrow> string" where
  "print_json JNull = ''null''"
| "print_json (JBool True) = ''true''"
| "print_json (JBool False) = ''false''"
| "print_json (JNumber l) = l"
| "print_json (JString s) = json_quote s"
| "print_json (JArray vs) = ''['' @ commas (map print_json vs) @ '']''"
| "print_json (JObject kvs) = ''{'' @ commas (map (\<lambda>(k, v). json_quote k @ '':'' @ print_json v) kvs) @ ''}''"

definition is_ws :: "char \<Rightarrow> bool" where
  "is_ws c \<longleftrightarrow> c \<in> {CHR 0x20, CHR 0x09, CHR 0x0A, CHR 0x0D}"

definition skip_ws :: "string \<Rightarrow> string" where
  "skip_ws s = dropWhile is_ws s"

definition next_is :: "char \<Rightarrow> string \<Rightarrow> string option" where
  "next_is c s = (let t = skip_ws s in if t \<noteq> [] \<and> hd t = c then Some (tl t) else None)"

definition strip :: "string \<Rightarrow> string \<Rightarrow> string option" where
  "strip p s = (if take (length p) s = p then Some (drop (length p) s) else None)"

text \<open>
  The first argument is fuel, the length of the text plus one being enough; the second is the nesting
  that is left, of which the scanner allows 10000. The key of a member is read with its colon.
\<close>

definition p_key :: "string \<Rightarrow> (string \<times> string) option" where
  "p_key s =
     (case next_is quote_char s of
        None \<Rightarrow> None
      | Some s1 \<Rightarrow>
          (case p_string s1 of
             None \<Rightarrow> None
           | Some (k, s2) \<Rightarrow> map_option (Pair k) (next_is (CHR '':'') s2)))"

fun p_value :: "nat \<Rightarrow> nat \<Rightarrow> string \<Rightarrow> (json \<times> string) option"
  and p_elems :: "nat \<Rightarrow> nat \<Rightarrow> string \<Rightarrow> (json list \<times> string) option"
  and p_members :: "nat \<Rightarrow> nat \<Rightarrow> string \<Rightarrow> ((string \<times> json) list \<times> string) option" where
  "p_value 0 d s = None"
| "p_value (Suc n) d s =
     (case skip_ws s of
        [] \<Rightarrow> None
      | c # cs \<Rightarrow>
          if c = quote_char then map_option (\<lambda>(t, r). (JString t, r)) (p_string cs)
          else if c = CHR ''['' then
            (case d of
               0 \<Rightarrow> None
             | Suc d' \<Rightarrow>
                 (case next_is (CHR '']'') cs of
                    Some r \<Rightarrow> Some (JArray [], r)
                  | None \<Rightarrow> map_option (\<lambda>(vs, r). (JArray vs, r)) (p_elems n d' cs)))
          else if c = CHR ''{'' then
            (case d of
               0 \<Rightarrow> None
             | Suc d' \<Rightarrow>
                 (case next_is (CHR ''}'') cs of
                    Some r \<Rightarrow> Some (JObject [], r)
                  | None \<Rightarrow> map_option (\<lambda>(kvs, r). (JObject kvs, r)) (p_members n d' cs)))
          else if c = CHR ''t'' then map_option (Pair (JBool True)) (strip ''rue'' cs)
          else if c = CHR ''f'' then map_option (Pair (JBool False)) (strip ''alse'' cs)
          else if c = CHR ''n'' then map_option (Pair JNull) (strip ''ull'' cs)
          else map_option (\<lambda>(l, r). (JNumber l, r)) (p_number (c # cs)))"
| "p_elems 0 d s = None"
| "p_elems (Suc n) d s =
     (case p_value n d s of
        None \<Rightarrow> None
      | Some (v, r) \<Rightarrow>
          (case next_is (CHR '','') r of
             Some r' \<Rightarrow> map_option (\<lambda>(vs, r''). (v # vs, r'')) (p_elems n d r')
           | None \<Rightarrow> map_option (Pair [v]) (next_is (CHR '']'') r)))"
| "p_members 0 d s = None"
| "p_members (Suc n) d s =
     (case p_key s of
        None \<Rightarrow> None
      | Some (k, s1) \<Rightarrow>
          (case p_value n d s1 of
             None \<Rightarrow> None
           | Some (v, r) \<Rightarrow>
               (case next_is (CHR '','') r of
                  Some r' \<Rightarrow> map_option (\<lambda>(kvs, r''). ((k, v) # kvs, r'')) (p_members n d r')
                | None \<Rightarrow> map_option (Pair [(k, v)]) (next_is (CHR ''}'') r))))"

definition max_nesting :: nat where
  "max_nesting = 10000"

definition parse_json :: "string \<Rightarrow> (json \<times> string) option" where
  "parse_json s = p_value (Suc (length s)) max_nesting s"

text \<open>A whole text, as \<open>Unmarshal\<close> wants it.\<close>

definition parse_text :: "string \<Rightarrow> json option" where
  "parse_text s = (case parse_json s of Some (v, r) \<Rightarrow> if skip_ws r = [] then Some v else None | None \<Rightarrow> None)"


section \<open>What is written is read back\<close>

subsection \<open>Strings\<close>

lemma hex_val_char [simp]: "n < 16 \<Longrightarrow> hex_val (hex_char n) = Some n"
  by (auto simp: hex_val_def hex_char_def in_range_def byte_of_def)

lemma byte_of_less: "byte_of c < 256"
  by (simp add: byte_of_def of_char_def)

lemma char_of_byte_of [simp]: "char_of (byte_of c) = c"
  by (simp add: byte_of_def)

lemma hex4_byte:
  assumes "byte_of c < 128"
  shows "hex4 (CHR ''0'' # CHR ''0'' # hex_char (byte_of c div 16) # hex_char (byte_of c mod 16) # r) = Some (byte_of c, r)"
proof -
  have "hex_val (CHR ''0'') = Some 0" by (simp add: hex_val_def in_range_def byte_of_def)
  then show ?thesis using assms by (simp add: hex4_def)
qed

lemma escape_special:
  "str_step (escape_ascii quote_char @ r) = Some ([quote_char], r) \<and> hd (escape_ascii quote_char @ r) \<noteq> quote_char"
  "str_step (escape_ascii backslash @ r) = Some ([backslash], r) \<and> hd (escape_ascii backslash @ r) \<noteq> quote_char"
  "str_step (escape_ascii (CHR 0x08) @ r) = Some ([(CHR 0x08)], r) \<and> hd (escape_ascii (CHR 0x08) @ r) \<noteq> quote_char"
  "str_step (escape_ascii (CHR 0x0C) @ r) = Some ([(CHR 0x0C)], r) \<and> hd (escape_ascii (CHR 0x0C) @ r) \<noteq> quote_char"
  "str_step (escape_ascii (CHR 0x0A) @ r) = Some ([(CHR 0x0A)], r) \<and> hd (escape_ascii (CHR 0x0A) @ r) \<noteq> quote_char"
  "str_step (escape_ascii (CHR 0x0D) @ r) = Some ([(CHR 0x0D)], r) \<and> hd (escape_ascii (CHR 0x0D) @ r) \<noteq> quote_char"
  "str_step (escape_ascii (CHR 0x09) @ r) = Some ([(CHR 0x09)], r) \<and> hd (escape_ascii (CHR 0x09) @ r) \<noteq> quote_char"
  by (simp_all add: escape_ascii_def str_step_def unescape_def)

lemma unescape_ascii:
  assumes "byte_of c < 128"
  shows "str_step (escape_ascii c @ r) = Some ([c], r) \<and> hd (escape_ascii c @ r) \<noteq> quote_char"
proof -
  have plain: "rune_len (c # r) = 1"
    using assms by (cases "c # r" rule: rune_len.cases) auto
  have bs: "unescape (CHR ''u'' # CHR ''0'' # CHR ''0'' # hex_char (byte_of c div 16) # hex_char (byte_of c mod 16) # r)
      = Some ([c], r)"
    using assms by (simp add: unescape_def hex4_byte unescape_rune_def utf8_encode_def)
  let ?S = "{quote_char, backslash, CHR 0x08, CHR 0x0C, CHR 0x0A, CHR 0x0D, CHR 0x09}"
  let ?u = "byte_of c < 32 \<or> c = CHR ''<'' \<or> c = CHR ''>'' \<or> c = CHR ''&''"
  show ?thesis
  proof (cases "c \<in> ?S")
    case True
    then show ?thesis by (elim insertE emptyE) (simp_all add: escape_special)
  next
    case special: False
    show ?thesis
    proof (cases ?u)
      case True
      with special have "escape_ascii c = [backslash, CHR ''u'', CHR ''0'', CHR ''0'', hex_char (byte_of c div 16), hex_char (byte_of c mod 16)]"
        by (simp add: escape_ascii_def)
      then show ?thesis using bs by (simp add: str_step_def)
    next
      case False
      with special have "escape_ascii c = [c]" by (simp add: escape_ascii_def)
      then show ?thesis using plain special False by (simp add: str_step_def)
    qed
  qed
qed

text \<open>The rune at the front of a text does not depend on what follows it.\<close>

lemma rune_len_intros [simp]:
  "byte_of a < 128 \<Longrightarrow> rune_len (a # t) = 1"
  "lead2 a b \<Longrightarrow> rune_len (a # b # t) = 2"
  "lead3 a b c \<Longrightarrow> rune_len (a # b # c # t) = 3"
  "lead4 a b c d \<Longrightarrow> rune_len (a # b # c # d # t) = 4"
proof -
  show "byte_of a < 128 \<Longrightarrow> rune_len (a # t) = 1" by (cases "a # t" rule: rune_len.cases) auto
  show "lead2 a b \<Longrightarrow> rune_len (a # b # t) = 2"
    by (cases "a # b # t" rule: rune_len.cases) (auto simp: lead2_def in_range_def)
  show "lead3 a b c \<Longrightarrow> rune_len (a # b # c # t) = 3"
    by (cases "a # b # c # t" rule: rune_len.cases) (auto simp: lead2_def lead3_def in_range_def)
  assume l: "lead4 a b c d"
  then have "240 \<le> byte_of a" by (auto simp: lead4_def in_range_def)
  then have "\<not> byte_of a < 128" "\<not> lead2 a b" "\<not> lead3 a b c" by (auto simp: lead2_def lead3_def in_range_def)
  with l show "rune_len (a # b # c # d # t) = 4" by simp
qed

declare rune_len.simps [simp del]

lemma rune_len_cases:
  assumes "rune_len s \<noteq> 0"
  obtains a t where "s = a # t" and "byte_of a < 128"
  | a b t where "s = a # b # t" and "lead2 a b"
  | a b c t where "s = a # b # c # t" and "lead3 a b c"
  | a b c d t where "s = a # b # c # d # t" and "lead4 a b c d"
  using assms by (cases s rule: rune_len.cases) (auto simp: rune_len.simps split: if_splits)

lemma lead_not_special:
  "lead2 a b \<or> lead3 a b c \<or> lead4 a b c d \<Longrightarrow> a \<noteq> quote_char \<and> a \<noteq> backslash \<and> \<not> byte_of a < 32"
  by (auto simp: lead2_def lead3_def lead4_def in_range_def byte_of_def)

lemma separator_bytes [simp]:
  "char_of (226::nat) = CHR 0xE2" "char_of (128::nat) = CHR 0x80"
  "char_of (168::nat) = CHR 0xA8" "char_of (169::nat) = CHR 0xA9"
  by code_simp+

lemma line_separators:
  "str_step (backslash # ''u2028'' @ r) = Some ([CHR 0xE2, CHR 0x80, CHR 0xA8], r)"
  "str_step (backslash # ''u2029'' @ r) = Some ([CHR 0xE2, CHR 0x80, CHR 0xA9], r)"
  by (simp_all add: str_step_def unescape_def hex4_def hex_val_def in_range_def byte_of_def unescape_rune_def
      utf8_encode_def)

lemma multi_byte:
  assumes "rune_len s = n" and "1 < n" and "hd s \<noteq> quote_char" "hd s \<noteq> backslash" "\<not> byte_of (hd s) < 32"
    and "\<And>r. rune_len (take n s @ r) = n" and "length s \<ge> n"
  shows "str_step (fst (quote_step s) @ r) = Some (take n s, r) \<and> fst (quote_step s) \<noteq> []
    \<and> hd (fst (quote_step s)) \<noteq> quote_char \<and> snd (quote_step s) = drop n s"
proof -
  obtain a u where u: "take n s = a # u" and a: "hd s = a"
    using assms(2,7) by (cases s; cases n) auto
  have step: "str_step (take n s @ r) = Some (take n s, r)"
  proof -
    have "take n (take n s @ r) = take n s" and "drop n (take n s @ r) = r" using assms(7) by simp_all
    then show ?thesis using assms(3-5) assms(6) [of r] assms(2) u a by (simp add: str_step_def)
  qed
  show ?thesis
  proof (cases "take n s \<in> {[CHR 0xE2, CHR 0x80, CHR 0xA8], [CHR 0xE2, CHR 0x80, CHR 0xA9]}")
    case True
    then show ?thesis using assms(1,2) line_separators [of r] by (auto simp: quote_step_def)
  next
    case False
    then have "quote_step s = (take n s, drop n s)" using assms(1,2) by (simp add: quote_step_def)
    then show ?thesis using step assms(3) u a by simp
  qed
qed

lemma str_step_quote_step:
  assumes "rune_len s \<noteq> 0"
  shows "str_step (fst (quote_step s) @ r) = Some (take (rune_len s) s, r) \<and> fst (quote_step s) \<noteq> []
    \<and> hd (fst (quote_step s)) \<noteq> quote_char \<and> snd (quote_step s) = drop (rune_len s) s"
  using assms
proof (cases rule: rune_len_cases)
  case (1 a t)
  moreover have "escape_ascii a \<noteq> []" by (simp add: escape_ascii_def)
  ultimately show ?thesis using unescape_ascii [of a r] by (simp add: quote_step_def)
next
  case (2 a b t)
  then show ?thesis using multi_byte [of s 2] lead_not_special [of a b] by simp
next
  case (3 a b c t)
  then show ?thesis using multi_byte [of s 3] lead_not_special [of a b c] by simp
next
  case (4 a b c d t)
  then show ?thesis using multi_byte [of s 4] lead_not_special [of a b c d] by simp
qed

lemma p_string_quote:
  assumes "valid_utf8 s"
  shows "p_string (quote_body s @ quote_char # r) = Some (s, r)"
  using assms
proof (induction s rule: valid_utf8.induct)
  case (1 s)
  show ?case
  proof (cases "s = []")
    case True
    then show ?thesis by (simp add: quote_body.simps [of "[]"] p_string.simps)
  next
    case False
    then have n: "rune_len s \<noteq> 0" and v: "valid_utf8 (drop (rune_len s) s)"
      using "1.prems" by (auto simp: valid_utf8.simps [of s] split: if_splits)
    let ?n = "rune_len s"
    have IH: "p_string (quote_body (drop ?n s) @ quote_char # r) = Some (drop ?n s, r)"
      by (rule "1.IH" [OF False n v])
    note q = str_step_quote_step [OF n]
    have body: "quote_body s = fst (quote_step s) @ quote_body (drop ?n s)"
      using False q by (simp add: quote_body.simps [of s])
    show ?thesis
      unfolding body append_assoc
      using q [of "quote_body (drop ?n s) @ quote_char # r"] IH by (subst p_string.simps) simp
  qed
qed

subsection \<open>Numbers\<close>

text \<open>What may follow a value: nothing, or a character that is no part of a number.\<close>

definition delim :: "string \<Rightarrow> bool" where
  "delim r \<longleftrightarrow> r = [] \<or> \<not> is_digit (hd r) \<and> hd r \<notin> {CHR ''.'', CHR ''e'', CHR ''E''}"

definition number_lit :: "string \<Rightarrow> bool" where
  "number_lit l \<longleftrightarrow> p_number l = Some (l, [])"

lemma digits_append:
  assumes "delim r"
  shows "takeWhile is_digit (s @ r) = takeWhile is_digit s" and "dropWhile is_digit (s @ r) = dropWhile is_digit s @ r"
proof -
  have r: "takeWhile is_digit r = []" "dropWhile is_digit r = r"
    using assms by (cases r; simp add: delim_def)+
  show "takeWhile is_digit (s @ r) = takeWhile is_digit s" by (induction s) (simp_all add: r)
  show "dropWhile is_digit (s @ r) = dropWhile is_digit s @ r" by (induction s) (simp_all add: r)
qed

lemma p_int_append: "delim r \<Longrightarrow> p_int s = Some (x, t) \<Longrightarrow> p_int (s @ r) = Some (x, t @ r)"
  by (cases s) (auto simp: p_int_def Let_def digits_append split: if_splits)

lemma p_frac_append: "delim r \<Longrightarrow> p_frac s = Some (x, t) \<Longrightarrow> p_frac (s @ r) = Some (x, t @ r)"
  by (cases s; cases r)
    (auto simp: p_frac_def Let_def digits_append [of r, simplified] delim_def digits_append split: if_splits)

lemma p_exp_append:
  assumes "delim r" and "p_exp s = Some (x, t)"
  shows "p_exp (s @ r) = Some (x, t @ r)"
proof (cases s)
  case Nil
  then show ?thesis using assms by (cases r) (auto simp: p_exp_def delim_def)
next
  case (Cons c cs)
  show ?thesis
  proof (cases "c \<in> {CHR ''e'', CHR ''E''}")
    case True
    obtain sg a where sg: "p_sign {CHR ''+'', CHR ''-''} cs = (sg, a)" by force
    have ds: "takeWhile is_digit a \<noteq> []" and x: "x = c # sg @ takeWhile is_digit a" and t: "t = dropWhile is_digit a"
      using assms(2) True Cons sg by (auto simp: p_exp_def Let_def split: if_splits)
    have "cs \<noteq> []" using sg ds by (auto simp: p_sign_def split: if_splits)
    then have "p_sign {CHR ''+'', CHR ''-''} (cs @ r) = (sg, a @ r)"
      using sg by (auto simp: p_sign_def split: if_splits)
    then show ?thesis
      using True Cons ds x t by (simp add: p_exp_def digits_append [OF assms(1)])
  next
    case False
    with Cons assms(2) show ?thesis by (auto simp: p_exp_def)
  qed
qed

lemma p_number_append:
  assumes "delim r" and "p_number s = Some (x, t)"
  shows "p_number (s @ r) = Some (x, t @ r)"
proof -
  obtain sg a where sg: "p_sign {CHR ''-''} s = (sg, a)" by force
  with assms(2) obtain ip b fp c ep where parts: "p_int a = Some (ip, b)" "p_frac b = Some (fp, c)" "p_exp c = Some (ep, t)"
    and x: "x = sg @ ip @ fp @ ep"
    by (auto simp: p_number_def split: option.splits prod.splits)
  have "s \<noteq> []" using sg parts(1) by (auto simp: p_sign_def p_int_def)
  then have "p_sign {CHR ''-''} (s @ r) = (sg, a @ r)" using sg by (auto simp: p_sign_def split: if_splits)
  then show ?thesis
    using p_int_append [OF assms(1) parts(1)] p_frac_append [OF assms(1) parts(2)] p_exp_append [OF assms(1) parts(3)]
    by (simp add: p_number_def x)
qed

lemma zero_digit: "is_digit (CHR ''0'')"
  by (simp add: is_digit_def)

lemma number_head:
  assumes "number_lit l"
  obtains c cs where "l = c # cs" and "c = CHR ''-'' \<or> is_digit c"
proof (cases l)
  case Nil
  with assms show ?thesis by (simp add: number_lit_def p_number_def p_sign_def p_int_def)
next
  case (Cons c cs)
  moreover have "c = CHR ''-'' \<or> is_digit c"
    using assms Cons by (auto simp: number_lit_def p_number_def p_sign_def p_int_def Let_def zero_digit
        split: if_splits option.splits)
  ultimately show ?thesis using that by blast
qed

lemma sign_no_digit: "\<not> is_digit (CHR ''-'')"
  by (simp add: is_digit_def)

lemma number_lit_digits:
  assumes "s \<noteq> []" and "\<And>c. c \<in> set s \<Longrightarrow> is_digit c" and "hd s = CHR ''0'' \<Longrightarrow> tl s = []"
  shows "number_lit s"
proof -
  have all: "takeWhile is_digit s = s" "dropWhile is_digit s = []"
    using assms(2) by (simp_all add: takeWhile_eq_all_conv dropWhile_eq_Nil_conv)
  have "is_digit (hd s)" by (rule assms(2)) (simp add: assms(1))
  then have "hd s \<noteq> CHR ''-''" by (metis sign_no_digit)
  then have "p_sign {CHR ''-''} s = ([], s)" using assms(1) by (simp add: p_sign_def)
  moreover have "p_int s = Some (s, [])"
    using assms(1,3) all by (cases s) (auto simp: p_int_def)
  ultimately show ?thesis by (simp add: number_lit_def p_number_def p_frac_def p_exp_def)
qed

lemma show_nat_head: "0 < n \<Longrightarrow> hd (show_nat n) \<noteq> CHR ''0''"
proof (induction n rule: show_nat.induct)
  case (1 n)
  show ?case
  proof (cases "n < 10")
    case True
    have "(of_char (digit_char n) :: nat) \<noteq> of_char (CHR ''0'')" using True "1.prems" by simp
    then have "digit_char n \<noteq> CHR ''0''" by metis
    then show ?thesis using True by (simp add: show_nat.simps [of n])
  next
    case False
    then have "hd (show_nat (n div 10)) \<noteq> CHR ''0''" by (intro "1.IH") auto
    then show ?thesis using False by (simp add: show_nat.simps [of n])
  qed
qed

lemma number_lit_show_nat: "number_lit (show_nat n)"
proof (rule number_lit_digits)
  show "hd (show_nat n) = CHR ''0'' \<Longrightarrow> tl (show_nat n) = []"
    using show_nat_head [of n] by (cases "n = 0") (auto simp: show_nat.simps [of 0])
qed (simp_all add: show_nat_digits)

subsection \<open>Values\<close>

fun json_ok :: "json \<Rightarrow> bool" where
  "json_ok JNull = True"
| "json_ok (JBool b) = True"
| "json_ok (JNumber l) = number_lit l"
| "json_ok (JString s) = valid_utf8 s"
| "json_ok (JArray vs) = list_all json_ok vs"
| "json_ok (JObject kvs) = list_all (\<lambda>(k, v). valid_utf8 k \<and> json_ok v) kvs"

fun json_depth :: "json \<Rightarrow> nat" where
  "json_depth (JArray vs) = Suc (foldr max (map json_depth vs) 0)"
| "json_depth (JObject kvs) = Suc (foldr max (map (\<lambda>(k, v). json_depth v) kvs) 0)"
| "json_depth _ = 0"

definition print_member :: "string \<times> json \<Rightarrow> string" where
  "print_member kv = json_quote (fst kv) @ '':'' @ print_json (snd kv)"

lemma print_member_pair [simp]: "print_member (k, v) = json_quote k @ '':'' @ print_json v"
  by (simp add: print_member_def)

lemma print_object: "print_json (JObject kvs) = ''{'' @ commas (map print_member kvs) @ ''}''"
  by (simp add: print_member_def [abs_def] case_prod_unfold)

lemma skip_ws_id [simp]: "\<not> is_ws c \<Longrightarrow> skip_ws (c # cs) = c # cs"
  by (simp add: skip_ws_def)

lemma next_is_Cons [simp]: "\<not> is_ws x \<Longrightarrow> next_is c (x # s) = (if x = c then Some s else None)"
  by (simp add: next_is_def)

lemma commas_Cons: "commas (x # xs) = x @ (if xs = [] then [] else '','' @ commas xs)"
  by (cases xs) simp_all

definition value_start :: "char \<Rightarrow> bool" where
  "value_start c \<longleftrightarrow> \<not> is_ws c \<and> c \<notin> {CHR '','', CHR '']'', CHR ''}''}"

lemma digit_start: "is_digit c \<Longrightarrow> value_start c \<and> c \<notin> {quote_char, CHR ''['', CHR ''{'', CHR ''t'', CHR ''f'', CHR ''n''}"
  by (auto simp: value_start_def is_ws_def is_digit_def)

lemma number_start:
  assumes "c = CHR ''-'' \<or> is_digit c"
  shows "value_start c \<and> c \<notin> {quote_char, CHR ''['', CHR ''{'', CHR ''t'', CHR ''f'', CHR ''n''}"
  using assms
proof
  assume "c = CHR ''-''"
  then show ?thesis by (simp add: value_start_def is_ws_def)
qed (rule digit_start)

lemma print_json_head:
  assumes "json_ok v"
  obtains c cs where "print_json v = c # cs" and "value_start c"
proof (cases v)
  case (JNumber l)
  with assms obtain c cs where "l = c # cs" "c = CHR ''-'' \<or> is_digit c" by (auto elim: number_head)
  then show ?thesis using that [of c cs] JNumber number_start [of c] by simp
next
  case (JBool b)
  then show ?thesis using that by (cases b) (auto simp: value_start_def is_ws_def)
next
  case (JArray vs)
  then show ?thesis using that by (auto simp: value_start_def is_ws_def)
next
  case (JObject kvs)
  then show ?thesis using that by (auto simp: value_start_def is_ws_def)
qed (use that in \<open>auto simp: value_start_def is_ws_def json_quote_def\<close>)

lemma p_key_print:
  assumes "valid_utf8 k"
  shows "p_key (json_quote k @ '':'' @ r) = Some (k, r)"
  using p_string_quote [OF assms, of "CHR '':'' # r"] by (simp add: p_key_def json_quote_def is_ws_def)

lemma p_value_string:
  assumes "valid_utf8 s"
  shows "p_value (Suc n) d (json_quote s @ r) = Some (JString s, r)"
  using p_string_quote [OF assms, of r] by (simp add: json_quote_def is_ws_def)

lemma p_value_number:
  assumes "number_lit l" and "delim r"
  shows "p_value (Suc n) d (l @ r) = Some (JNumber l, r)"
proof -
  obtain c cs where l: "l = c # cs" and c: "c = CHR ''-'' \<or> is_digit c" using number_head [OF assms(1)] by blast
  have "p_number (l @ r) = Some (l, r)"
    using p_number_append [OF assms(2), of l l "[]"] assms(1) by (simp add: number_lit_def)
  moreover have c': "\<not> is_ws c" "c \<noteq> quote_char" "c \<noteq> CHR ''[''" "c \<noteq> CHR ''{''" "c \<noteq> CHR ''t''" "c \<noteq> CHR ''f''" "c \<noteq> CHR ''n''"
    using number_start [OF c] by (simp_all add: value_start_def)
  moreover have "skip_ws (l @ r) = c # cs @ r" using l c'(1) by simp
  ultimately show ?thesis by (simp add: l)
qed

lemma delim_simps [simp]:
  "delim []" "delim (CHR '','' # r)" "delim (CHR '']'' # r)" "delim (CHR ''}'' # r)" "delim (CHR 0x0A # r)"
  by (simp_all add: delim_def is_digit_def)

lemma foldr_max_le: "(foldr max xs 0 \<le> (d::nat)) \<longleftrightarrow> (\<forall>x\<in>set xs. x \<le> d)"
  by (induction xs) auto

lemma elems_head:
  assumes "list_all json_ok vs" and "vs \<noteq> []"
  shows "next_is (CHR '']'') (commas (map print_json vs) @ r) = None"
proof -
  obtain v ws where vs: "vs = v # ws" using assms(2) by (cases vs) auto
  with assms(1) have "json_ok v" by simp
  then obtain c cs where c: "print_json v = c # cs" "value_start c" by (rule print_json_head)
  then have "\<not> is_ws c" "c \<noteq> CHR '']''" by (simp_all add: value_start_def)
  then show ?thesis using c by (simp add: vs commas_Cons)
qed

lemma members_head:
  assumes "kvs \<noteq> []"
  shows "next_is (CHR ''}'') (commas (map print_member kvs) @ r) = None"
  using assms by (cases kvs) (simp_all add: commas_Cons print_member_def json_quote_def is_ws_def)

lemma print_parse:
  shows "json_ok v \<Longrightarrow> json_depth v \<le> d \<Longrightarrow> length (print_json v) < n \<Longrightarrow> delim r \<Longrightarrow>
      p_value n d (print_json v @ r) = Some (v, r)"
    and "list_all json_ok vs \<Longrightarrow> list_all (\<lambda>v. json_depth v \<le> d) vs \<Longrightarrow> length (commas (map print_json vs)) + 1 < n \<Longrightarrow>
      vs \<noteq> [] \<Longrightarrow> p_elems n d (commas (map print_json vs) @ CHR '']'' # r) = Some (vs, r)"
    and "list_all (\<lambda>(k, v). valid_utf8 k \<and> json_ok v) kvs \<Longrightarrow> list_all (\<lambda>(k, v). json_depth v \<le> d) kvs \<Longrightarrow>
      length (commas (map print_member kvs)) + 1 < n \<Longrightarrow> kvs \<noteq> [] \<Longrightarrow>
      p_members n d (commas (map print_member kvs) @ CHR ''}'' # r) = Some (kvs, r)"
proof (induction n arbitrary: d v vs kvs r)
  case 0
  { case 1 then show ?case by simp
  next case 2 then show ?case by simp
  next case 3 then show ?case by simp }
next
  case (Suc n)
  { case 1
    show ?case
    proof (cases v)
      case (JNumber l)
      then show ?thesis using p_value_number [of l r n d] 1 by (simp del: p_value.simps)
    next
      case (JString s)
      then show ?thesis using p_value_string [of s n d r] 1 by (simp del: p_value.simps)
    next
      case (JBool b)
      then show ?thesis by (cases b) (simp_all add: is_ws_def strip_def)
    next
      case JNull
      then show ?thesis by (simp add: is_ws_def strip_def)
    next
      case (JArray vs)
      then obtain d' where d: "d = Suc d'" using 1 by (cases d) simp_all
      have "p_elems n d' (commas (map print_json vs) @ CHR '']'' # r) = Some (vs, r)" if "vs \<noteq> []"
        using Suc.IH(2) [of vs d' r] 1 that d JArray by (simp add: foldr_max_le list_all_iff)
      then show ?thesis using 1 d JArray elems_head [of vs "CHR '']'' # r"] by (cases "vs = []") (simp_all add: is_ws_def)
    next
      case (JObject kvs)
      then obtain d' where d: "d = Suc d'" using 1 by (cases d) simp_all
      have "p_members n d' (commas (map print_member kvs) @ CHR ''}'' # r) = Some (kvs, r)" if "kvs \<noteq> []"
        using Suc.IH(3) [of kvs d' r] 1 that d JObject
        by (simp add: foldr_max_le list_all_iff print_object case_prod_unfold del: print_json.simps(7))
      then show ?thesis using d JObject members_head [of kvs "CHR ''}'' # r"]
        by (cases "kvs = []") (simp_all add: is_ws_def print_object del: print_json.simps(7))
    qed
  next
    case 2
    then obtain v ws where vs: "vs = v # ws" by (cases vs) auto
    show ?case
    proof (cases "ws = []")
      case True
      then show ?thesis using 2 vs Suc.IH(1) [of v d "CHR '']'' # r"] by (simp add: is_ws_def)
    next
      case False
      have "p_elems n d (commas (map print_json ws) @ CHR '']'' # r) = Some (ws, r)"
        using 2 vs False Suc.IH(2) [of ws d r] by (simp add: commas_Cons)
      then show ?thesis
        using 2 vs False Suc.IH(1) [of v d "CHR '','' # commas (map print_json ws) @ CHR '']'' # r"]
        by (simp add: commas_Cons is_ws_def)
    qed
  next
    case 3
    then obtain k v ws where kvs: "kvs = (k, v) # ws" by (cases kvs) auto
    have key: "p_key (json_quote k @ CHR '':'' # x) = Some (k, x)" for x
      using p_key_print [of k x] 3 kvs by simp
    show ?case
    proof (cases "ws = []")
      case True
      then show ?thesis using 3 kvs Suc.IH(1) [of v d "CHR ''}'' # r"] key by (simp add: is_ws_def)
    next
      case False
      have "p_members n d (commas (map print_member ws) @ CHR ''}'' # r) = Some (ws, r)"
        using 3 kvs False Suc.IH(3) [of ws d r] by (simp add: commas_Cons)
      then show ?thesis
        using 3 kvs False Suc.IH(1) [of v d "CHR '','' # commas (map print_member ws) @ CHR ''}'' # r"] key
        by (simp add: commas_Cons is_ws_def)
    qed
  }
qed

lemma parse_print:
  assumes "json_ok v" and "json_depth v \<le> max_nesting" and "delim r"
  shows "parse_json (print_json v @ r) = Some (v, r)"
  unfolding parse_json_def by (rule print_parse(1)) (use assms in simp_all)

lemma parse_text_print:
  assumes "json_ok v" and "json_depth v \<le> max_nesting"
  shows "parse_text (print_json v) = Some v"
  using parse_print [OF assms, of "[]"] by (simp add: parse_text_def skip_ws_def)

end
