(* ===== verification/Ipc_Json.thy ===== *)
theory Ipc_Json
  imports Ipc_Base Go_Json
begin

text \<open>
  The JSON codec (\<open>codec/json.go\<close>): how \<open>encoding/json\<close> writes and fills the structs of
  \<open>plugin/ctl/ipc/method\<close> and \<open>packet.go\<close>, field by field from their tags. Encoding gives \<^const>\<open>None\<close> for
  a value JSON has no text for. Filling follows \<open>Unmarshal\<close>: a key selects the field of that name, or of a
  name equal to it under case folding, an unknown key is skipped, \<open>null\<close> leaves a string, a bool or a
  protocol alone and empties a slice or a map, and a value of a wrong type is an error.
  The two conversions of 64-bit floats are those of \<open>strconv\<close>, a parameter.
\<close>

section \<open>Options\<close>

text \<open>\<open>ft_format\<close> gives \<^const>\<open>None\<close> for NaN and the infinities, \<open>ft_parse\<close> for a literal out of range.\<close>

record float_text =
  ft_format :: "u64 \<Rightarrow> string option"
  ft_parse :: "string \<Rightarrow> u64 option"

definition show_int :: "int \<Rightarrow> string" where
  "show_int i = (if i < 0 then CHR ''-'' # show_nat (nat (- i)) else show_nat (nat i))"

text \<open>The keys of a map are written in order.\<close>

fun json_of_any :: "float_text \<Rightarrow> any_val \<Rightarrow> json option" where
  "json_of_any F AnyNil = Some JNull"
| "json_of_any F (AnyBool b) = Some (JBool b)"
| "json_of_any F (AnyInt i) = Some (JNumber (show_int i))"
| "json_of_any F (AnyFloat x) = map_option JNumber (ft_format F x)"
| "json_of_any F (AnyString s) = Some (JString s)"
| "json_of_any F (AnyList vs) = map_option JArray (those (map (json_of_any F) vs))"
| "json_of_any F (AnyMap kvs) =
     map_option (\<lambda>ms. JObject (sort_key fst ms)) (those (map (\<lambda>(k, v). map_option (Pair k) (json_of_any F v)) kvs))"

fun any_of_json :: "float_text \<Rightarrow> json \<Rightarrow> any_val option" where
  "any_of_json F JNull = Some AnyNil"
| "any_of_json F (JBool b) = Some (AnyBool b)"
| "any_of_json F (JNumber l) = map_option AnyFloat (ft_parse F l)"
| "any_of_json F (JString s) = Some (AnyString s)"
| "any_of_json F (JArray vs) = map_option AnyList (those (map (any_of_json F) vs))"
| "any_of_json F (JObject kvs) =
     map_option (\<lambda>ms. AnyMap (foldl (\<lambda>m (k, v). AList.update k v m) [] ms))
       (those (map (\<lambda>(k, v). map_option (Pair k) (any_of_json F v)) kvs))"

section \<open>Fields\<close>

text \<open>Case folding of keys, of ASCII letters and the two other runes that fold to one (Kelvin sign, long s).\<close>

definition upper_char :: "char \<Rightarrow> char" where
  "upper_char c = (if in_range 97 122 c then char_of (byte_of c - 32) else c)"

fun fold_name :: "string \<Rightarrow> string" where
  "fold_name [] = []"
| "fold_name (a # s) =
     (if take 3 (a # s) = [CHR 0xE2, CHR 0x84, CHR 0xAA] then CHR ''K'' # fold_name (drop 2 s)
      else if take 2 (a # s) = [CHR 0xC5, CHR 0xBF] then CHR ''S'' # fold_name (drop 1 s)
      else upper_char a # fold_name s)"

type_synonym 'a fields = "(string \<times> (json \<Rightarrow> 'a \<Rightarrow> 'a option)) list"

definition find_field :: "(string \<times> 'f) list \<Rightarrow> string \<Rightarrow> 'f option" where
  "find_field fs k =
     (case map_of fs k of
        Some f \<Rightarrow> Some f
      | None \<Rightarrow> map_option snd (find (\<lambda>nf. fold_name (fst nf) = fold_name k) fs))"

fun set_members :: "'a fields \<Rightarrow> (string \<times> json) list \<Rightarrow> 'a \<Rightarrow> 'a option" where
  "set_members fs [] x = Some x"
| "set_members fs ((k, j) # kvs) x =
     (case find_field fs k of
        None \<Rightarrow> set_members fs kvs x
      | Some f \<Rightarrow> (case f j x of None \<Rightarrow> None | Some y \<Rightarrow> set_members fs kvs y))"

definition fill_struct :: "'a fields \<Rightarrow> json \<Rightarrow> 'a \<Rightarrow> 'a option" where
  "fill_struct fs j x = (case j of JNull \<Rightarrow> Some x | JObject kvs \<Rightarrow> set_members fs kvs x | _ \<Rightarrow> None)"

definition set_string :: "(string \<Rightarrow> 'a \<Rightarrow> 'a) \<Rightarrow> json \<Rightarrow> 'a \<Rightarrow> 'a option" where
  "set_string upd j x = (case j of JNull \<Rightarrow> Some x | JString s \<Rightarrow> Some (upd s x) | _ \<Rightarrow> None)"

definition set_bool :: "(bool \<Rightarrow> 'a \<Rightarrow> 'a) \<Rightarrow> json \<Rightarrow> 'a \<Rightarrow> 'a option" where
  "set_bool upd j x = (case j of JNull \<Rightarrow> Some x | JBool b \<Rightarrow> Some (upd b x) | _ \<Rightarrow> None)"

text \<open>A protocol is written and read by its \<open>MarshalText\<close> and \<open>UnmarshalText\<close>.\<close>

definition set_protocol :: "(protocol \<Rightarrow> 'a \<Rightarrow> 'a) \<Rightarrow> json \<Rightarrow> 'a \<Rightarrow> 'a option" where
  "set_protocol upd j x =
     (case j of
        JNull \<Rightarrow> Some x
      | JString s \<Rightarrow> (case protocol_UnmarshalText 0 s of (None, p) \<Rightarrow> Some (upd p x) | (Some _, _) \<Rightarrow> None)
      | _ \<Rightarrow> None)"

definition set_slice :: "(json \<Rightarrow> 'b option) \<Rightarrow> ('b list \<Rightarrow> 'a \<Rightarrow> 'a) \<Rightarrow> json \<Rightarrow> 'a \<Rightarrow> 'a option" where
  "set_slice elem upd j x =
     (case j of
        JNull \<Rightarrow> Some (upd [] x)
      | JArray js \<Rightarrow> map_option (\<lambda>vs. upd vs x) (those (map elem js))
      | _ \<Rightarrow> None)"

text \<open>The members of an object are put into the map the field holds.\<close>

definition set_options :: "float_text \<Rightarrow> ('a \<Rightarrow> any_options) \<Rightarrow> (any_options \<Rightarrow> 'a \<Rightarrow> 'a) \<Rightarrow> json \<Rightarrow> 'a \<Rightarrow> 'a option" where
  "set_options F get upd j x =
     (case j of
        JNull \<Rightarrow> Some (upd [] x)
      | JObject kvs \<Rightarrow>
          map_option (\<lambda>ms. upd (foldl (\<lambda>m (k, v). AList.update k v m) (get x) ms) x)
            (those (map (\<lambda>(k, v). map_option (Pair k) (any_of_json F v)) kvs))
      | _ \<Rightarrow> None)"

definition elem_string :: "json \<Rightarrow> string option" where
  "elem_string j = set_string (\<lambda>s _. s) j ''''"

text \<open>What \<open>omitempty\<close> leaves out.\<close>

definition opt_string :: "string \<Rightarrow> string \<Rightarrow> (string \<times> json) list" where
  "opt_string n s = (if s = '''' then [] else [(n, JString s)])"

definition opt_slice :: "string \<Rightarrow> json list \<Rightarrow> (string \<times> json) list" where
  "opt_slice n js = (if js = [] then [] else [(n, JArray js)])"

definition opt_options :: "float_text \<Rightarrow> string \<Rightarrow> any_options \<Rightarrow> (string \<times> json) list option" where
  "opt_options F n opts =
     (if opts = [] then Some [] else map_option (\<lambda>j. [(n, j)]) (json_of_any F (AnyMap opts)))"

definition protocol_json :: "protocol \<Rightarrow> json" where
  "protocol_json p = JString (protocol_MarshalText p)"

section \<open>The structs\<close>

text \<open>For each struct the value written and the table of its fields.\<close>

definition TargetEndpointInfo_json :: "TargetEndpointInfo \<Rightarrow> json" where
  "TargetEndpointInfo_json e = JObject [(''name'', JString (tei_Name e)),
     (''protocol'', protocol_json (tei_Protocol e)), (''address'', JString (tei_Address e))]"

definition TargetEndpointInfo_fields :: "TargetEndpointInfo fields" where
  "TargetEndpointInfo_fields =
     [(''name'', set_string (\<lambda>s e. e\<lparr>tei_Name := s\<rparr>)),
      (''protocol'', set_protocol (\<lambda>p e. e\<lparr>tei_Protocol := p\<rparr>)),
      (''address'', set_string (\<lambda>s e. e\<lparr>tei_Address := s\<rparr>))]"

definition zero_endpoint_info :: TargetEndpointInfo where
  "zero_endpoint_info = \<lparr>tei_Name = '''', tei_Protocol = 0, tei_Address = ''''\<rparr>"

definition TargetStatus_json :: "TargetStatus \<Rightarrow> json" where
  "TargetStatus_json t = JObject ([(''name'', JString (ts_Name t)), (''kind'', JString (ts_Kind t)),
      (''state'', JString (ts_State t))] @ opt_string ''last_error'' (ts_LastError t)
      @ opt_slice ''endpoints'' (map TargetEndpointInfo_json (ts_Endpoints t)))"

definition TargetStatus_fields :: "TargetStatus fields" where
  "TargetStatus_fields =
     [(''name'', set_string (\<lambda>s t. t\<lparr>ts_Name := s\<rparr>)),
      (''kind'', set_string (\<lambda>s t. t\<lparr>ts_Kind := s\<rparr>)),
      (''state'', set_string (\<lambda>s t. t\<lparr>ts_State := s\<rparr>)),
      (''last_error'', set_string (\<lambda>s t. t\<lparr>ts_LastError := s\<rparr>)),
      (''endpoints'', set_slice (\<lambda>j. fill_struct TargetEndpointInfo_fields j zero_endpoint_info)
                        (\<lambda>es t. t\<lparr>ts_Endpoints := es\<rparr>))]"

definition zero_target_status :: TargetStatus where
  "zero_target_status = \<lparr>ts_Name = '''', ts_Kind = '''', ts_State = '''', ts_LastError = '''', ts_Endpoints = []\<rparr>"

definition FrontendStatus_json :: "FrontendStatus \<Rightarrow> json" where
  "FrontendStatus_json f = JObject ([(''name'', JString (fs_Name f)), (''kind'', JString (fs_Kind f)),
      (''state'', JString (fs_State f))] @ opt_string ''last_error'' (fs_LastError f)
      @ [(''protocol'', protocol_json (fs_Protocol f)), (''listen'', JString (fs_Listen f)),
         (''target_name'', JString (fs_TargetName f)), (''endpoint_name'', JString (fs_EndpointName f)),
         (''proxyaddress'', JString (fs_ProxyAddress f))])"

definition FrontendStatus_fields :: "FrontendStatus fields" where
  "FrontendStatus_fields =
     [(''name'', set_string (\<lambda>s f. f\<lparr>fs_Name := s\<rparr>)),
      (''kind'', set_string (\<lambda>s f. f\<lparr>fs_Kind := s\<rparr>)),
      (''state'', set_string (\<lambda>s f. f\<lparr>fs_State := s\<rparr>)),
      (''last_error'', set_string (\<lambda>s f. f\<lparr>fs_LastError := s\<rparr>)),
      (''protocol'', set_protocol (\<lambda>p f. f\<lparr>fs_Protocol := p\<rparr>)),
      (''listen'', set_string (\<lambda>s f. f\<lparr>fs_Listen := s\<rparr>)),
      (''target_name'', set_string (\<lambda>s f. f\<lparr>fs_TargetName := s\<rparr>)),
      (''endpoint_name'', set_string (\<lambda>s f. f\<lparr>fs_EndpointName := s\<rparr>)),
      (''proxyaddress'', set_string (\<lambda>s f. f\<lparr>fs_ProxyAddress := s\<rparr>))]"

definition zero_frontend_status :: FrontendStatus where
  "zero_frontend_status = \<lparr>fs_Name = '''', fs_Kind = '''', fs_State = '''', fs_LastError = '''',
     fs_Protocol = 0, fs_Listen = '''', fs_TargetName = '''', fs_EndpointName = '''', fs_ProxyAddress = ''''\<rparr>"

definition StatusResponse_json :: "StatusReport \<Rightarrow> json" where
  "StatusResponse_json r = JObject ((''closed'', JBool (sr_Closed r))
     # opt_slice ''targets'' (map TargetStatus_json (sr_Targets r))
     @ opt_slice ''frontends'' (map FrontendStatus_json (sr_Frontends r)))"

definition StatusResponse_fields :: "StatusReport fields" where
  "StatusResponse_fields =
     [(''closed'', set_bool (\<lambda>b r. r\<lparr>sr_Closed := b\<rparr>)),
      (''targets'', set_slice (\<lambda>j. fill_struct TargetStatus_fields j zero_target_status)
                      (\<lambda>ts r. r\<lparr>sr_Targets := ts\<rparr>)),
      (''frontends'', set_slice (\<lambda>j. fill_struct FrontendStatus_fields j zero_frontend_status)
                        (\<lambda>fs r. r\<lparr>sr_Frontends := fs\<rparr>))]"

text \<open>A struct with the one field \<open>Name\<close>, and one with the one field \<open>Message\<close>.\<close>

definition Name_json :: "string \<Rightarrow> json" where
  "Name_json n = JObject [(''name'', JString n)]"

definition Name_fields :: "string fields" where
  "Name_fields = [(''name'', set_string (\<lambda>s _. s))]"

definition ErrorResponse_json :: "string \<Rightarrow> json" where
  "ErrorResponse_json m = JObject [(''msg'', JString m)]"

definition ErrorResponse_fields :: "string fields" where
  "ErrorResponse_fields = [(''msg'', set_string (\<lambda>s _. s))]"

definition PluginInitResponse_json :: "string list \<Rightarrow> string list \<Rightarrow> json" where
  "PluginInitResponse_json fks tks =
     JObject (opt_slice ''frontend_kinds'' (map JString fks) @ opt_slice ''target_kinds'' (map JString tks))"

definition PluginInitResponse_fields :: "(string list \<times> string list) fields" where
  "PluginInitResponse_fields =
     [(''frontend_kinds'', set_slice elem_string (\<lambda>ks (_, tks). (ks, tks))),
      (''target_kinds'', set_slice elem_string (\<lambda>ks (fks, _). (fks, ks)))]"

definition NewTargetRequest_json :: "float_text \<Rightarrow> string \<Rightarrow> string \<Rightarrow> any_options \<Rightarrow> json option" where
  "NewTargetRequest_json F n k opts = map_option (\<lambda>os. JObject ([(''name'', JString n), (''kind'', JString k)] @ os))
     (opt_options F ''options'' opts)"

definition NewTargetRequest_fields :: "float_text \<Rightarrow> (string \<times> string \<times> any_options) fields" where
  "NewTargetRequest_fields F =
     [(''name'', set_string (\<lambda>s (_, k, os). (s, k, os))),
      (''kind'', set_string (\<lambda>s (n, _, os). (n, s, os))),
      (''options'', set_options F (\<lambda>(_, _, os). os) (\<lambda>os (n, k, _). (n, k, os)))]"

definition NewFrontendRequest_json ::
    "float_text \<Rightarrow> string \<Rightarrow> string \<Rightarrow> protocol \<Rightarrow> string \<Rightarrow> any_options \<Rightarrow> json option" where
  "NewFrontendRequest_json F n k p l opts =
     map_option (\<lambda>os. JObject ([(''name'', JString n), (''kind'', JString k), (''protocol'', protocol_json p),
       (''listen'', JString l)] @ os)) (opt_options F ''options'' opts)"

definition NewFrontendRequest_fields ::
    "float_text \<Rightarrow> (string \<times> string \<times> protocol \<times> string \<times> any_options) fields" where
  "NewFrontendRequest_fields F =
     [(''name'', set_string (\<lambda>s (_, k, p, l, os). (s, k, p, l, os))),
      (''kind'', set_string (\<lambda>s (n, _, p, l, os). (n, s, p, l, os))),
      (''protocol'', set_protocol (\<lambda>p (n, k, _, l, os). (n, k, p, l, os))),
      (''listen'', set_string (\<lambda>s (n, k, p, _, os). (n, k, p, s, os))),
      (''options'', set_options F (\<lambda>(_, _, _, _, os). os) (\<lambda>os (n, k, p, l, _). (n, k, p, l, os)))]"

section \<open>Messages\<close>

fun json_of_body :: "float_text \<Rightarrow> method_body \<Rightarrow> json option" where
  "json_of_body F (ErrorResponse m) = Some (ErrorResponse_json m)"
| "json_of_body F (StatusResponse r) = Some (StatusResponse_json r)"
| "json_of_body F (PluginInitResponse fks tks) = Some (PluginInitResponse_json fks tks)"
| "json_of_body F (NewTargetRequest n k opts) = NewTargetRequest_json F n k opts"
| "json_of_body F (NewFrontendRequest n k p l opts) = NewFrontendRequest_json F n k p l opts"
| "json_of_body F (WarmTargetRequest n) = Some (Name_json n)"
| "json_of_body F (DrainTargetRequest n) = Some (Name_json n)"
| "json_of_body F (CloseTargetRequest n) = Some (Name_json n)"
| "json_of_body F (StartFrontendRequest n) = Some (Name_json n)"
| "json_of_body F (StopFrontendRequest n) = Some (Name_json n)"
| "json_of_body F (CloseFrontendRequest n) = Some (Name_json n)"
| "json_of_body F (FrontendShouldWarmNotification n) = Some (Name_json n)"
| "json_of_body F _ = Some (JObject [])"

text \<open>Filling the struct that \<open>ParseRawBody\<close> has chosen.\<close>

fun fill_body :: "float_text \<Rightarrow> json \<Rightarrow> method_body \<Rightarrow> method_body option" where
  "fill_body F j (ErrorResponse m) = map_option ErrorResponse (fill_struct ErrorResponse_fields j m)"
| "fill_body F j (StatusResponse r) = map_option StatusResponse (fill_struct StatusResponse_fields j r)"
| "fill_body F j (PluginInitResponse fks tks) =
     map_option (\<lambda>(fks, tks). PluginInitResponse fks tks) (fill_struct PluginInitResponse_fields j (fks, tks))"
| "fill_body F j (NewTargetRequest n k opts) =
     map_option (\<lambda>(n, k, os). NewTargetRequest n k os) (fill_struct (NewTargetRequest_fields F) j (n, k, opts))"
| "fill_body F j (NewFrontendRequest n k p l opts) =
     map_option (\<lambda>(n, k, p, l, os). NewFrontendRequest n k p l os)
       (fill_struct (NewFrontendRequest_fields F) j (n, k, p, l, opts))"
| "fill_body F j (WarmTargetRequest n) = map_option WarmTargetRequest (fill_struct Name_fields j n)"
| "fill_body F j (DrainTargetRequest n) = map_option DrainTargetRequest (fill_struct Name_fields j n)"
| "fill_body F j (CloseTargetRequest n) = map_option CloseTargetRequest (fill_struct Name_fields j n)"
| "fill_body F j (StartFrontendRequest n) = map_option StartFrontendRequest (fill_struct Name_fields j n)"
| "fill_body F j (StopFrontendRequest n) = map_option StopFrontendRequest (fill_struct Name_fields j n)"
| "fill_body F j (CloseFrontendRequest n) = map_option CloseFrontendRequest (fill_struct Name_fields j n)"
| "fill_body F j (FrontendShouldWarmNotification n) =
     map_option FrontendShouldWarmNotification (fill_struct Name_fields j n)"
| "fill_body F j z = map_option (\<lambda>_. z) (fill_struct [] j ())"

section \<open>The codec\<close>

definition bytes_of :: "string \<Rightarrow> byte list" where
  "bytes_of s = map of_char s"

definition text_of :: "byte list \<Rightarrow> string" where
  "text_of bs = map (\<lambda>b. char_of (unat b)) bs"

text \<open>A \<open>[]byte\<close> is written as a string in base 64.\<close>

definition base64_char :: "nat \<Rightarrow> char" where
  "base64_char n =
     (if n < 26 then char_of (65 + n) else if n < 52 then char_of (71 + n)
      else if n < 62 then char_of (n - 4) else if n = 62 then CHR ''+'' else CHR 0x2F)"

fun base64 :: "byte list \<Rightarrow> string" where
  "base64 [] = []"
| "base64 [a] = (let n = unat a * 16 in [base64_char (n div 64), base64_char (n mod 64), CHR ''='', CHR ''=''])"
| "base64 [a, b] = (let n = unat a * 1024 + unat b * 4
     in [base64_char (n div 4096), base64_char (n div 64 mod 64), base64_char (n mod 64), CHR ''=''])"
| "base64 (a # b # c # bs) = (let n = unat a * 65536 + unat b * 256 + unat c
     in [base64_char (n div 262144), base64_char (n div 4096 mod 64), base64_char (n div 64 mod 64),
         base64_char (n mod 64)]) @ base64 bs"

definition packet_body_json :: "float_text \<Rightarrow> packet_body \<Rightarrow> json option" where
  "packet_body_json F pb =
     (case pb of RawBody bs \<Rightarrow> Some (JString (base64 bs)) | PtrBody b \<Rightarrow> json_of_body F b | ValBody b \<Rightarrow> json_of_body F b)"

definition json_Marshal :: "float_text \<Rightarrow> packet_body \<Rightarrow> byte list option" where
  "json_Marshal F pb = map_option (\<lambda>j. bytes_of (print_json j)) (packet_body_json F pb)"

definition json_Unmarshal :: "float_text \<Rightarrow> byte list \<Rightarrow> method_body \<Rightarrow> string + method_body" where
  "json_Unmarshal F raw z =
     (case parse_text (text_of raw) of
        None \<Rightarrow> Inl ''syntax error''
      | Some j \<Rightarrow> (case fill_body F j z of None \<Rightarrow> Inl ''type error'' | Some b \<Rightarrow> Inr b))"

text \<open>As a \<^typ>\<open>codec\<close>; nothing is sent for what \<open>Marshal\<close> refuses, see \<open>json_Encode\<close>.\<close>

definition json_codec :: "float_text \<Rightarrow> codec" where
  "json_codec F = \<lparr>cd_Marshal = (\<lambda>pb. case json_Marshal F pb of None \<Rightarrow> [] | Some bs \<Rightarrow> bs),
     cd_Unmarshal = json_Unmarshal F\<rparr>"

section \<open>What is written fills the same struct\<close>

lemma those_map_Some: "(\<And>x. x \<in> set xs \<Longrightarrow> f x = Some (g x)) \<Longrightarrow> those (map f xs) = Some (map g xs)"
  by (induction xs) simp_all

lemma those_map_back: "(\<And>x. x \<in> set xs \<Longrightarrow> f (g x) = Some x) \<Longrightarrow> those (map f (map g xs)) = Some xs"
  by (induction xs) simp_all

lemma valid_ascii: "list_all (\<lambda>c. byte_of c < 128) s \<Longrightarrow> valid_utf8 s"
  by (induction s) (simp_all add: valid_utf8.simps [of "[]"] valid_utf8.simps [of "c # s" for c s])

lemma key_valid [simp]:
  "valid_utf8 ''name''" "valid_utf8 ''kind''" "valid_utf8 ''state''" "valid_utf8 ''last_error''"
  "valid_utf8 ''endpoints''" "valid_utf8 ''protocol''" "valid_utf8 ''address''" "valid_utf8 ''listen''"
  "valid_utf8 ''target_name''" "valid_utf8 ''endpoint_name''" "valid_utf8 ''proxyaddress''" "valid_utf8 ''closed''"
  "valid_utf8 ''targets''" "valid_utf8 ''frontends''" "valid_utf8 ''msg''" "valid_utf8 ''frontend_kinds''"
  "valid_utf8 ''target_kinds''" "valid_utf8 ''options''" "valid_utf8 ''id''" "valid_utf8 ''method''" "valid_utf8 ''body''"
  by (rule valid_ascii, simp add: byte_of_def)+

lemma set_members_append: "set_members fs (xs @ ys) x = Option.bind (set_members fs xs x) (set_members fs ys)"
  by (induction fs xs x rule: set_members.induct) (auto split: option.splits)

lemma set_protocol_json: "protocol_IsValid p \<Longrightarrow> set_protocol upd (protocol_json p) x = Some (upd p x)"
  by (auto simp: set_protocol_def protocol_json_def protocol_IsValid_iff protocol_defs protocol_UnmarshalText_def)

lemma protocol_json_ok: "json_ok (protocol_json p)" "json_depth (protocol_json p) = 0"
  by (auto simp: protocol_json_def protocol_defs intro!: valid_ascii simp: byte_of_def)

lemmas struct_defs = fill_struct_def find_field_def set_string_def set_bool_def set_slice_def
  opt_string_def opt_slice_def set_protocol_json set_members_append

subsection \<open>Reports\<close>

definition info_ok :: "TargetEndpointInfo \<Rightarrow> bool" where
  "info_ok e \<longleftrightarrow> valid_utf8 (tei_Name e) \<and> protocol_IsValid (tei_Protocol e) \<and> valid_utf8 (tei_Address e)"

definition target_status_ok :: "TargetStatus \<Rightarrow> bool" where
  "target_status_ok t \<longleftrightarrow> list_all valid_utf8 [ts_Name t, ts_Kind t, ts_State t, ts_LastError t]
     \<and> list_all info_ok (ts_Endpoints t)"

definition frontend_status_ok :: "FrontendStatus \<Rightarrow> bool" where
  "frontend_status_ok f \<longleftrightarrow> protocol_IsValid (fs_Protocol f)
     \<and> list_all valid_utf8 [fs_Name f, fs_Kind f, fs_State f, fs_LastError f, fs_Listen f, fs_TargetName f,
         fs_EndpointName f, fs_ProxyAddress f]"

definition report_ok :: "StatusReport \<Rightarrow> bool" where
  "report_ok r \<longleftrightarrow> list_all target_status_ok (sr_Targets r) \<and> list_all frontend_status_ok (sr_Frontends r)"

lemma endpoint_info_json:
  assumes "info_ok e"
  shows "fill_struct TargetEndpointInfo_fields (TargetEndpointInfo_json e) zero_endpoint_info = Some e"
    and "json_ok (TargetEndpointInfo_json e)" and "json_depth (TargetEndpointInfo_json e) \<le> 1"
  using assms by (simp_all add: info_ok_def TargetEndpointInfo_json_def TargetEndpointInfo_fields_def struct_defs
      zero_endpoint_info_def protocol_json_ok)

lemma target_status_json:
  assumes "target_status_ok t"
  shows "fill_struct TargetStatus_fields (TargetStatus_json t) zero_target_status = Some t"
    and "json_ok (TargetStatus_json t)" and "json_depth (TargetStatus_json t) \<le> 3"
proof -
  have eps: "those (map (\<lambda>j. fill_struct TargetEndpointInfo_fields j zero_endpoint_info)
      (map TargetEndpointInfo_json (ts_Endpoints t))) = Some (ts_Endpoints t)"
    by (rule those_map_back, rule endpoint_info_json(1)) (use assms in \<open>simp add: target_status_ok_def list_all_iff\<close>)
  show "fill_struct TargetStatus_fields (TargetStatus_json t) zero_target_status = Some t"
    using eps by (cases t) (auto simp: TargetStatus_json_def TargetStatus_fields_def struct_defs zero_target_status_def)
  show "json_ok (TargetStatus_json t)"
    using assms by (auto simp: TargetStatus_json_def target_status_ok_def struct_defs list_all_iff endpoint_info_json(2))
  have "foldr max (map json_depth (map TargetEndpointInfo_json (ts_Endpoints t))) 0 \<le> 1"
    unfolding foldr_max_le using assms endpoint_info_json(3) by (auto simp: target_status_ok_def list_all_iff)
  then show "json_depth (TargetStatus_json t) \<le> 3" by (simp add: TargetStatus_json_def struct_defs)
qed

lemma frontend_status_json:
  assumes "frontend_status_ok f"
  shows "fill_struct FrontendStatus_fields (FrontendStatus_json f) zero_frontend_status = Some f"
    and "json_ok (FrontendStatus_json f)" and "json_depth (FrontendStatus_json f) \<le> 1"
proof -
  show "fill_struct FrontendStatus_fields (FrontendStatus_json f) zero_frontend_status = Some f"
    using assms by (cases f) (auto simp: FrontendStatus_json_def FrontendStatus_fields_def struct_defs
        zero_frontend_status_def frontend_status_ok_def)
  show "json_ok (FrontendStatus_json f)" "json_depth (FrontendStatus_json f) \<le> 1"
    using assms by (auto simp: FrontendStatus_json_def frontend_status_ok_def struct_defs protocol_json_ok)
qed

lemma status_response_json:
  assumes "report_ok r"
  shows "fill_struct StatusResponse_fields (StatusResponse_json r) \<lparr>sr_Closed = False, sr_Targets = [], sr_Frontends = []\<rparr> = Some r"
    and "json_ok (StatusResponse_json r)" and "json_depth (StatusResponse_json r) \<le> 5"
proof -
  have ts: "those (map (\<lambda>j. fill_struct TargetStatus_fields j zero_target_status)
      (map TargetStatus_json (sr_Targets r))) = Some (sr_Targets r)"
    by (rule those_map_back, rule target_status_json(1)) (use assms in \<open>simp add: report_ok_def list_all_iff\<close>)
  have fs: "those (map (\<lambda>j. fill_struct FrontendStatus_fields j zero_frontend_status)
      (map FrontendStatus_json (sr_Frontends r))) = Some (sr_Frontends r)"
    by (rule those_map_back, rule frontend_status_json(1)) (use assms in \<open>simp add: report_ok_def list_all_iff\<close>)
  show "fill_struct StatusResponse_fields (StatusResponse_json r) \<lparr>sr_Closed = False, sr_Targets = [], sr_Frontends = []\<rparr> = Some r"
    using ts fs by (cases r) (auto simp: StatusResponse_json_def StatusResponse_fields_def struct_defs)
  show "json_ok (StatusResponse_json r)"
    using assms by (auto simp: StatusResponse_json_def report_ok_def struct_defs list_all_iff
        target_status_json(2) frontend_status_json(2))
  have "foldr max (map json_depth (map TargetStatus_json (sr_Targets r))) 0 \<le> 3"
    "foldr max (map json_depth (map FrontendStatus_json (sr_Frontends r))) 0 \<le> 1"
    unfolding foldr_max_le using assms target_status_json(3) frontend_status_json(3)
    by (auto simp: report_ok_def list_all_iff)
  then show "json_depth (StatusResponse_json r) \<le> 5" by (simp add: StatusResponse_json_def struct_defs)
qed

subsection \<open>Options\<close>

text \<open>
  An option comes back if it has no integers, which come back as floats, its maps are in the order of their
  keys, and its floats have literals that are read back. \<open>any_depth\<close> is the nesting of its text.
\<close>

fun any_ok :: "float_text \<Rightarrow> any_val \<Rightarrow> bool" where
  "any_ok F AnyNil = True"
| "any_ok F (AnyBool b) = True"
| "any_ok F (AnyInt i) = False"
| "any_ok F (AnyFloat x) = (case ft_format F x of None \<Rightarrow> False | Some l \<Rightarrow> number_lit l \<and> ft_parse F l = Some x)"
| "any_ok F (AnyString s) = valid_utf8 s"
| "any_ok F (AnyList vs) = list_all (any_ok F) vs"
| "any_ok F (AnyMap kvs) = (distinct (map fst kvs) \<and> sorted (map fst kvs)
     \<and> list_all (\<lambda>(k, v). valid_utf8 k \<and> any_ok F v) kvs)"

fun any_depth :: "any_val \<Rightarrow> nat" where
  "any_depth (AnyList vs) = Suc (foldr max (map any_depth vs) 0)"
| "any_depth (AnyMap kvs) = Suc (foldr max (map (\<lambda>(k, v). any_depth v) kvs) 0)"
| "any_depth _ = 0"

lemma update_fresh: "k \<notin> fst ` set m \<Longrightarrow> AList.update k v m = m @ [(k, v)]"
  by (induction m) auto

lemma fold_update_distinct:
  "distinct (map fst (m @ kvs)) \<Longrightarrow> foldl (\<lambda>m (k, v). AList.update k v m) m kvs = m @ kvs"
proof (induction kvs arbitrary: m)
  case (Cons kv kvs)
  then have "AList.update (fst kv) (snd kv) m = m @ [kv]" by (intro update_fresh [THEN trans]) auto
  with Cons show ?case by (simp add: case_prod_unfold)
qed simp

definition comes_back :: "float_text \<Rightarrow> any_val \<Rightarrow> json \<Rightarrow> bool" where
  "comes_back F v j \<longleftrightarrow> json_of_any F v = Some j \<and> json_ok j \<and> json_depth j = any_depth v \<and> any_of_json F j = Some v"

lemma members_back:
  assumes "\<And>k v. (k, v) \<in> set kvs \<Longrightarrow> \<exists>j. comes_back F v j"
  shows "\<exists>js. those (map (\<lambda>(k, v). map_option (Pair k) (json_of_any F v)) kvs) = Some js
    \<and> map fst js = map fst kvs \<and> list_all (\<lambda>(k, j). json_ok j) js
    \<and> map (\<lambda>(k, j). json_depth j) js = map (\<lambda>(k, v). any_depth v) kvs
    \<and> those (map (\<lambda>(k, j). map_option (Pair k) (any_of_json F j)) js) = Some kvs"
  using assms
proof (induction kvs)
  case (Cons kv kvs)
  obtain k v where kv: "kv = (k, v)" by force
  obtain j where "comes_back F v j" using Cons.prems kv by (metis list.set_intros(1))
  moreover obtain js where js: "those (map (\<lambda>(k, v). map_option (Pair k) (json_of_any F v)) kvs) = Some js"
    "map fst js = map fst kvs" "list_all (\<lambda>(k, j). json_ok j) js"
    "map (\<lambda>(k, j). json_depth j) js = map (\<lambda>(k, v). any_depth v) kvs"
    "those (map (\<lambda>(k, j). map_option (Pair k) (any_of_json F j)) js) = Some kvs"
    using Cons.IH Cons.prems by (meson list.set_intros(2))
  ultimately show ?case by (intro exI [of _ "(k, j) # js"]) (simp add: kv comes_back_def)
qed simp

lemma elems_back:
  assumes "\<And>v. v \<in> set vs \<Longrightarrow> \<exists>j. comes_back F v j"
  shows "\<exists>js. those (map (json_of_any F) vs) = Some js \<and> list_all json_ok js
    \<and> map json_depth js = map any_depth vs \<and> those (map (any_of_json F) js) = Some vs"
  using assms
proof (induction vs)
  case (Cons v vs)
  obtain j where "comes_back F v j" using Cons.prems by (metis list.set_intros(1))
  moreover obtain js where js: "those (map (json_of_any F) vs) = Some js" "list_all json_ok js"
    "map json_depth js = map any_depth vs" "those (map (any_of_json F) js) = Some vs"
    using Cons.IH Cons.prems by (meson list.set_intros(2))
  ultimately show ?case by (intro exI [of _ "j # js"]) (simp add: comes_back_def)
qed simp

lemma any_leaf:
  "comes_back F AnyNil JNull" "comes_back F (AnyBool b) (JBool b)" "valid_utf8 s \<Longrightarrow> comes_back F (AnyString s) (JString s)"
  by (simp_all add: comes_back_def)

lemma any_back: "any_ok F v \<Longrightarrow> \<exists>j. comes_back F v j"
proof (induction v)
  case (AnyFloat x)
  then obtain l where "ft_format F x = Some l" "number_lit l" "ft_parse F l = Some x" by (auto split: option.splits)
  then show ?case by (intro exI [of _ "JNumber l"]) (simp add: comes_back_def)
next
  case (AnyList vs)
  then obtain js where "those (map (json_of_any F) vs) = Some js" "list_all json_ok js"
    "map json_depth js = map any_depth vs" "those (map (any_of_json F) js) = Some vs"
    using elems_back [of vs F] by (auto simp: list_all_iff)
  then show ?case by (intro exI [of _ "JArray js"]) (simp add: comes_back_def)
next
  case (AnyMap kvs)
  have ok: "distinct (map fst kvs)" "sorted (map fst kvs)" "\<And>k v. (k, v) \<in> set kvs \<Longrightarrow> valid_utf8 k \<and> any_ok F v"
    using AnyMap.prems by (auto simp: list_all_iff)
  have "\<exists>j. comes_back F v j" if "(k, v) \<in> set kvs" for k v
    using AnyMap.IH [OF that] ok(3) [OF that] by simp
  then obtain js where js: "those (map (\<lambda>(k, v). map_option (Pair k) (json_of_any F v)) kvs) = Some js"
    "map fst js = map fst kvs" "list_all (\<lambda>(k, j). json_ok j) js"
    "map (\<lambda>(k, j). json_depth j) js = map (\<lambda>(k, v). any_depth v) kvs"
    "those (map (\<lambda>(k, j). map_option (Pair k) (any_of_json F j)) js) = Some kvs"
    using members_back [of kvs F] by blast
  have "sort_key fst js = js" by (rule sort_key_id_if_sorted) (simp add: js(2) ok(2))
  moreover have "list_all (\<lambda>(k, j). valid_utf8 k \<and> json_ok j) js"
    unfolding list_all_iff
  proof
    fix kj
    assume "kj \<in> set js"
    moreover from this have "fst kj \<in> set (map fst kvs)" unfolding js(2) [symmetric] by simp
    then have "valid_utf8 (fst kj)" using ok(3) by auto
    ultimately show "case kj of (k, j) \<Rightarrow> valid_utf8 k \<and> json_ok j" using js(3) by (auto simp: list_all_iff)
  qed
  moreover have "foldl (\<lambda>m (k, v). AList.update k v m) [] kvs = kvs"
    using fold_update_distinct [of "[]" kvs] ok(1) by simp
  ultimately show ?case using js by (intro exI [of _ "JObject js"]) (simp add: comes_back_def)
qed (auto intro: any_leaf)

subsection \<open>Messages\<close>

definition options_ok :: "float_text \<Rightarrow> any_options \<Rightarrow> bool" where
  "options_ok F opts \<longleftrightarrow> any_ok F (AnyMap opts) \<and> any_depth (AnyMap opts) + 2 < max_nesting"

text \<open>The messages that JSON carries unchanged.\<close>

fun message_ok :: "float_text \<Rightarrow> method_body \<Rightarrow> bool" where
  "message_ok F (ErrorResponse m) = valid_utf8 m"
| "message_ok F (StatusResponse r) = report_ok r"
| "message_ok F (PluginInitResponse fks tks) = (list_all valid_utf8 fks \<and> list_all valid_utf8 tks)"
| "message_ok F (NewTargetRequest n k opts) = (valid_utf8 n \<and> valid_utf8 k \<and> options_ok F opts)"
| "message_ok F (NewFrontendRequest n k p l opts) =
     (valid_utf8 n \<and> valid_utf8 k \<and> protocol_IsValid p \<and> valid_utf8 l \<and> options_ok F opts)"
| "message_ok F (WarmTargetRequest n) = valid_utf8 n"
| "message_ok F (DrainTargetRequest n) = valid_utf8 n"
| "message_ok F (CloseTargetRequest n) = valid_utf8 n"
| "message_ok F (StartFrontendRequest n) = valid_utf8 n"
| "message_ok F (StopFrontendRequest n) = valid_utf8 n"
| "message_ok F (CloseFrontendRequest n) = valid_utf8 n"
| "message_ok F (FrontendShouldWarmNotification n) = valid_utf8 n"
| "message_ok F _ = True"

lemma set_options_back:
  assumes "comes_back F (AnyMap opts) j" and "get x = []"
  shows "set_options F get upd j x = Some (upd opts x)"
proof -
  have "json_of_any F (AnyMap opts) = Some j" and again: "any_of_json F j = Some (AnyMap opts)"
    using assms(1) by (simp_all add: comes_back_def)
  then obtain kvs where "j = JObject kvs" by (auto split: option.splits)
  with again assms(2) show ?thesis by (auto simp: set_options_def)
qed

lemma opt_options_back:
  assumes "options_ok F opts"
  obtains (none) "opts = []" and "opt_options F n opts = Some []"
  | (some) j where "opts \<noteq> []" "opt_options F n opts = Some [(n, j)]" "comes_back F (AnyMap opts) j" "json_ok j"
      "json_depth j + 2 < max_nesting"
proof (cases "opts = []")
  case True
  then show ?thesis using that(1) by (simp add: opt_options_def)
next
  case False
  obtain j where j: "comes_back F (AnyMap opts) j"
    using any_back [of F "AnyMap opts"] assms unfolding options_ok_def by blast
  then show ?thesis
    using that(2) [OF False _ j] False assms by (simp add: opt_options_def comes_back_def options_ok_def)
qed

definition body_back :: "float_text \<Rightarrow> method_body \<Rightarrow> json \<Rightarrow> bool" where
  "body_back F b j \<longleftrightarrow> json_of_body F b = Some j \<and> json_ok j \<and> json_depth j + 1 \<le> max_nesting
     \<and> (\<forall>z. zero_body (body_Method b) = Some z \<longrightarrow> fill_body F j z = Some b)"

lemma nesting_enough: "n < 100 \<Longrightarrow> n \<le> max_nesting"
  by (simp add: max_nesting_def)

lemma elem_strings: "those (map elem_string (map JString xs)) = Some xs"
  by (rule those_map_back) (simp add: elem_string_def set_string_def)

lemma strings_depth: "foldr max (map json_depth (map JString xs)) 0 = 0"
  by (induction xs) simp_all

lemma new_target_back:
  assumes "message_ok F (NewTargetRequest n k opts)"
  shows "\<exists>j. body_back F (NewTargetRequest n k opts) j"
proof -
  have "options_ok F opts" using assms by simp
  then show ?thesis
  proof (cases rule: opt_options_back [where n = "''options''"])
    case none
    then show ?thesis using assms nesting_enough [of 2]
      by (auto simp: body_back_def NewTargetRequest_json_def zero_body_def method_numbers
          NewTargetRequest_fields_def struct_defs)
  next
    case (some j)
    then show ?thesis using assms
      by (auto simp: body_back_def NewTargetRequest_json_def zero_body_def method_numbers
          NewTargetRequest_fields_def struct_defs set_options_back)
  qed
qed

lemma new_frontend_back:
  assumes "message_ok F (NewFrontendRequest n k p l opts)"
  shows "\<exists>j. body_back F (NewFrontendRequest n k p l opts) j"
proof -
  have "options_ok F opts" using assms by simp
  then show ?thesis
  proof (cases rule: opt_options_back [where n = "''options''"])
    case none
    then show ?thesis using assms nesting_enough [of 2]
      by (auto simp: body_back_def NewFrontendRequest_json_def zero_body_def method_numbers
          NewFrontendRequest_fields_def struct_defs protocol_json_ok)
  next
    case (some j)
    then show ?thesis using assms
      by (auto simp: body_back_def NewFrontendRequest_json_def zero_body_def method_numbers
          NewFrontendRequest_fields_def struct_defs set_options_back protocol_json_ok)
  qed
qed

lemma plugin_init_back:
  assumes "message_ok F (PluginInitResponse fks tks)"
  shows "\<exists>j. body_back F (PluginInitResponse fks tks) j"
  using assms elem_strings [of fks] elem_strings [of tks] strings_depth [of fks] strings_depth [of tks] nesting_enough [of 3]
  by (auto simp: body_back_def PluginInitResponse_json_def zero_body_def method_numbers
      PluginInitResponse_fields_def struct_defs list_all_iff)

lemma message_back:
  assumes "message_ok F b"
  shows "\<exists>j. body_back F b j"
proof (cases b)
  case (StatusResponse r)
  then show ?thesis using assms status_response_json [of r] nesting_enough [of 6]
    by (auto simp: body_back_def zero_body_def method_numbers)
next
  case (PluginInitResponse fks tks)
  then show ?thesis using plugin_init_back assms by simp
next
  case (NewTargetRequest n k opts)
  then show ?thesis using new_target_back assms by simp
next
  case (NewFrontendRequest n k p l opts)
  then show ?thesis using new_frontend_back assms by simp
qed (use assms nesting_enough [of 2] in \<open>auto simp: body_back_def zero_body_def method_numbers Name_json_def
    Name_fields_def ErrorResponse_json_def ErrorResponse_fields_def struct_defs\<close>)

subsection \<open>The codec\<close>

lemma unat_of_char: "unat (of_char c :: byte) = of_char c"
proof -
  have "(of_char c :: byte) = of_nat (of_char c :: nat)" by (simp only: of_nat_of_char)
  moreover have "(of_char c :: nat) < 256" using byte_of_less [of c] by (simp add: byte_of_def)
  ultimately show ?thesis by (simp only: unat_of_nat) (simp add: take_bit_nat_eq_self_iff)
qed

lemma text_of_bytes [simp]: "text_of (bytes_of s) = s"
  by (simp add: text_of_def bytes_of_def comp_def unat_of_char)

lemma bytes_of_append: "bytes_of (s @ t) = bytes_of s @ bytes_of t"
  by (simp add: bytes_of_def)

lemma bytes_of_simps: "bytes_of [] = []" "bytes_of (c # s) = of_char c # bytes_of s"
  by (simp_all add: bytes_of_def)

lemma of_char_of_byte: "(of_char (char_of (unat b)) :: byte) = b"
proof -
  have "(of_char (char_of (unat b)) :: byte) = of_nat (of_char (char_of (unat b)) :: nat)"
    by (simp only: of_nat_of_char)
  moreover have "unat b < 256" using unsigned_less [of b, where ?'a = nat] by simp
  ultimately show ?thesis by simp
qed

lemma bytes_of_text: "bytes_of (text_of bs) = bs"
  by (simp add: text_of_def bytes_of_def comp_def of_char_of_byte)

lemma json_Marshal_back:
  assumes "body_back F b j"
  shows "json_Marshal F (ValBody b) = Some (bytes_of (print_json j))"
    and "zero_body (body_Method b) = Some z \<Longrightarrow> json_Unmarshal F (bytes_of (print_json j)) z = Inr b"
proof -
  show "json_Marshal F (ValBody b) = Some (bytes_of (print_json j))"
    using assms by (simp add: json_Marshal_def packet_body_json_def body_back_def)
  have "parse_text (print_json j) = Some j"
    by (rule parse_text_print) (use assms in \<open>simp_all add: body_back_def\<close>)
  then show "json_Unmarshal F (bytes_of (print_json j)) z = Inr b" if "zero_body (body_Method b) = Some z"
    using assms that by (simp add: json_Unmarshal_def body_back_def)
qed

text \<open>\<open>Unmarshal\<close> fills the struct it is given, so it never changes the method.\<close>

lemma json_codec_typed: "cd_Unmarshal (json_codec F) raw z = Inr b \<Longrightarrow> body_Method b = body_Method z"
  by (cases z) (auto simp: json_codec_def json_Unmarshal_def split: option.splits)

end
