(* ===== verification/Ipc_Conn.thy ===== *)
theory Ipc_Conn
  imports Ipc_Json
begin

text \<open>
  The connection under the control protocol: \<open>conn.go\<close>, \<open>listener.go\<close> and the stream encoders and
  decoders of \<open>codec.go\<close> and \<open>json.go\<close>. A network connection keeps the bytes that have arrived and are
  not yet decoded and the bytes that were written; when it is closed or a deadline has passed, and
  whatever else the network reports, is an argument or a field. The CBOR streams of \<open>fxamacker/cbor\<close>
  are another \<open>stream_codec\<close>, a parameter.
\<close>

section \<open>Codecs\<close>

text \<open>
  \<open>Read\<close> decodes into a packet whose \<open>Body\<close> holds a pointer to the raw message type of the codec. The body
  afterwards holds the raw bytes, or is no longer that pointer.
\<close>

datatype body_slot = SlotRaw "byte list" | SlotOther

record decoded =
  dc_Id :: u32
  dc_Method :: u16
  dc_Body :: body_slot

text \<open>
  \<open>Encode\<close> and \<open>Decode\<close>: what is written, or an error; and for the bytes in the decoder the error and the
  packet it leaves with the bytes that remain, or \<^const>\<open>None\<close> while there is no whole value.
\<close>

record stream_codec =
  sc_codec :: codec
  sc_Encode :: "ipc_packet \<Rightarrow> string + byte list"
  sc_Decode :: "byte list \<Rightarrow> (string option \<times> decoded \<times> byte list) option"

text \<open>\<open>UnwrapRaw\<close> asserts the type of the raw message; \<^const>\<open>None\<close> when that panics.\<close>

definition UnwrapRaw :: "body_slot \<Rightarrow> byte list option" where
  "UnwrapRaw slot = (case slot of SlotRaw bs \<Rightarrow> Some bs | SlotOther \<Rightarrow> None)"

section \<open>JSON streams\<close>

definition json_Raw :: body_slot where
  "json_Raw = SlotRaw []"

text \<open>The struct \<open>Packet\<close> and its tags.\<close>

definition packet_json :: "ipc_packet \<Rightarrow> json \<Rightarrow> json" where
  "packet_json p body = JObject [(''id'', JNumber (show_nat (unat (p_Id p)))),
     (''method'', JNumber (show_nat (unat (p_Method p)))), (''body'', body)]"

definition json_Encode :: "float_text \<Rightarrow> ipc_packet \<Rightarrow> string + byte list" where
  "json_Encode F p =
     (case packet_body_json F (p_Body p) of
        None \<Rightarrow> Inl ''unsupported value''
      | Some j \<Rightarrow> Inr (bytes_of (print_json (packet_json p j) @ [CHR 0x0A])))"

text \<open>A number is decoded into an unsigned field if its literal is an integer in range.\<close>

definition parse_uint :: "nat \<Rightarrow> string \<Rightarrow> nat option" where
  "parse_uint bits l = (if l \<noteq> [] \<and> list_all is_digit l \<and> read_digits 0 l < 2 ^ bits then Some (read_digits 0 l) else None)"

text \<open>
  The fields of a packet, each given the text and the value of a member, with a flag for a type error. A
  \<open>null\<close> sets the interface \<open>Body\<close> to \<open>nil\<close>, and into that anything is decoded generically.
\<close>

definition set_uint :: "nat \<Rightarrow> (nat \<Rightarrow> decoded \<Rightarrow> decoded) \<Rightarrow> string \<Rightarrow> json \<Rightarrow> bool \<times> decoded \<Rightarrow> bool \<times> decoded" where
  "set_uint bits upd t j d =
     (case j of
        JNull \<Rightarrow> d
      | JNumber l \<Rightarrow> (case parse_uint bits l of Some n \<Rightarrow> (fst d, upd n (snd d)) | None \<Rightarrow> (True, snd d))
      | _ \<Rightarrow> (True, snd d))"

definition set_body :: "string \<Rightarrow> json \<Rightarrow> bool \<times> decoded \<Rightarrow> bool \<times> decoded" where
  "set_body t j d = (fst d, (snd d)\<lparr>dc_Body :=
     (case dc_Body (snd d) of
        SlotRaw _ \<Rightarrow> if j = JNull then SlotOther else SlotRaw (bytes_of t)
      | SlotOther \<Rightarrow> SlotOther)\<rparr>)"

definition packet_fields :: "(string \<times> (string \<Rightarrow> json \<Rightarrow> bool \<times> decoded \<Rightarrow> bool \<times> decoded)) list" where
  "packet_fields =
     [(''id'', set_uint 32 (\<lambda>n d. d\<lparr>dc_Id := of_nat n\<rparr>)),
      (''method'', set_uint 16 (\<lambda>n d. d\<lparr>dc_Method := of_nat n\<rparr>)),
      (''body'', set_body)]"

definition packet_member :: "string \<times> string \<times> json \<Rightarrow> bool \<times> decoded \<Rightarrow> bool \<times> decoded" where
  "packet_member m d =
     (case m of (k, t, j) \<Rightarrow> (case find_field packet_fields k of None \<Rightarrow> d | Some f \<Rightarrow> f t j d))"

definition packet_target :: decoded where
  "packet_target = \<lparr>dc_Id = 0, dc_Method = 0, dc_Body = json_Raw\<rparr>"

text \<open>The members of an object with the text of each value; the fuel is the length of the text plus one.\<close>

fun raw_members :: "nat \<Rightarrow> string \<Rightarrow> ((string \<times> string \<times> json) list \<times> string) option" where
  "raw_members 0 s = None"
| "raw_members (Suc n) s =
     (case p_key s of
        None \<Rightarrow> None
      | Some (k, s1) \<Rightarrow>
          (let t = skip_ws s1
           in case p_value (Suc (length t)) (max_nesting - 1) t of
                None \<Rightarrow> None
              | Some (j, r) \<Rightarrow>
                  (let m = (k, take (length t - length r) t, j)
                   in case next_is (CHR '','') r of
                        Some r' \<Rightarrow> map_option (\<lambda>(ms, r''). (m # ms, r'')) (raw_members n r')
                      | None \<Rightarrow> map_option (Pair [m]) (next_is (CHR ''}'') r))))"

text \<open>A value that is no object is an error, except \<open>null\<close>; a number ends only where something follows.\<close>

definition decode_text :: "string \<Rightarrow> ((bool \<times> decoded) \<times> string) option" where
  "decode_text s =
     (let t = skip_ws s; d0 = (False, packet_target)
      in if t \<noteq> [] \<and> hd t = CHR ''{'' then
           (case next_is (CHR ''}'') (tl t) of
              Some r \<Rightarrow> Some (d0, r)
            | None \<Rightarrow> map_option (\<lambda>(ms, r). (fold packet_member ms d0, r)) (raw_members (length t) (tl t)))
         else
           (case parse_json t of
              None \<Rightarrow> None
            | Some (JNull, r) \<Rightarrow> Some (d0, r)
            | Some (JNumber l, []) \<Rightarrow> None
            | Some (j, r) \<Rightarrow> Some ((True, packet_target), r)))"

definition json_Decode :: "byte list \<Rightarrow> (string option \<times> decoded \<times> byte list) option" where
  "json_Decode bs = map_option (\<lambda>((err, d), r). (if err then Some ''type error'' else None, d, bytes_of r))
     (decode_text (text_of bs))"

definition json_stream :: "float_text \<Rightarrow> stream_codec" where
  "json_stream F = \<lparr>sc_codec = json_codec F, sc_Encode = json_Encode F, sc_Decode = json_Decode\<rparr>"

section \<open>Connections (conn.go)\<close>

text \<open>Times are those of the clock, and a deadline that is not set is \<^const>\<open>None\<close>.\<close>

record conn =
  cn_local :: string
  cn_remote :: string
  cn_in :: "byte list"
  cn_out :: "byte list"
  cn_rdeadline :: "int option"
  cn_wdeadline :: "int option"
  cn_closed :: bool

definition WrapConn :: "string \<times> string \<Rightarrow> conn" where
  "WrapConn addrs = \<lparr>cn_local = fst addrs, cn_remote = snd addrs, cn_in = [], cn_out = [],
     cn_rdeadline = None, cn_wdeadline = None, cn_closed = False\<rparr>"

text \<open>What \<open>net.Dial\<close> gives is an error or the two addresses of a new connection.\<close>

definition ipc_Dial :: "string + string \<times> string \<Rightarrow> string + conn" where
  "ipc_Dial dialled = (case dialled of Inl e \<Rightarrow> Inl e | Inr addrs \<Rightarrow> Inr (WrapConn addrs))"

definition conn_LocalAddr :: "conn \<Rightarrow> string" where
  "conn_LocalAddr c = cn_local c"

definition conn_RemoteAddr :: "conn \<Rightarrow> string" where
  "conn_RemoteAddr c = cn_remote c"

definition net_closed :: string where
  "net_closed = ''use of closed network connection''"

definition conn_SetReadDeadline :: "int option \<Rightarrow> conn \<Rightarrow> string option \<times> conn" where
  "conn_SetReadDeadline t c = (if cn_closed c then (Some net_closed, c) else (None, c\<lparr>cn_rdeadline := t\<rparr>))"

definition conn_SetWriteDeadline :: "int option \<Rightarrow> conn \<Rightarrow> string option \<times> conn" where
  "conn_SetWriteDeadline t c = (if cn_closed c then (Some net_closed, c) else (None, c\<lparr>cn_wdeadline := t\<rparr>))"

definition conn_SetDeadline :: "int option \<Rightarrow> conn \<Rightarrow> string option \<times> conn" where
  "conn_SetDeadline t c =
     (if cn_closed c then (Some net_closed, c) else (None, c\<lparr>cn_rdeadline := t, cn_wdeadline := t\<rparr>))"

definition conn_Close :: "conn \<Rightarrow> string option \<times> conn" where
  "conn_Close c = (if cn_closed c then (Some net_closed, c) else (None, c\<lparr>cn_closed := True\<rparr>))"

text \<open>The error of a read or write at the time \<open>now\<close>, \<open>err\<close> being what else the network reports.\<close>

definition net_error :: "int option \<Rightarrow> int \<Rightarrow> string option \<Rightarrow> conn \<Rightarrow> string option" where
  "net_error deadline now err c =
     (if cn_closed c then Some net_closed
      else case deadline of
        Some t \<Rightarrow> if t \<le> now then Some ''i/o timeout'' else err
      | None \<Rightarrow> err)"

definition conn_Write :: "stream_codec \<Rightarrow> int \<Rightarrow> string option \<Rightarrow> ipc_packet \<Rightarrow> conn \<Rightarrow> string option \<times> conn" where
  "conn_Write S now err p c =
     (case sc_Encode S p of
        Inl e \<Rightarrow> (Some e, c)
      | Inr bs \<Rightarrow>
          (case net_error (cn_wdeadline c) now err c of
             Some e \<Rightarrow> (Some e, c)
           | None \<Rightarrow> (None, c\<lparr>cn_out := cn_out c @ bs\<rparr>)))"

text \<open>
  \<open>Read\<close> waits for a whole value, unless there is an error first: \<open>err\<close> is what the network reports, or the
  syntax error of a decoder whose input cannot be continued to a value. It may panic in \<open>UnwrapRaw\<close>.
\<close>

datatype read_outcome = ReadWaits | ReadPanics | ReadGot ipc_packet "string option"

definition conn_Read :: "stream_codec \<Rightarrow> int \<Rightarrow> string option \<Rightarrow> conn \<Rightarrow> read_outcome \<times> conn" where
  "conn_Read S now err c =
     (case sc_Decode S (cn_in c) of
        None \<Rightarrow>
          (case net_error (cn_rdeadline c) now err c of
             None \<Rightarrow> (ReadWaits, c)
           | Some e \<Rightarrow> (ReadGot \<lparr>p_Id = 0, p_Method = 0, p_Body = RawBody []\<rparr> (Some e), c))
      | Some (derr, d, rest) \<Rightarrow>
          (case UnwrapRaw (dc_Body d) of
             None \<Rightarrow> (ReadPanics, c)
           | Some bs \<Rightarrow>
               (ReadGot \<lparr>p_Id = dc_Id d, p_Method = dc_Method d, p_Body = RawBody bs\<rparr> derr, c\<lparr>cn_in := rest\<rparr>)))"

text \<open>What the read loops of the two ends see of a read that returns.\<close>

definition read_event :: "read_outcome \<Rightarrow> (string + ipc_packet) option" where
  "read_event r = (case r of ReadGot p None \<Rightarrow> Some (Inr p) | ReadGot p (Some e) \<Rightarrow> Some (Inl e) | _ \<Rightarrow> None)"

section \<open>The ends of a connection\<close>

text \<open>\<open>Notify\<close> and \<open>Close\<close> of \<open>BaseClient\<close>, \<open>BaseServer\<close> and \<open>BasePeer\<close> act on the connection alone.\<close>

definition client_Notify :: "stream_codec \<Rightarrow> int \<Rightarrow> string option \<Rightarrow> ipc_packet \<Rightarrow> conn \<Rightarrow> string option \<times> conn" where
  "client_Notify S now err notif c = conn_Write S now err (notif\<lparr>p_Id := 0\<rparr>) c"

definition server_Notify :: "stream_codec \<Rightarrow> int \<Rightarrow> string option \<Rightarrow> ipc_packet \<Rightarrow> conn \<Rightarrow> string option \<times> conn" where
  "server_Notify S now err notif c = conn_Write S now err (notif\<lparr>p_Id := 0\<rparr>) c"

definition peer_Notify :: "stream_codec \<Rightarrow> int \<Rightarrow> string option \<Rightarrow> ipc_packet \<Rightarrow> conn \<Rightarrow> string option \<times> conn" where
  "peer_Notify S now err notif c = conn_Write S now err (notif\<lparr>p_Id := 0\<rparr>) c"

definition client_Close :: "conn \<Rightarrow> string option \<times> conn" where
  "client_Close c = conn_Close c"

definition server_Close :: "conn \<Rightarrow> string option \<times> conn" where
  "server_Close c = conn_Close c"

definition peer_Close :: "conn \<Rightarrow> string option \<times> conn" where
  "peer_Close c = conn_Close c"

section \<open>Listeners (listener.go)\<close>

record listener =
  ln_addr :: string
  ln_closed :: bool

definition WrapListener :: "string \<Rightarrow> listener" where
  "WrapListener addr = \<lparr>ln_addr = addr, ln_closed = False\<rparr>"

definition ipc_Listen :: "string + string \<Rightarrow> string + listener" where
  "ipc_Listen listened = (case listened of Inl e \<Rightarrow> Inl e | Inr addr \<Rightarrow> Inr (WrapListener addr))"

definition listener_Addr :: "listener \<Rightarrow> string" where
  "listener_Addr l = ln_addr l"

text \<open>\<open>Accept\<close> with what the network has for it.\<close>

definition listener_Accept :: "string + string \<times> string \<Rightarrow> listener \<Rightarrow> string + conn" where
  "listener_Accept accepted l =
     (if ln_closed l then Inl net_closed
      else case accepted of Inl e \<Rightarrow> Inl e | Inr addrs \<Rightarrow> Inr (WrapConn addrs))"

definition listener_Close :: "listener \<Rightarrow> string option \<times> listener" where
  "listener_Close l = (if ln_closed l then (Some net_closed, l) else (None, l\<lparr>ln_closed := True\<rparr>))"

section \<open>What is written arrives\<close>

declare p_value.simps [simp del]

lemma skip_ws_print:
  assumes "json_ok j"
  shows "skip_ws (print_json j @ s) = print_json j @ s"
  using assms
proof (rule print_json_head)
  fix c cs
  assume "print_json j = c # cs" and "value_start c"
  then show ?thesis by (simp add: value_start_def)
qed

lemma raw_member_value:
  assumes "json_ok j" and "json_depth j \<le> max_nesting - 1" and "delim r"
  shows "p_value (Suc (length (print_json j @ r))) (max_nesting - 1) (print_json j @ r) = Some (j, r)"
  by (rule print_parse(1)) (use assms in simp_all)

lemma raw_members_print:
  assumes "list_all (\<lambda>(k, j). valid_utf8 k \<and> json_ok j \<and> json_depth j \<le> max_nesting - 1) kvs"
    and "kvs \<noteq> []" and "length kvs \<le> n"
  shows "raw_members n (commas (map print_member kvs) @ CHR ''}'' # r) = Some (map (\<lambda>(k, j). (k, print_json j, j)) kvs, r)"
  using assms
proof (induction kvs arbitrary: n)
  case (Cons kv kvs)
  obtain k j where kv: "kv = (k, j)" by force
  obtain n' where n: "n = Suc n'" using Cons.prems(3) by (cases n) auto
  have ok: "valid_utf8 k" "json_ok j" "json_depth j \<le> max_nesting - 1" using Cons.prems(1) kv by simp_all
  have key: "p_key (json_quote k @ CHR '':'' # x) = Some (k, x)" for x
    using p_key_print [OF ok(1), of x] by simp
  have val: "p_value (Suc (length (print_json j @ s))) (max_nesting - 1) (print_json j @ s) = Some (j, s)" if "delim s" for s
    by (rule raw_member_value [OF ok(2,3) that])
  note skip = skip_ws_print [OF ok(2)]
  show ?case
  proof (cases "kvs = []")
    case True
    then show ?thesis using key val [of "CHR ''}'' # r"] skip by (simp add: kv n is_ws_def)
  next
    case False
    then have IH: "raw_members n' (commas (map print_member kvs) @ CHR ''}'' # r) = Some (map (\<lambda>(k, j). (k, print_json j, j)) kvs, r)"
      using Cons.IH [of n'] Cons.prems n by simp
    let ?s = "CHR '','' # commas (map print_member kvs) @ CHR ''}'' # r"
    have "commas (map print_member (kv # kvs)) @ CHR ''}'' # r = json_quote k @ CHR '':'' # print_json j @ ?s"
      using False by (simp add: kv commas_Cons)
    then show ?thesis using key val [of ?s] skip [of ?s] IH by (simp add: kv n is_ws_def)
  qed
qed simp

lemma parse_uint_show: "n < 2 ^ bits \<Longrightarrow> parse_uint bits (show_nat n) = Some n"
  by (simp add: parse_uint_def read_show_nat list_all_iff show_nat_digits)

lemma parse_uint_word:
  "parse_uint 32 (show_nat (unat (x :: u32))) = Some (unat x)"
  "parse_uint 16 (show_nat (unat (y :: u16))) = Some (unat y)"
  using unsigned_less [of x, where ?'a = nat] unsigned_less [of y, where ?'a = nat]
  by (auto intro!: parse_uint_show)

lemma packet_json_ok: "json_ok j \<Longrightarrow> json_ok (packet_json p j)"
  by (simp add: packet_json_def number_lit_show_nat)

lemma find_packet_field [simp]:
  "find_field packet_fields ''id'' = Some (set_uint 32 (\<lambda>n d. d\<lparr>dc_Id := of_nat n\<rparr>))"
  "find_field packet_fields ''method'' = Some (set_uint 16 (\<lambda>n d. d\<lparr>dc_Method := of_nat n\<rparr>))"
  "find_field packet_fields ''body'' = Some set_body"
  by (simp_all add: find_field_def packet_fields_def)

text \<open>A packet whose body has the value \<open>j\<close>; the body is lost if that is \<open>null\<close>.\<close>

lemma decode_packet:
  assumes "json_ok j" and "json_depth j \<le> max_nesting - 1"
  shows "decode_text (print_json (packet_json p j) @ r) = Some ((False, \<lparr>dc_Id = p_Id p, dc_Method = p_Method p,
     dc_Body = (if j = JNull then SlotOther else SlotRaw (bytes_of (print_json j)))\<rparr>), r)"
proof -
  let ?kvs = "[(''id'', JNumber (show_nat (unat (p_Id p)))), (''method'', JNumber (show_nat (unat (p_Method p)))), (''body'', j)]"
  let ?t = "print_json (packet_json p j) @ r"
  have t: "?t = CHR ''{'' # commas (map print_member ?kvs) @ CHR ''}'' # r"
    unfolding packet_json_def print_object by simp
  have "raw_members (length ?t) (tl ?t) = Some (map (\<lambda>(k, j). (k, print_json j, j)) ?kvs, r)"
    unfolding t list.sel by (rule raw_members_print) (use assms in \<open>simp_all add: number_lit_show_nat print_member_def json_quote_def\<close>)
  moreover have "next_is (CHR ''}'') (tl ?t) = None"
    unfolding t list.sel by (rule members_head) simp
  moreover have "skip_ws ?t = ?t" unfolding t by (simp add: is_ws_def)
  ultimately have "decode_text ?t = Some (fold packet_member (map (\<lambda>(k, j). (k, print_json j, j)) ?kvs) (False, packet_target), r)"
    using t by (simp add: decode_text_def del: raw_members.simps)
  then show ?thesis
    by (simp add: packet_member_def set_uint_def set_body_def parse_uint_word packet_target_def json_Raw_def)
qed

lemma skip_ws_newline: "skip_ws (CHR 0x0A # s) = skip_ws s"
  by (simp add: skip_ws_def is_ws_def)

lemma decode_newline: "decode_text (CHR 0x0A # s) = decode_text s"
  by (simp only: decode_text_def skip_ws_newline)

end
