(* ===== verification/Conn_Spec.thy ===== *)
theory Conn_Spec
  imports Ipc_Conn Ctl_Spec
begin

text \<open>
  What a codec's streams promise to the two ends of a connection, as a locale with the JSON codec as its
  provider: the bytes that one end writes are read by the other end as the frames of \<^theory_text>\<open>Ipc_System\<close>,
  in order. And what a message \<open>null\<close> does to a reader.
\<close>

section \<open>Writing and reading packets in a row\<close>

fun write_all :: "stream_codec \<Rightarrow> int \<Rightarrow> ipc_packet list \<Rightarrow> conn \<Rightarrow> string option \<times> conn" where
  "write_all S now [] c = (None, c)"
| "write_all S now (p # ps) c =
     (case conn_Write S now None p c of (Some e, c1) \<Rightarrow> (Some e, c1) | (None, c1) \<Rightarrow> write_all S now ps c1)"

fun read_all :: "stream_codec \<Rightarrow> int \<Rightarrow> nat \<Rightarrow> conn \<Rightarrow> read_outcome list" where
  "read_all S now 0 c = []"
| "read_all S now (Suc n) c = (let (r, c1) = conn_Read S now None c in r # read_all S now n c1)"

definition decoded_frame :: "ipc_packet \<Rightarrow> decoded" where
  "decoded_frame p = \<lparr>dc_Id = p_Id p, dc_Method = p_Method p, dc_Body = SlotRaw (raw_bytes (p_Body p))\<rparr>"

text \<open>
  The law: what is encoded is decoded as its frame whatever follows, and what then remains decodes as
  what follows.
\<close>

locale packet_stream =
  fixes S :: stream_codec and ok :: "ipc_packet \<Rightarrow> bool"
  assumes carried: "ok p \<Longrightarrow> \<exists>bs. sc_Encode S p = Inr bs \<and>
    (\<forall>s. \<exists>r. sc_Decode S (bs @ s) = Some (None, decoded_frame (frame_of (sc_codec S) p), r)
       \<and> sc_Decode S r = sc_Decode S s)"
begin

lemma read_frame:
  assumes "sc_Decode S (cn_in c) = Some (None, decoded_frame (frame_of (sc_codec S) p), r)"
  shows "conn_Read S now err c = (ReadGot (frame_of (sc_codec S) p) None, c\<lparr>cn_in := r\<rparr>)"
  using assms by (simp add: conn_Read_def decoded_frame_def UnwrapRaw_def frame_of_def)

lemma read_again:
  assumes "sc_Decode S a = sc_Decode S b"
  shows "read_all S now n (d\<lparr>cn_in := a\<rparr>) = read_all S now n (d\<lparr>cn_in := b\<rparr>)"
proof (induction n)
  case (Suc n)
  show ?case
  proof (cases "sc_Decode S b")
    case None
    then show ?thesis using assms Suc by (simp add: conn_Read_def net_error_def split: option.split)
  next
    case (Some v)
    then show ?thesis using assms Suc by (cases v) (simp add: conn_Read_def split: option.split)
  qed
qed simp

lemma written_is_read:
  assumes "list_all ok ps" and "\<not> cn_closed c" and "cn_wdeadline c = None"
  shows "\<exists>c' bs. write_all S now ps c = (None, c') \<and> cn_out c' = cn_out c @ bs
    \<and> (\<forall>d s. cn_in d = bs @ s \<longrightarrow> read_all S now' (length ps) d = map (\<lambda>p. ReadGot (frame_of (sc_codec S) p) None) ps)"
  using assms
proof (induction ps arbitrary: c)
  case (Cons p ps)
  obtain bs where bs: "sc_Encode S p = Inr bs" and dec: "\<And>s. \<exists>r. sc_Decode S (bs @ s) =
      Some (None, decoded_frame (frame_of (sc_codec S) p), r) \<and> sc_Decode S r = sc_Decode S s"
    using carried [of p] Cons.prems(1) by auto
  let ?c1 = "c\<lparr>cn_out := cn_out c @ bs\<rparr>"
  have w: "conn_Write S now None p c = (None, ?c1)"
    using Cons.prems bs by (simp add: conn_Write_def net_error_def)
  obtain c' cs where c': "write_all S now ps ?c1 = (None, c')" "cn_out c' = cn_out ?c1 @ cs"
    and rest: "\<And>d s. cn_in d = cs @ s \<Longrightarrow> read_all S now' (length ps) d = map (\<lambda>p. ReadGot (frame_of (sc_codec S) p) None) ps"
    using Cons.IH [of ?c1] Cons.prems by auto
  have "read_all S now' (length (p # ps)) d = map (\<lambda>p. ReadGot (frame_of (sc_codec S) p) None) (p # ps)"
    if "cn_in d = (bs @ cs) @ s" for d s
  proof -
    obtain r where r: "sc_Decode S (bs @ cs @ s) = Some (None, decoded_frame (frame_of (sc_codec S) p), r)"
      "sc_Decode S r = sc_Decode S (cs @ s)" using dec [of "cs @ s"] by blast
    have "read_all S now' (length ps) (d\<lparr>cn_in := r\<rparr>) = read_all S now' (length ps) (d\<lparr>cn_in := cs @ s\<rparr>)"
      by (rule read_again [OF r(2)])
    then show ?thesis using that r(1) rest [of "d\<lparr>cn_in := cs @ s\<rparr>" s] by (simp add: read_frame)
  qed
  then show ?case using w c' by (intro exI [of _ c'] exI [of _ "bs @ cs"]) simp
qed simp

end

section \<open>JSON\<close>

definition packet_ok :: "float_text \<Rightarrow> ipc_packet \<Rightarrow> bool" where
  "packet_ok F p = (case p_Body p of RawBody _ \<Rightarrow> False | PtrBody b \<Rightarrow> message_ok F b | ValBody b \<Rightarrow> message_ok F b)"

lemma json_of_body_object: "json_of_body F b \<noteq> Some JNull"
  by (cases b) (auto simp: StatusResponse_json_def PluginInitResponse_json_def NewTargetRequest_json_def
      NewFrontendRequest_json_def Name_json_def ErrorResponse_json_def)

lemma json_Decode_packet:
  assumes "json_ok j" and "json_depth j + 1 \<le> max_nesting"
  shows "json_Decode (bytes_of (print_json (packet_json p j) @ t)) =
    Some (None, \<lparr>dc_Id = p_Id p, dc_Method = p_Method p,
      dc_Body = (if j = JNull then SlotOther else SlotRaw (bytes_of (print_json j)))\<rparr>, bytes_of t)"
  using assms by (simp add: json_Decode_def decode_packet del: print_json.simps)

lemma json_carried:
  assumes "packet_ok F p"
  shows "\<exists>bs. json_Encode F p = Inr bs \<and> (\<forall>s. \<exists>r. json_Decode (bs @ s) =
     Some (None, decoded_frame (frame_of (json_codec F) p), r) \<and> json_Decode r = json_Decode s)"
proof -
  obtain b where b: "message_ok F b" and body: "p_Body p = PtrBody b \<or> p_Body p = ValBody b"
    using assms by (auto simp: packet_ok_def split: packet_body.splits)
  obtain j where j: "body_back F b j" using message_back [OF b] by blast
  then have parts: "json_of_body F b = Some j" "json_ok j" "json_depth j + 1 \<le> max_nesting" "j \<noteq> JNull"
    using json_of_body_object [of F b] by (auto simp: body_back_def)
  have pj: "packet_body_json F (p_Body p) = Some j" using body parts(1) by (auto simp: packet_body_json_def)
  let ?bs = "bytes_of (print_json (packet_json p j) @ [CHR 0x0A])"
  have fr: "decoded_frame (frame_of (json_codec F) p) =
      \<lparr>dc_Id = p_Id p, dc_Method = p_Method p, dc_Body = SlotRaw (bytes_of (print_json j))\<rparr>"
    by (simp add: decoded_frame_def frame_of_def json_codec_def json_Marshal_def pj)
  have "json_Decode (?bs @ s) = Some (None, decoded_frame (frame_of (json_codec F) p), bytes_of (CHR 0x0A # text_of s))
      \<and> json_Decode (bytes_of (CHR 0x0A # text_of s)) = json_Decode s" for s
  proof -
    have s: "?bs @ s = bytes_of (print_json (packet_json p j) @ CHR 0x0A # text_of s)" by (simp add: bytes_of_append bytes_of_text bytes_of_simps)
    show ?thesis
      unfolding s json_Decode_packet [OF parts(2,3)] fr using parts(4)
      by (simp add: json_Decode_def decode_newline)
  qed
  moreover have "json_Encode F p = Inr ?bs" using pj by (simp add: json_Encode_def)
  ultimately show ?thesis by blast
qed

interpretation json: packet_stream "json_stream F" "packet_ok F" for F
  by unfold_locales (auto simp: json_stream_def dest!: json_carried)

lemma json_frame_back:
  assumes "message_ok F b"
  shows "parse_frame (json_codec F) (frame_of (json_codec F) (MakePacket i b))
    = Inr \<lparr>p_Id = i, p_Method = body_Method b, p_Body = PtrBody b\<rparr>"
proof -
  obtain j where "body_back F b j" using message_back [OF assms] by blast
  then show ?thesis
    using json_Marshal_back by (intro packet_roundtrip) (simp add: json_codec_def)
qed

section \<open>Properties\<close>

text \<open>
  C29. The JSON codec carries every message: a message whose strings are UTF-8, whose protocols are valid and
  whose options JSON can write and read back, is encoded, sent as a packet and decoded by \<open>ParseRawBody\<close> into
  a pointer to the same message, under the number of its struct.
\<close>

theorem json_carries_messages:
  assumes "message_ok F b"
  shows "parse_frame (json_codec F) (frame_of (json_codec F) (MakePacket i b))
    = Inr \<lparr>p_Id = i, p_Method = body_Method b, p_Body = PtrBody b\<rparr>"
  by (rule json_frame_back [OF assms])

definition no_floats :: float_text where
  "no_floats = \<lparr>ft_format = (\<lambda>_. None), ft_parse = (\<lambda>_. None)\<rparr>"

definition demo_request :: method_body where
  "demo_request = NewFrontendRequest ''web'' ''static:http'' 6 ''[::1]:80''
     [(''endpoint'', AnyString ''/warm''), (''tags'', AnyList [AnyString ''a&b'', AnyBool True])]"

lemma demo_request_ok: "message_ok no_floats demo_request"
  by (simp add: demo_request_def options_ok_def max_nesting_def protocol_IsValid_iff protocol_defs
      valid_ascii byte_of_def)

theorem json_carries_messages_witness:
  "parse_frame (json_codec no_floats) (frame_of (json_codec no_floats) (MakePacket 7 demo_request))
     = Inr \<lparr>p_Id = 7, p_Method = MethodNewFrontendRequest, p_Body = PtrBody demo_request\<rparr>"
  using json_carries_messages [OF demo_request_ok, of 7] by (simp add: demo_request_def)


definition demo_packets :: "ipc_packet list" where
  "demo_packets = [MakePacket 1 StatusRequest, MakePacket 2 demo_request, MakePacket 3 Empty]"

lemma demo_length: "length demo_packets = 3"
  by (simp add: demo_packets_def)

lemma wrapped_conn: "\<not> cn_closed (WrapConn a)" "cn_wdeadline (WrapConn a) = None" "cn_out (WrapConn a) = []"
  by (simp_all add: WrapConn_def)


text \<open>
  C31. A JSON packet whose body is \<open>null\<close> panics the goroutine that reads it, whatever its identifier and
  method are and whatever follows: decoding sets the interface \<open>Body\<close> to \<open>nil\<close>, and \<open>UnwrapRaw\<close> asserts
  that it holds the raw message.
\<close>

theorem null_body_panics:
  "conn_Read (json_stream F) now err (c\<lparr>cn_in := bytes_of (print_json (packet_json p JNull) @ later)\<rparr>)
     = (ReadPanics, c\<lparr>cn_in := bytes_of (print_json (packet_json p JNull) @ later)\<rparr>)"
  using json_Decode_packet [of JNull p later]
  by (simp add: conn_Read_def json_stream_def UnwrapRaw_def max_nesting_def del: print_json.simps)

end
