(* ===== verification/Plugins.thy ===== *)
theory Plugins
  imports Engine Ipc_Method
begin

text \<open>
  The plugin registry (\<open>internal/plugin/register.go\<close>), the hooks of the two built-in plugins
  (\<open>plugin/ctl/init.go\<close>, \<open>plugin/static/init.go\<close>) and the way \<open>proxygwctl\<close> finds the control socket
  (\<open>cmd/proxygwctl/main.go\<close>). A hook is code of a plugin: a function of what it is given, or \<open>nil\<close>.
\<close>

section \<open>The registry\<close>

record namespace =
  ns_Frontends :: "(string, ctor) gomap"
  ns_Targets :: "(string, ctor) gomap"

text \<open>
  \<open>OnLoad\<close> returns its error, the engine it was given and the namespace as it has filled it; of
  \<open>OnUnload\<close> only the error is seen.
\<close>

record 'd plugin_handler =
  ph_OnLoad :: "(any_options \<Rightarrow> 'd world \<Rightarrow> namespace \<Rightarrow> string option \<times> 'd world \<times> namespace) option"
  ph_OnUnload :: "string option option"

type_synonym 'd registry = "(string, 'd plugin_handler) gomap"

definition plugin_Register :: "string \<Rightarrow> 'd plugin_handler \<Rightarrow> 'd registry \<Rightarrow> bool \<times> 'd registry" where
  "plugin_Register source handler reg =
     (if source = '''' then (False, reg)
      else if map_of reg source \<noteq> None then (False, reg)
      else (True, AList.update source handler reg))"

definition plugin_Find :: "string \<Rightarrow> 'd registry \<Rightarrow> 'd plugin_handler option" where
  "plugin_Find source reg = map_of reg source"

interpretation plugin_registry: register_once plugin_Register "\<lambda>reg source. plugin_Find source reg"
  by unfold_locales (auto simp: plugin_Register_def plugin_Find_def split: if_splits)

section \<open>The static plugin\<close>

text \<open>The four constructors are the arguments.\<close>

definition static_OnLoad ::
    "nat \<Rightarrow> nat \<Rightarrow> nat \<Rightarrow> nat \<Rightarrow> any_options \<Rightarrow> 'd world \<Rightarrow> namespace \<Rightarrow> string option \<times> 'd world \<times> namespace" where
  "static_OnLoad always http cmd none config w ns =
     (None, w, \<lparr>ns_Frontends = AList.update ''http'' (Some http) (AList.update ''always'' (Some always) (ns_Frontends ns)),
                ns_Targets = AList.update ''none'' (Some none) (AList.update ''cmd'' (Some cmd) (ns_Targets ns))\<rparr>)"

definition static_handler :: "nat \<Rightarrow> nat \<Rightarrow> nat \<Rightarrow> nat \<Rightarrow> 'd plugin_handler" where
  "static_handler always http cmd none =
     \<lparr>ph_OnLoad = Some (static_OnLoad always http cmd none), ph_OnUnload = Some None\<rparr>"

text \<open>The package's \<open>init\<close> registers the handler, and panics if that is refused.\<close>

definition static_init :: "nat \<Rightarrow> nat \<Rightarrow> nat \<Rightarrow> nat \<Rightarrow> 'd registry \<Rightarrow> bool \<times> 'd registry" where
  "static_init always http cmd none reg =
     plugin_Register ''github.com/UselessMnemonic/proxygw/plugin/static'' (static_handler always http cmd none) reg"

section \<open>The ctl plugin\<close>

datatype ctl_error = CtlMissingSocket | CtlInvalidCodec string | CtlListen string

text \<open>\<open>onLoad\<close> up to \<open>Listen\<close>, whose error is an argument: the socket and the codec it listens with.\<close>

definition ctl_onLoad :: "any_options \<Rightarrow> string option \<Rightarrow> ctl_error + string \<times> codec_name" where
  "ctl_onLoad config lerr =
     (case as_string config ''socket'' of
        None \<Rightarrow> Inl CtlMissingSocket
      | Some socket \<Rightarrow>
          (let c = (case as_string config ''codec'' of None \<Rightarrow> ''json'' | Some c \<Rightarrow> c)
           in case FindByName c of
                None \<Rightarrow> Inl (CtlInvalidCodec c)
              | Some codec \<Rightarrow>
                  (case lerr of Some e \<Rightarrow> Inl (CtlListen e) | None \<Rightarrow> Inr (socket, codec))))"

text \<open>
  The registered handler: \<open>render\<close> is the text of an error and \<open>listen\<close> what \<open>Listen\<close> answers for a
  configuration. The engine and the namespace are left alone; \<open>onUnload\<close> cancels the connections' context.
\<close>

definition ctl_handler :: "(ctl_error \<Rightarrow> string) \<Rightarrow> (any_options \<Rightarrow> string option) \<Rightarrow> 'd plugin_handler" where
  "ctl_handler render listen =
     \<lparr>ph_OnLoad = Some (\<lambda>config w ns.
        (case ctl_onLoad config (listen config) of Inl e \<Rightarrow> Some (render e) | Inr _ \<Rightarrow> None, w, ns)),
      ph_OnUnload = Some None\<rparr>"

definition ctl_init ::
    "(ctl_error \<Rightarrow> string) \<Rightarrow> (any_options \<Rightarrow> string option) \<Rightarrow> 'd registry \<Rightarrow> bool \<times> 'd registry" where
  "ctl_init render listen reg =
     plugin_Register ''github.com/UselessMnemonic/proxygw/plugin/ctl'' (ctl_handler render listen) reg"

section \<open>proxygwctl\<close>

datatype dial_error = DialNoPlugin | DialNoSocket | DialInvalidCodec string | DialFailed string

definition dialClient :: "(string, any_options) gomap option \<Rightarrow> string option \<Rightarrow> dial_error + string \<times> codec_name" where
  "dialClient plugins derr =
     (case map_of (case plugins of None \<Rightarrow> [] | Some m \<Rightarrow> m) ''ctl'' of
        None \<Rightarrow> Inl DialNoPlugin
      | Some ctlConfig \<Rightarrow>
          (case as_string ctlConfig ''socket'' of
             None \<Rightarrow> Inl DialNoSocket
           | Some socket \<Rightarrow>
               if socket = '''' then Inl DialNoSocket
               else let c = (case as_string ctlConfig ''codec'' of
                               None \<Rightarrow> ''json'' | Some rawCodec \<Rightarrow> if rawCodec \<noteq> '''' then rawCodec else ''json'')
                    in case FindByName c of
                         None \<Rightarrow> Inl (DialInvalidCodec c)
                       | Some codec \<Rightarrow>
                           (case derr of Some e \<Rightarrow> Inl (DialFailed e) | None \<Rightarrow> Inr (socket, codec))))"

end
