(* ===== verification/Ctl_Listen.thy ===== *)
theory Ctl_Listen
  imports Conn_Spec Plugins
begin

text \<open>
  The life of the ctl plugin (\<open>plugin/ctl/init.go\<close>, \<open>plugin/ctl/server.go\<close>): the listener, the accept
  loop, the context that \<open>onUnload\<close> cancels, and one server for each connection, with the bytes of the
  connection. Bytes arrive and the clock and the network answer as they like.
\<close>

section \<open>The state\<close>

text \<open>A \<open>Server\<close> is its \<open>BaseServer\<close> with the connection, and where its \<open>Serve\<close> is.\<close>

record ctl_server =
  sv_conn :: conn
  sv_base :: server
  sv_serve :: serve_pc

datatype listen_pc = LoopWaits | LoopReturned

text \<open>\<open>cp_ctx\<close> is \<^const>\<open>None\<close> before the context is made, then whether it is cancelled; a panic ends the process.\<close>

record ctl_plugin =
  cp_listener :: "listener option"
  cp_ctx :: "bool option"
  cp_loop :: listen_pc
  cp_servers :: "ctl_server list"
  cp_panicked :: bool

abbreviation cp_cancelled :: "ctl_plugin \<Rightarrow> bool" where
  "cp_cancelled p \<equiv> cp_ctx p = Some True"

section \<open>Operations\<close>

text \<open>\<open>NewServer\<close>: whether the engine is there, and the connection; \<^const>\<open>None\<close> is the panic.\<close>

definition NewServer :: "conn option \<Rightarrow> bool \<Rightarrow> ctl_server option" where
  "NewServer c engine =
     (if \<not> engine then None
      else case c of
        None \<Rightarrow> None
      | Some c \<Rightarrow> Some \<lparr>sv_conn = c, sv_base = NewBaseServer, sv_serve = VSelect\<rparr>)"

text \<open>\<open>onLoad\<close> once \<open>Listen\<close> has answered: the listener, the context and the accept loop it leaves running.\<close>

definition ctl_loaded :: "any_options \<Rightarrow> string + string \<Rightarrow> ctl_error + ctl_plugin" where
  "ctl_loaded config listened =
     (case ctl_onLoad config (case listened of Inl e \<Rightarrow> Some e | Inr _ \<Rightarrow> None) of
        Inl e \<Rightarrow> Inl e
      | Inr _ \<Rightarrow>
          (case ipc_Listen listened of
             Inl e \<Rightarrow> Inl (CtlListen e)
           | Inr l \<Rightarrow> Inr \<lparr>cp_listener = Some l, cp_ctx = Some False, cp_loop = LoopWaits,
               cp_servers = [], cp_panicked = False\<rparr>))"

text \<open>\<open>cancel\<close> is \<open>nil\<close>, and calling it panics, before a successful \<open>onLoad\<close>.\<close>

definition ctl_onUnload :: "ctl_plugin \<Rightarrow> ctl_plugin" where
  "ctl_onUnload p = (case cp_ctx p of None \<Rightarrow> p\<lparr>cp_panicked := True\<rparr> | Some _ \<Rightarrow> p\<lparr>cp_ctx := Some True\<rparr>)"

text \<open>
  One round of \<open>listenLoop\<close>, \<open>accepted\<close> being what the network has for \<open>Accept\<close>. \<open>os.ErrClosed\<close> is known
  by its text, which is not that of a closed network connection. Every other error is logged and the \<open>nil\<close>
  connection handed to \<open>NewServer\<close>.
\<close>

definition os_ErrClosed :: string where
  "os_ErrClosed = ''file already closed''"

definition listenLoop :: "string + string \<times> string \<Rightarrow> listener \<Rightarrow> bool \<Rightarrow> ctl_plugin \<Rightarrow> ctl_plugin" where
  "listenLoop accepted l engine p =
     (let (conn, err) = (case listener_Accept accepted l of Inl e \<Rightarrow> (None, Some e) | Inr c \<Rightarrow> (Some c, None))
      in if err = Some os_ErrClosed then p\<lparr>cp_loop := LoopReturned\<rparr>
         else case NewServer conn engine of
                None \<Rightarrow> p\<lparr>cp_panicked := True\<rparr>
              | Some v \<Rightarrow> p\<lparr>cp_servers := cp_servers p @ [v]\<rparr>)"

text \<open>\<open>Serve\<close> when it sees the context cancelled.\<close>

definition serve_cancelled :: "ctl_server \<Rightarrow> ctl_server" where
  "serve_cancelled v = v\<lparr>sv_serve := VReturned, sv_conn := snd (server_Close (sv_conn v))\<rparr>"

section \<open>Steps of one connection\<close>

text \<open>What a step of the server writes goes to the connection; a failed write is a step that writes nothing.\<close>

definition put_packet :: "stream_codec \<Rightarrow> int \<Rightarrow> ipc_packet option \<Rightarrow> conn \<Rightarrow> conn option" where
  "put_packet S now w c =
     (case w of
        None \<Rightarrow> Some c
      | Some q \<Rightarrow> (case conn_Write S now None q c of (None, c') \<Rightarrow> Some c' | _ \<Rightarrow> None))"

inductive server_step ::
    "stream_codec \<Rightarrow> (StatusReport \<Rightarrow> bool) \<Rightarrow> bool \<Rightarrow> ctl_server \<Rightarrow> ctl_server \<Rightarrow> bool" for S R cancelled where
  arrives: "server_step S R cancelled v (v\<lparr>sv_conn := (sv_conn v)\<lparr>cn_in := cn_in (sv_conn v) @ bs\<rparr>\<rparr>)"
| reads: "bs_pc (sv_base v) = SRead \<Longrightarrow> conn_Read S now err (sv_conn v) = (r, c) \<Longrightarrow> read_event r = Some ev \<Longrightarrow>
    server_step S R cancelled v (v\<lparr>sv_conn := c, sv_base := server_got (sc_codec S) ev (sv_base v)\<rparr>)"
| loops: "server_loop (sc_codec S) (sv_base v) (wrote w) s \<Longrightarrow> put_packet S now w (sv_conn v) = Some c \<Longrightarrow>
    server_step S R cancelled v (v\<lparr>sv_conn := c, sv_base := s\<rparr>)"
| serves: "serve_step R False (sv_serve v, sv_base v) w (pc, s) \<Longrightarrow> put_packet S now w (sv_conn v) = Some c \<Longrightarrow>
    server_step S R cancelled v (v\<lparr>sv_conn := c, sv_base := s, sv_serve := pc\<rparr>)"
| stops: "cancelled \<Longrightarrow> sv_serve v = VSelect \<Longrightarrow> server_step S R cancelled v (serve_cancelled v)"

section \<open>Steps of the plugin\<close>

inductive ctl_step :: "stream_codec \<Rightarrow> (StatusReport \<Rightarrow> bool) \<Rightarrow> ctl_plugin \<Rightarrow> ctl_plugin \<Rightarrow> bool" for S R where
  accepts: "\<not> cp_panicked p \<Longrightarrow> cp_loop p = LoopWaits \<Longrightarrow> cp_listener p = Some l \<Longrightarrow>
    ctl_step S R p (listenLoop accepted l True p)"
| unloads: "\<not> cp_panicked p \<Longrightarrow> ctl_step S R p (ctl_onUnload p)"
| serves_one: "\<not> cp_panicked p \<Longrightarrow> i < length (cp_servers p) \<Longrightarrow>
    server_step S R (cp_cancelled p) (cp_servers p ! i) v \<Longrightarrow>
    ctl_step S R p (p\<lparr>cp_servers := (cp_servers p)[i := v]\<rparr>)"
| panics: "\<not> cp_panicked p \<Longrightarrow> i < length (cp_servers p) \<Longrightarrow> bs_pc (sv_base (cp_servers p ! i)) = SRead \<Longrightarrow>
    conn_Read S now err (sv_conn (cp_servers p ! i)) = (ReadPanics, c) \<Longrightarrow>
    ctl_step S R p (p\<lparr>cp_panicked := True\<rparr>)"

inductive ctl_reach :: "stream_codec \<Rightarrow> (StatusReport \<Rightarrow> bool) \<Rightarrow> ctl_plugin \<Rightarrow> bool" for S R where
  loaded: "ctl_loaded config listened = Inr p \<Longrightarrow> ctl_reach S R p"
| step: "ctl_reach S R p \<Longrightarrow> ctl_step S R p p' \<Longrightarrow> ctl_reach S R p'"

section \<open>What the steps keep\<close>

lemma conn_Read_keeps:
  assumes "conn_Read S now err c = (r, c')"
  shows "cn_closed c' = cn_closed c" "cn_out c' = cn_out c"
  using assms by (auto simp: conn_Read_def split: option.splits prod.splits)

lemma put_packet_keeps: "put_packet S now w c = Some c' \<Longrightarrow> cn_closed c' = cn_closed c"
  by (auto simp: put_packet_def conn_Write_def split: option.splits sum.splits prod.splits)

lemma serve_returned: "\<not> serve_step R False (VReturned, s) w y"
  by (auto elim: serve_step.cases)

lemma ended_loop: "bs_pc s = SEnded \<Longrightarrow> \<not> server_loop C s l s'"
  by (auto elim: server_loop.cases)

text \<open>A connection is closed only where \<open>Serve\<close> has seen the context cancelled.\<close>

definition closed_by_unload :: "bool \<Rightarrow> ctl_server \<Rightarrow> bool" where
  "closed_by_unload cancelled v \<longleftrightarrow> (cn_closed (sv_conn v) \<longrightarrow> cancelled \<and> sv_serve v = VReturned)"

lemma closed_by_unload_mono: "closed_by_unload b v \<Longrightarrow> (b \<Longrightarrow> b') \<Longrightarrow> closed_by_unload b' v"
  by (auto simp: closed_by_unload_def)

lemma server_step_closed:
  assumes "server_step S R b v v'" and "closed_by_unload b v"
  shows "closed_by_unload b v'"
  using assms
  by cases (auto simp: closed_by_unload_def serve_cancelled_def serve_returned conn_Read_keeps
      dest: put_packet_keeps)

text \<open>Once its loops have both ended nothing happens to a connection but that bytes arrive.\<close>

definition abandoned :: "ctl_server \<Rightarrow> bool" where
  "abandoned v \<longleftrightarrow> sv_serve v = VReturned \<and> bs_pc (sv_base v) = SEnded"

lemma server_step_abandoned:
  assumes "server_step S R b v v'" and "abandoned v"
  shows "abandoned v' \<and> cn_closed (sv_conn v') = cn_closed (sv_conn v) \<and> cn_out (sv_conn v') = cn_out (sv_conn v)"
  using assms by cases (auto simp: abandoned_def serve_returned ended_loop)

text \<open>What one step of the plugin does to its servers and its listener.\<close>

lemma listenLoop_effect:
  assumes "listenLoop accepted l True p = p'" and "\<not> ln_closed l"
  shows "cp_listener p' = cp_listener p \<and> cp_ctx p' = cp_ctx p
    \<and> (cp_servers p' = cp_servers p
        \<or> (\<exists>addrs. cp_servers p' = cp_servers p @ [\<lparr>sv_conn = WrapConn addrs, sv_base = NewBaseServer, sv_serve = VSelect\<rparr>]))"
  using assms
  by (auto simp: listenLoop_def listener_Accept_def NewServer_def Let_def simp del: split_paired_Ex
      split: sum.splits if_splits)

lemma ctl_step_effect:
  assumes "ctl_step S R p p'" and "cp_listener p = Some l" and "\<not> ln_closed l"
  obtains (loop) "cp_listener p' = Some l" "cp_ctx p' = cp_ctx p" "cp_servers p' = cp_servers p"
  | (conn) addrs where "cp_listener p' = Some l" "cp_ctx p' = cp_ctx p"
      "cp_servers p' = cp_servers p @ [\<lparr>sv_conn = WrapConn addrs, sv_base = NewBaseServer, sv_serve = VSelect\<rparr>]"
  | (unload) "cp_listener p' = Some l" "cp_ctx p' = cp_ctx p \<or> cp_cancelled p'" "cp_servers p' = cp_servers p"
  | (serve) i v where "i < length (cp_servers p)" "server_step S R (cp_cancelled p) (cp_servers p ! i) v"
      "cp_listener p' = Some l" "cp_ctx p' = cp_ctx p" "cp_servers p' = (cp_servers p)[i := v]"
  using assms(1)
proof cases
  case (accepts l' accepted)
  then show ?thesis using listenLoop_effect [of accepted l p p'] assms(2,3) that(1,2) by auto
next
  case unloads
  then show ?thesis using that(3) assms(2) by (cases "cp_ctx p") (auto simp: ctl_onUnload_def)
qed (use that assms(2) in auto)

text \<open>The invariant of the plugin.\<close>

definition ctl_inv :: "ctl_plugin \<Rightarrow> bool" where
  "ctl_inv p \<longleftrightarrow> (\<exists>l. cp_listener p = Some l \<and> \<not> ln_closed l) \<and> list_all (closed_by_unload (cp_cancelled p)) (cp_servers p)"

lemma ctl_loaded_inv: "ctl_loaded config listened = Inr p \<Longrightarrow> ctl_inv p"
  by (auto simp: ctl_loaded_def ctl_inv_def ipc_Listen_def WrapListener_def split: sum.splits)

lemma ctl_step_inv:
  assumes "ctl_step S R p p'" and "ctl_inv p"
  shows "ctl_inv p'"
proof -
  obtain l where l: "cp_listener p = Some l" "\<not> ln_closed l" using assms(2) by (auto simp: ctl_inv_def)
  have ok: "list_all (closed_by_unload (cp_cancelled p)) (cp_servers p)" using assms(2) by (simp add: ctl_inv_def)
  show ?thesis using assms(1) l
  proof (cases rule: ctl_step_effect)
    case loop
    then show ?thesis using ok l by (simp add: ctl_inv_def)
  next
    case (conn addrs)
    then show ?thesis using ok l by (simp add: ctl_inv_def closed_by_unload_def WrapConn_def)
  next
    case unload
    then show ?thesis using ok l
      by (auto simp: ctl_inv_def list_all_iff intro: closed_by_unload_mono)
  next
    case (serve i v)
    then have "closed_by_unload (cp_cancelled p) v"
      using ok server_step_closed by (auto simp: list_all_length)
    then show ?thesis using ok l serve by (auto simp: ctl_inv_def list_all_length nth_list_update)
  qed
qed

lemma ctl_reach_inv: "ctl_reach S R p \<Longrightarrow> ctl_inv p"
  by (induction rule: ctl_reach.induct) (auto intro: ctl_loaded_inv ctl_step_inv)

lemma ctl_reach_steps: "(ctl_step S R)\<^sup>*\<^sup>* p p' \<Longrightarrow> ctl_reach S R p \<Longrightarrow> ctl_reach S R p'"
  by (induction rule: rtranclp_induct) (auto intro: ctl_reach.step)

section \<open>Properties\<close>

text \<open>
  C33. The ctl plugin never closes its listener, not even when it is unloaded, and it closes a connection only
  after it has been unloaded, when the connection's \<open>Serve\<close> returns for the cancelled context.
\<close>

theorem connections_closed_by_unload:
  assumes "ctl_reach S R p"
  shows "(\<exists>l. cp_listener p = Some l \<and> \<not> ln_closed l)
    \<and> (\<forall>i < length (cp_servers p). cn_closed (sv_conn (cp_servers p ! i)) \<longrightarrow>
        cp_cancelled p \<and> sv_serve (cp_servers p ! i) = VReturned)"
  using ctl_reach_inv [OF assms] by (simp add: ctl_inv_def closed_by_unload_def list_all_length)


text \<open>The witness: a client sends a value that is no packet; its server gives up, then the plugin is unloaded.\<close>

definition demo_ctl :: ctl_plugin where
  "demo_ctl = \<lparr>cp_listener = Some (WrapListener ''/run/ctl.sock''), cp_ctx = Some False, cp_loop = LoopWaits,
     cp_servers = [], cp_panicked = False\<rparr>"

definition demo_given_up :: ctl_plugin where
  "demo_given_up = demo_ctl\<lparr>cp_servers := [\<lparr>sv_conn = WrapConn (''/run/ctl.sock'', ''@''),
     sv_base = server_end (NewBaseServer\<lparr>bs_pc := SEnding\<rparr>), sv_serve = VReturned\<rparr>]\<rparr>"

lemma demo_ctl_reach: "ctl_reach S R demo_ctl"
proof (rule ctl_reach.loaded)
  have "FindByName ''json'' = Some CodecJSON" by code_simp
  then show "ctl_loaded [(''socket'', AnyString ''/run/ctl.sock'')] (Inr ''/run/ctl.sock'') = Inr demo_ctl"
    by (simp add: ctl_loaded_def ctl_onLoad_def as_string_def ipc_Listen_def demo_ctl_def Let_def)
qed

lemma true_is_no_packet: "json_Decode (bytes_of ''true'') = Some (Some ''type error'', packet_target, [])"
proof -
  have "parse_json ''true'' = Some (JBool True, [])"
    by (simp add: parse_json_def skip_ws_def is_ws_def p_value.simps max_nesting_def strip_def Let_def)
  then have "decode_text ''true'' = Some ((True, packet_target), [])"
    by (simp add: decode_text_def skip_ws_def is_ws_def Let_def)
  moreover have "bytes_of [] = []" by (simp add: bytes_of_def)
  ultimately show ?thesis by (simp only: json_Decode_def text_of_bytes option.map prod.case) simp
qed

lemma one_server_step:
  assumes "ctl_reach S R (demo_ctl\<lparr>cp_servers := [v]\<rparr>)" and "server_step S R False v v'"
  shows "ctl_reach S R (demo_ctl\<lparr>cp_servers := [v']\<rparr>)"
  using ctl_reach.step [OF assms(1) ctl_step.serves_one [where i = 0 and v = v']] assms(2) by (simp add: demo_ctl_def)

lemma demo_given_up_reach: "ctl_reach (json_stream F) R demo_given_up"
proof -
  let ?c = "WrapConn (''/run/ctl.sock'', ''@'')"
  let ?v = "\<lambda>c s pc. \<lparr>sv_conn = c, sv_base = s, sv_serve = pc\<rparr>"
  let ?at = "\<lambda>c s pc. ctl_reach (json_stream F) R (demo_ctl\<lparr>cp_servers := [?v c s pc]\<rparr>)"
  let ?in = "?c\<lparr>cn_in := bytes_of ''true''\<rparr>" and ?e = "NewBaseServer\<lparr>bs_pc := SEnding\<rparr>"
  have "ctl_step (json_stream F) R demo_ctl (listenLoop (Inr (''/run/ctl.sock'', ''@'')) (WrapListener ''/run/ctl.sock'') True demo_ctl)"
    by (rule ctl_step.accepts) (simp_all add: demo_ctl_def)
  then have "?at ?c NewBaseServer VSelect"
    using ctl_reach.step [OF demo_ctl_reach]
    by (fastforce simp: listenLoop_def listener_Accept_def WrapListener_def NewServer_def demo_ctl_def)
  from one_server_step [OF this server_step.arrives [where bs = "bytes_of ''true''"]]
  have "?at ?in NewBaseServer VSelect" by (simp add: WrapConn_def)
  moreover have "server_step (json_stream F) R False (?v ?in NewBaseServer VSelect) (?v ?c ?e VSelect)"
    using server_step.reads [of "?v ?in NewBaseServer VSelect" "json_stream F" 0 None
        "ReadGot \<lparr>p_Id = 0, p_Method = 0, p_Body = RawBody []\<rparr> (Some ''type error'')" ?c "Inl ''type error''" R False]
    by (simp add: NewBaseServer_def conn_Read_def json_stream_def true_is_no_packet UnwrapRaw_def packet_target_def
        json_Raw_def read_event_def server_got_def WrapConn_def)
  ultimately have "?at ?c ?e VSelect" by (rule one_server_step)
  moreover have "server_step (json_stream F) R False (?v ?c ?e VSelect) (?v ?c (server_end ?e) VSelect)"
    using server_step.loops [of "json_stream F" "?v ?c ?e VSelect" None "server_end ?e" 0 ?c R False]
      server_loop.s_end [of ?e] by (simp add: put_packet_def)
  ultimately have "?at ?c (server_end ?e) VSelect" by (rule one_server_step)
  moreover have "server_step (json_stream F) R False (?v ?c (server_end ?e) VSelect) (?v ?c (server_end ?e) VReturned)"
    using server_step.serves [of R "?v ?c (server_end ?e) VSelect" None VReturned "server_end ?e" "json_stream F" 0 ?c False]
      serve_step.v_closed [of "server_end ?e" R False] by (simp add: put_packet_def NewBaseServer_def server_end_def)
  ultimately show ?thesis unfolding demo_given_up_def by (rule one_server_step)
qed

theorem connections_closed_by_unload_witness:
  "\<exists>l. cp_listener demo_given_up = Some l \<and> \<not> ln_closed l"
  using connections_closed_by_unload [OF demo_given_up_reach] by blast


end
