(* ===== verification/Daemon.thy ===== *)
theory Daemon
  imports Plugins
begin

text \<open>
  \<open>cmd/proxygw/main.go\<close>: loading the plugins and registering their kinds, applying the configuration,
  and the order of shutdown. What the other goroutines of the daemon do between two calls of the main
  one is a function of the world, \<open>bg k\<close> before the \<open>k\<close>-th call; what constructors and clocks return is
  an argument for each name. Logging, flags, files and signals are left out.
\<close>

section \<open>Plugins\<close>

record plugin_decl =
  pd_Source :: string
  pd_Name :: string

record 'd loaded_plugin =
  lp_name :: string
  lp_handler :: "'d plugin_handler"

datatype load_error = LoadRead string | LoadInvalid config_error

datatype main_error =
    MainFrontendKind string engine_error
  | MainTargetKind string engine_error
  | MainLoadPlugin string string
  | MainRegisterKinds string main_error
  | MainCreateTarget string engine_error
  | MainUnload string string
  | MainLoadConfig load_error
  | MainLogOutput string
  | MainDataplane dp_error
  | MainJoined "main_error list"

text \<open>The two loops of \<open>registerKinds\<close>.\<close>

fun register_frontends :: "string \<Rightarrow> (string \<times> ctor) list \<Rightarrow> 'd world \<Rightarrow> main_error option \<times> 'd world" where
  "register_frontends plugin [] w = (None, w)"
| "register_frontends plugin ((kind, c) # rest) w =
     (let name = ref_String \<lparr>ref_Namespace = plugin, ref_Name = kind\<rparr>
      in case engine_AddFrontendKind name c w of
           (Some e, w') \<Rightarrow> (Some (MainFrontendKind name e), w')
         | (None, w') \<Rightarrow> register_frontends plugin rest w')"

fun register_targets :: "string \<Rightarrow> (string \<times> ctor) list \<Rightarrow> 'd world \<Rightarrow> main_error option \<times> 'd world" where
  "register_targets plugin [] w = (None, w)"
| "register_targets plugin ((kind, c) # rest) w =
     (let name = ref_String \<lparr>ref_Namespace = plugin, ref_Name = kind\<rparr>
      in case engine_AddTargetKind name c w of
           (Some e, w') \<Rightarrow> (Some (MainTargetKind name e), w')
         | (None, w') \<Rightarrow> register_targets plugin rest w')"

definition registerKinds :: "string \<Rightarrow> namespace \<Rightarrow> 'd world \<Rightarrow> main_error option \<times> 'd world" where
  "registerKinds plugin ns w =
     (case register_frontends plugin (ns_Frontends ns) w of
        (Some e, w') \<Rightarrow> (Some e, w')
      | (None, w') \<Rightarrow> register_targets plugin (ns_Targets ns) w')"

definition plugin_config :: "(string, any_options) gomap option \<Rightarrow> string \<Rightarrow> any_options" where
  "plugin_config plugins name =
     (case plugins of None \<Rightarrow> [] | Some m \<Rightarrow> (case map_of m name of None \<Rightarrow> [] | Some c \<Rightarrow> c))"

text \<open>A plugin without \<open>OnLoad\<close> is not added to the loaded plugins, though its kinds are registered.\<close>

fun loadPlugins ::
    "'d registry \<Rightarrow> (string, any_options) gomap option \<Rightarrow> plugin_decl list \<Rightarrow> 'd loaded_plugin list \<Rightarrow> 'd world
      \<Rightarrow> main_error option \<times> 'd loaded_plugin list \<times> 'd world" where
  "loadPlugins reg plugins [] loaded w = (None, loaded, w)"
| "loadPlugins reg plugins (decl # decls) loaded w =
     (case plugin_Find (pd_Source decl) reg of
        None \<Rightarrow> loadPlugins reg plugins decls loaded w
      | Some h \<Rightarrow>
          (let ns0 = \<lparr>ns_Frontends = [], ns_Targets = []\<rparr>;
               (lerr, w1, ns) = (case ph_OnLoad h of
                   None \<Rightarrow> (None, w, ns0)
                 | Some onLoad \<Rightarrow> onLoad (plugin_config plugins (pd_Name decl)) w ns0)
           in case lerr of
                Some e \<Rightarrow> (Some (MainLoadPlugin (pd_Name decl) e), loaded, w1)
              | None \<Rightarrow>
                  (let loaded' = (case ph_OnLoad h of
                         None \<Rightarrow> loaded
                       | Some _ \<Rightarrow> loaded @ [\<lparr>lp_name = pd_Name decl, lp_handler = h\<rparr>])
                   in case registerKinds (pd_Name decl) ns w1 of
                        (Some e, w2) \<Rightarrow> (Some (MainRegisterKinds (pd_Name decl) e), loaded', w2)
                      | (None, w2) \<Rightarrow> loadPlugins reg plugins decls loaded' w2)))"

definition unloadPlugin :: "'d loaded_plugin \<Rightarrow> main_error option" where
  "unloadPlugin p =
     (case ph_OnUnload (lp_handler p) of
        None \<Rightarrow> None
      | Some r \<Rightarrow> map_option (MainUnload (lp_name p)) r)"

text \<open>
  \<open>unloadPlugins\<close> runs backwards; the names whose \<open>OnUnload\<close> it calls, in order, are returned with the
  joined error.
\<close>

definition unload_calls :: "'d loaded_plugin \<Rightarrow> string list" where
  "unload_calls p = (case ph_OnUnload (lp_handler p) of None \<Rightarrow> [] | Some _ \<Rightarrow> [lp_name p])"

definition unloadPlugins :: "'d loaded_plugin list \<Rightarrow> main_error option \<times> string list" where
  "unloadPlugins plugins =
     foldl (\<lambda>(err, calls) p. (map_option MainJoined (errors_join [err, unloadPlugin p]), calls @ unload_calls p))
       (None, []) (rev plugins)"

section \<open>Applying the configuration\<close>

text \<open>What the constructors, the \<open>Close\<close> of a handler and the clocks return for each name.\<close>

record apply_env =
  ae_target :: "string \<Rightarrow> string + hid"
  ae_targetClose :: "string \<Rightarrow> string option"
  ae_now :: "string \<Rightarrow> int \<times> int"
  ae_frontend :: "string \<Rightarrow> string + hid"
  ae_frontendClose :: "string \<Rightarrow> string option"

fun apply_targets ::
    "'d dataplane_ops \<Rightarrow> apply_env \<Rightarrow> (nat \<Rightarrow> 'd world \<Rightarrow> 'd world) \<Rightarrow> nat \<Rightarrow> TargetCfg list \<Rightarrow> 'd world
      \<Rightarrow> main_error option \<times> 'd world" where
  "apply_targets P E bg k [] w = (None, w)"
| "apply_targets P E bg k (cfg # cfgs) w =
     (let n = tc_Name cfg
      in case engine_NewTarget P cfg (ae_target E n) (ae_targetClose E n) (fst (ae_now E n)) (snd (ae_now E n)) (bg k w) of
           (Inl e, w') \<Rightarrow> (Some (MainCreateTarget n e), w')
         | (Inr _, w') \<Rightarrow> apply_targets P E bg (Suc k) cfgs w')"

text \<open>
  A frontend that cannot be created or whose start is rejected is only logged: the outcome of each is
  collected here. \<^const>\<open>None\<close> if \<open>Start\<close> blocks.
\<close>

datatype fe_outcome = FeNotCreated engine_error | FeStartRejected fid | FeStartRequested fid

fun apply_frontends ::
    "'d dataplane_ops \<Rightarrow> apply_env \<Rightarrow> (nat \<Rightarrow> 'd world \<Rightarrow> 'd world) \<Rightarrow> nat \<Rightarrow> FrontendCfg list \<Rightarrow> 'd world
      \<Rightarrow> (fe_outcome list \<times> 'd world) option" where
  "apply_frontends P E bg k [] w = Some ([], w)"
| "apply_frontends P E bg k (cfg # cfgs) w =
     (let n = fc_Name cfg
      in case engine_NewFrontend P cfg (ae_frontend E n) (ae_frontendClose E n) (bg k w) of
           (Inl e, w1) \<Rightarrow>
             map_option (\<lambda>(os, w'). (FeNotCreated e # os, w')) (apply_frontends P E bg (k + 2) cfgs w1)
         | (Inr i, w1) \<Rightarrow>
             (let w2 = bg (Suc k) w1
              in case frontend_Start (w_fe w2 i) of
                   None \<Rightarrow> None
                 | Some (ok, f') \<Rightarrow>
                     map_option (\<lambda>(os, w'). ((if ok then FeStartRequested i else FeStartRejected i) # os, w'))
                       (apply_frontends P E bg (k + 2) cfgs (upd_fe i f' w2))))"

definition applyConfig ::
    "'d dataplane_ops \<Rightarrow> apply_env \<Rightarrow> (nat \<Rightarrow> 'd world \<Rightarrow> 'd world) \<Rightarrow> ConfigDoc \<Rightarrow> 'd world
      \<Rightarrow> (main_error option \<times> fe_outcome list \<times> 'd world) option" where
  "applyConfig P E bg cfg w =
     (let targets = (case c_Targets cfg of None \<Rightarrow> [] | Some ts \<Rightarrow> ts);
          frontends = (case c_Frontends cfg of None \<Rightarrow> [] | Some fs \<Rightarrow> fs)
      in case apply_targets P E bg 0 targets w of
           (Some e, w') \<Rightarrow> Some (Some e, [], w')
         | (None, w') \<Rightarrow> map_option (\<lambda>(os, w''). (None, os, w'')) (apply_frontends P E bg (length targets) frontends w'))"

section \<open>Shutdown\<close>

text \<open>
  The end of \<open>run\<close>, on every path after the plugins have been loaded: close the engine and wait for it,
  unload the plugins backwards, close the dataplane. Between \<open>Close\<close> and the return of \<open>Wait\<close> everything
  else runs.
\<close>

definition closeEngine :: "'d dataplane_ops \<Rightarrow> 'd world \<Rightarrow> 'd world \<Rightarrow> bool" where
  "closeEngine P w w' \<longleftrightarrow> (world_step P)\<^sup>*\<^sup>* (engine_Close w) w' \<and> engine_Wait_returns w'"

text \<open>The error of \<open>Close\<close> is only logged.\<close>

definition closeDataplane :: "'d dataplane_ops \<Rightarrow> 'd world \<Rightarrow> 'd world" where
  "closeDataplane P w = (let (err, d) = dp_Close P (w_dplane w) in w\<lparr>w_dplane := d\<rparr>)"

datatype shutdown_event = EvEngineClosed | EvUnload string | EvDataplaneClosed

inductive shutdown ::
    "'d dataplane_ops \<Rightarrow> 'd loaded_plugin list \<Rightarrow> 'd world \<Rightarrow> shutdown_event list \<Rightarrow> main_error option \<Rightarrow> 'd world \<Rightarrow> bool"
  for P plugins where
  "closeEngine P w w1 \<Longrightarrow> unloadPlugins plugins = (uerr, calls) \<Longrightarrow> (world_step P)\<^sup>*\<^sup>* w1 w2 \<Longrightarrow>
   shutdown P plugins w ([EvEngineClosed] @ map EvUnload calls @ [EvDataplaneClosed]) uerr
     (closeDataplane P w2)"

section \<open>The run of the daemon\<close>

text \<open>Reading and decoding the file is an argument: the document it holds, or an error.\<close>

definition loadConfig :: "string + ConfigDoc \<Rightarrow> load_error + ConfigDoc" where
  "loadConfig doc =
     (case doc of
        Inl e \<Rightarrow> Inl (LoadRead e)
      | Inr cfg \<Rightarrow>
          (case config_Validate (Some cfg) of
             Some e \<Rightarrow> Inl (LoadInvalid e)
           | None \<Rightarrow> Inr cfg))"

definition open_log :: "string \<Rightarrow> string option \<Rightarrow> string option" where
  "open_log output operr = (if output = ''stdout'' \<or> output = ''stderr'' then None else operr)"

text \<open>
  \<open>resourceScope\<close>: a configuration that cannot be applied ends it at once; otherwise it waits for the
  signal, which cancels the context the engine's is derived from.
\<close>

inductive resource_scope ::
    "'d dataplane_ops \<Rightarrow> apply_env \<Rightarrow> (nat \<Rightarrow> 'd world \<Rightarrow> 'd world) \<Rightarrow> ConfigDoc \<Rightarrow> 'd world
      \<Rightarrow> main_error option \<Rightarrow> 'd world \<Rightarrow> bool"
  for P E bg cfg w where
  failed: "applyConfig P E bg cfg w = Some (Some e, outs, w') \<Longrightarrow> resource_scope P E bg cfg w (Some e) w'"
| signalled: "applyConfig P E bg cfg w = Some (None, outs, w1) \<Longrightarrow> (world_step P)\<^sup>*\<^sup>* w1 w2 \<Longrightarrow>
    resource_scope P E bg cfg w None (world_cancel w2)"

text \<open>
  \<open>run\<close>: what it meets outside is a record; \<open>engine.New\<close> fails only for a dataplane that is \<open>nil\<close>. The
  result is the events of the shutdown, the error returned and, once the engine exists, the final world.
\<close>

record 'n daemon_env =
  de_doc :: "string + ConfigDoc"
  de_logErr :: "string option"
  de_nft :: 'n
  de_registry :: "'n connft registry"
  de_decls :: "plugin_decl list"
  de_apply :: apply_env
  de_bg :: "nat \<Rightarrow> 'n connft world \<Rightarrow> 'n connft world"
  de_target :: target
  de_frontend :: frontend

definition daemon_engine :: "'n daemon_env \<Rightarrow> 'n connft \<Rightarrow> 'n connft world" where
  "daemon_engine D d = engine_New False (de_target D) (de_frontend D) d"

definition daemon_plugins ::
    "'n daemon_env \<Rightarrow> ConfigDoc \<Rightarrow> 'n connft \<Rightarrow> main_error option \<times> 'n connft loaded_plugin list \<times> 'n connft world" where
  "daemon_plugins D cfg d =
     loadPlugins (de_registry D) (c_Plugins cfg) (de_decls D) [] (daemon_engine D d)"

inductive daemon_run ::
    "'n nft_ops \<Rightarrow> 'n daemon_env \<Rightarrow> shutdown_event list \<Rightarrow> main_error option \<Rightarrow> 'n connft world option \<Rightarrow> bool"
  for K D where
  no_config: "loadConfig (de_doc D) = Inl e \<Longrightarrow> daemon_run K D [] (Some (MainLoadConfig e)) None"
| no_log: "loadConfig (de_doc D) = Inr cfg \<Longrightarrow> open_log (log_Output (c_Log cfg)) (de_logErr D) = Some e \<Longrightarrow>
    daemon_run K D [] (Some (MainLogOutput e)) None"
| no_dataplane: "loadConfig (de_doc D) = Inr cfg \<Longrightarrow> open_log (log_Output (c_Log cfg)) (de_logErr D) = None \<Longrightarrow>
    connft_New K ''proxygw'' (de_nft D) = (Inl e, n) \<Longrightarrow> daemon_run K D [] (Some (MainDataplane e)) None"
| no_plugins: "loadConfig (de_doc D) = Inr cfg \<Longrightarrow> open_log (log_Output (c_Log cfg)) (de_logErr D) = None \<Longrightarrow>
    connft_New K ''proxygw'' (de_nft D) = (Inr d, n) \<Longrightarrow>
    daemon_plugins D cfg d = (Some e, loaded, w1) \<Longrightarrow> (world_step (connft_dataplane K))\<^sup>*\<^sup>* w1 w2 \<Longrightarrow>
    shutdown (connft_dataplane K) loaded w2 evs uerr w3 \<Longrightarrow> daemon_run K D evs (Some e) (Some w3)"
| scope: "loadConfig (de_doc D) = Inr cfg \<Longrightarrow> open_log (log_Output (c_Log cfg)) (de_logErr D) = None \<Longrightarrow>
    connft_New K ''proxygw'' (de_nft D) = (Inr d, n) \<Longrightarrow>
    daemon_plugins D cfg d = (None, loaded, w1) \<Longrightarrow>
    resource_scope (connft_dataplane K) (de_apply D) (de_bg D) cfg w1 serr w2 \<Longrightarrow>
    (world_step (connft_dataplane K))\<^sup>*\<^sup>* w2 w3 \<Longrightarrow> shutdown (connft_dataplane K) loaded w3 evs uerr w4 \<Longrightarrow>
    daemon_run K D evs (map_option MainJoined (errors_join [serr, uerr])) (Some w4)"

text \<open>
  \<open>main\<close>: what is wrong with the flags, if anything, and the exit status.
\<close>

inductive daemon_main ::
    "'n nft_ops \<Rightarrow> 'n daemon_env \<Rightarrow> string option \<Rightarrow> shutdown_event list \<Rightarrow> nat \<Rightarrow> 'n connft world option \<Rightarrow> bool"
  for K D where
  bad_flags: "daemon_main K D (Some e) [] 1 None"
| exits: "daemon_run K D evs err w \<Longrightarrow> daemon_main K D None evs (case err of None \<Rightarrow> 0 | Some _ \<Rightarrow> 1) w"

end
