(* ===== verification/Ctl_Cli.thy ===== *)
theory Ctl_Cli
  imports Conn_Spec Daemon
begin

text \<open>
  \<open>proxygwctl\<close> (\<open>cmd/proxygwctl/main.go\<close> and \<open>client.go\<close>): loading the configuration, dialling the control
  socket, the status request and the text it prints, and the exit status. Parsing the command line and
  reading the file are arguments, and so are the errors of the socket and of the standard output. The
  process ends with \<open>os.Exit\<close> on every error, which skips the deferred \<open>Close\<close>; the socket closes with it.
\<close>

section \<open>Printing\<close>

text \<open>The encoder with \<open>SetIndent\<close>: two spaces for each level, and nothing inside an empty array or object.\<close>

definition line_indent :: "nat \<Rightarrow> string" where
  "line_indent k = CHR 0x0A # replicate (2 * k) (CHR '' '')"

fun indent_json :: "nat \<Rightarrow> json \<Rightarrow> string" where
  "indent_json k (JArray vs) =
     (if vs = [] then ''[]''
      else ''['' @ commas (map (\<lambda>v. line_indent (Suc k) @ indent_json (Suc k) v) vs) @ line_indent k @ '']'')"
| "indent_json k (JObject kvs) =
     (if kvs = [] then ''{}''
      else ''{'' @ commas (map (\<lambda>(n, v). line_indent (Suc k) @ json_quote n @ '': '' @ indent_json (Suc k) v) kvs)
             @ line_indent k @ ''}'')"
| "indent_json k v = print_json v"

definition status_output :: "StatusReport \<Rightarrow> string" where
  "status_output r = indent_json 0 (StatusResponse_json r) @ [CHR 0x0A]"

section \<open>The client\<close>

datatype cli_error = CliParse string | CliLoad load_error | CliDial dial_error | CliUnsupported string
  | CliRequest ipc_error | CliStatus status_error | CliOutput string

text \<open>\<open>NewClient\<close> is a \<open>BaseClient\<close>; \<open>StatusRequest\<close> sends this packet and waits on the channel it gets.\<close>

definition NewClient :: client where
  "NewClient = NewBaseClient"

definition status_packet :: ipc_packet where
  "status_packet = \<lparr>p_Id = 0, p_Method = MethodStatusRequest, p_Body = ValBody StatusRequest\<rparr>"

definition client_StatusRequest :: "ipc_error + nat \<Rightarrow> ipc_packet option \<Rightarrow> cli_error + StatusReport" where
  "client_StatusRequest sent resp =
     (case sent of
        Inl e \<Rightarrow> Inl (CliRequest e)
      | Inr ch \<Rightarrow> (case StatusRequest_result resp of Inl e \<Rightarrow> Inl (CliStatus e) | Inr r \<Rightarrow> Inr r))"

section \<open>The command\<close>

definition runStatus :: "cli_error + StatusReport \<Rightarrow> string option \<Rightarrow> cli_error option \<times> string" where
  "runStatus reply werr =
     (case reply of
        Inl e \<Rightarrow> (Some e, [])
      | Inr r \<Rightarrow> (case werr of Some e \<Rightarrow> (Some (CliOutput e), []) | None \<Rightarrow> (None, status_output r)))"

text \<open>\<open>loadConfig\<close> of this program; the document of the file or the error of reading or decoding it is given.\<close>

definition ctl_loadConfig :: "string + ConfigDoc \<Rightarrow> load_error + ConfigDoc" where
  "ctl_loadConfig doc =
     (case doc of
        Inl e \<Rightarrow> Inl (LoadRead e)
      | Inr cfg \<Rightarrow> (case config_Validate (Some cfg) of Some e \<Rightarrow> Inl (LoadInvalid e) | None \<Rightarrow> Inr cfg))"

definition ctl_dial :: "string + ConfigDoc \<Rightarrow> string option \<Rightarrow> cli_error + string \<times> codec_name" where
  "ctl_dial doc derr =
     (case ctl_loadConfig doc of
        Inl e \<Rightarrow> Inl (CliLoad e)
      | Inr cfg \<Rightarrow> (case dialClient (c_Plugins cfg) derr of Inl e \<Rightarrow> Inl (CliDial e) | Inr sc \<Rightarrow> Inr sc))"

text \<open>\<open>main\<close>: the exit status, what is printed and the error that is logged.\<close>

definition cli_main ::
    "string + string \<Rightarrow> string + ConfigDoc \<Rightarrow> string option \<Rightarrow> cli_error + StatusReport \<Rightarrow> string option
      \<Rightarrow> nat \<times> string \<times> cli_error option" where
  "cli_main parsed doc derr reply werr =
     (case parsed of
        Inl e \<Rightarrow> (1, [], Some (CliParse e))
      | Inr command \<Rightarrow>
          (case ctl_dial doc derr of
             Inl e \<Rightarrow> (1, [], Some e)
           | Inr _ \<Rightarrow>
               (case if command = ''status'' then runStatus reply werr else (Some (CliUnsupported command), []) of
                  (Some e, out) \<Rightarrow> (1, out, Some e)
                | (None, out) \<Rightarrow> (0, out, None))))"

section \<open>What is printed reads back\<close>

lemma skip_ws_indent [simp]: "skip_ws (line_indent k @ s) = skip_ws s"
proof -
  have "skip_ws (replicate n (CHR '' '') @ s) = skip_ws s" for n
    by (induction n) (simp_all add: skip_ws_def is_ws_def)
  then show ?thesis by (simp add: line_indent_def skip_ws_newline)
qed

lemma skip_ws_space [simp]: "skip_ws (CHR '' '' # s) = skip_ws s"
  by (simp add: skip_ws_def is_ws_def)

lemma delim_indent [simp]: "delim (line_indent k @ s)"
  by (simp add: line_indent_def delim_def is_digit_def)

lemma value_indent [simp]:
  "p_value n d (line_indent k @ s) = p_value n d s" "p_value n d (CHR '' '' # s) = p_value n d s"
  by (cases n; simp add: p_value.simps)+

lemma next_is_indent [simp]: "next_is c (line_indent k @ s) = next_is c s"
  by (simp add: next_is_def)

lemma p_key_indent [simp]: "p_key (line_indent k @ s) = p_key s"
  by (simp add: p_key_def)

definition indent_elem :: "nat \<Rightarrow> json \<Rightarrow> string" where
  "indent_elem k v = line_indent k @ indent_json k v"

definition indent_member :: "nat \<Rightarrow> string \<times> json \<Rightarrow> string" where
  "indent_member k kv = line_indent k @ json_quote (fst kv) @ '': '' @ indent_json k (snd kv)"

lemma indent_empty: "indent_json k (JArray []) = ''[]''" "indent_json k (JObject []) = ''{}''"
  by simp_all

lemma indent_array:
  "vs \<noteq> [] \<Longrightarrow> indent_json k (JArray vs) = ''['' @ commas (map (indent_elem (Suc k)) vs) @ line_indent k @ '']''"
  by (simp add: indent_elem_def [abs_def])

lemma indent_object:
  "kvs \<noteq> [] \<Longrightarrow> indent_json k (JObject kvs) = ''{'' @ commas (map (indent_member (Suc k)) kvs) @ line_indent k @ ''}''"
  by (simp add: indent_member_def [abs_def] case_prod_unfold)

lemma indent_head:
  assumes "json_ok v"
  obtains c cs where "indent_json k v = c # cs" and "value_start c"
proof (cases v)
  case (JArray vs)
  then show ?thesis using that by (cases "vs = []") (auto simp: value_start_def is_ws_def)
next
  case (JObject kvs)
  then show ?thesis using that by (cases "kvs = []") (auto simp: value_start_def is_ws_def)
qed (use that print_json_head [OF assms] in auto)

lemma indent_elems_head:
  assumes "list_all json_ok vs" and "vs \<noteq> []"
  shows "next_is (CHR '']'') (commas (map (indent_elem k) vs) @ r) = None"
proof -
  obtain v ws where vs: "vs = v # ws" using assms(2) by (cases vs) auto
  with assms(1) have "json_ok v" by simp
  then obtain c cs where c: "indent_json k v = c # cs" "value_start c" by (rule indent_head)
  then have "\<not> is_ws c" "c \<noteq> CHR '']''" by (simp_all add: value_start_def)
  then show ?thesis using c by (simp add: vs commas_Cons indent_elem_def)
qed

lemma indent_members_head:
  "kvs \<noteq> [] \<Longrightarrow> next_is (CHR ''}'') (commas (map (indent_member k) kvs) @ r) = None"
  by (cases kvs) (simp_all add: commas_Cons indent_member_def json_quote_def is_ws_def)

lemma indent_parse:
  shows "json_ok v \<Longrightarrow> json_depth v \<le> d \<Longrightarrow> length (indent_json k v) < n \<Longrightarrow> delim r \<Longrightarrow>
      p_value n d (indent_json k v @ r) = Some (v, r)"
    and "list_all json_ok vs \<Longrightarrow> list_all (\<lambda>v. json_depth v \<le> d) vs \<Longrightarrow> length (commas (map (indent_elem k) vs)) + 1 < n \<Longrightarrow>
      vs \<noteq> [] \<Longrightarrow> p_elems n d (commas (map (indent_elem k) vs) @ line_indent i @ CHR '']'' # r) = Some (vs, r)"
    and "list_all (\<lambda>(k, v). valid_utf8 k \<and> json_ok v) kvs \<Longrightarrow> list_all (\<lambda>(k, v). json_depth v \<le> d) kvs \<Longrightarrow>
      length (commas (map (indent_member k) kvs)) + 1 < n \<Longrightarrow> kvs \<noteq> [] \<Longrightarrow>
      p_members n d (commas (map (indent_member k) kvs) @ line_indent i @ CHR ''}'' # r) = Some (kvs, r)"
proof (induction n arbitrary: d k i v vs kvs r)
  case 0
  { case 1 then show ?case by simp
  next case 2 then show ?case by simp
  next case 3 then show ?case by simp }
next
  case (Suc n)
  { case 1
    have leaf: "p_value (Suc n) d (print_json v @ r) = Some (v, r)" if "indent_json k v = print_json v"
      using print_parse(1) [of v d "Suc n" r] 1 that by simp
    show ?case
    proof (cases v)
      case (JArray vs)
      then obtain d' where d: "d = Suc d'" using 1 by (cases d) simp_all
      have "p_elems n d' (commas (map (indent_elem (Suc k)) vs) @ line_indent k @ CHR '']'' # r) = Some (vs, r)" if "vs \<noteq> []"
        using Suc.IH(2) [of vs d' "Suc k" k r] 1 that d JArray
        by (simp add: foldr_max_le list_all_iff indent_array del: indent_json.simps(1))
      then show ?thesis using 1 leaf d JArray indent_elems_head [of vs "Suc k" "line_indent k @ CHR '']'' # r"]
        by (cases "vs = []") (simp_all add: is_ws_def p_value.simps indent_array indent_empty del: indent_json.simps(1))
    next
      case (JObject kvs)
      then obtain d' where d: "d = Suc d'" using 1 by (cases d) simp_all
      have "p_members n d' (commas (map (indent_member (Suc k)) kvs) @ line_indent k @ CHR ''}'' # r) = Some (kvs, r)" if "kvs \<noteq> []"
        using Suc.IH(3) [of kvs d' "Suc k" k r] 1 that d JObject
        by (simp add: foldr_max_le list_all_iff indent_object case_prod_unfold del: indent_json.simps(2))
      then show ?thesis using 1 leaf d JObject indent_members_head [of kvs "Suc k" "line_indent k @ CHR ''}'' # r"]
        by (cases "kvs = []") (simp_all add: is_ws_def p_value.simps indent_object indent_empty del: indent_json.simps(2))
    qed (use leaf in simp_all)
  next
    case 2
    then obtain v ws where vs: "vs = v # ws" by (cases vs) auto
    show ?case
    proof (cases "ws = []")
      case True
      then show ?thesis using 2 vs Suc.IH(1) [of v d k "line_indent i @ CHR '']'' # r"] by (simp add: is_ws_def indent_elem_def)
    next
      case False
      have "p_elems n d (commas (map (indent_elem k) ws) @ line_indent i @ CHR '']'' # r) = Some (ws, r)"
        using 2 vs False Suc.IH(2) [of ws d k i r] by (simp add: commas_Cons)
      then show ?thesis
        using 2 vs False Suc.IH(1) [of v d k "CHR '','' # commas (map (indent_elem k) ws) @ line_indent i @ CHR '']'' # r"]
        by (simp add: commas_Cons is_ws_def indent_elem_def [of k v])
    qed
  next
    case 3
    then obtain n' v ws where kvs: "kvs = (n', v) # ws" by (cases kvs) auto
    have key: "p_key (json_quote n' @ CHR '':'' # x) = Some (n', x)" for x
      using p_key_print [of n' x] 3 kvs by simp
    show ?case
    proof (cases "ws = []")
      case True
      then show ?thesis using 3 kvs Suc.IH(1) [of v d k "line_indent i @ CHR ''}'' # r"] key
        by (simp add: is_ws_def indent_member_def)
    next
      case False
      have "p_members n d (commas (map (indent_member k) ws) @ line_indent i @ CHR ''}'' # r) = Some (ws, r)"
        using 3 kvs False Suc.IH(3) [of ws d k i r] by (simp add: commas_Cons)
      then show ?thesis
        using 3 kvs False Suc.IH(1) [of v d k "CHR '','' # commas (map (indent_member k) ws) @ line_indent i @ CHR ''}'' # r"] key
        by (simp add: commas_Cons is_ws_def indent_member_def [of k "(n', v)"])
    qed
  }
qed

lemma status_output_reads:
  assumes "report_ok r"
  shows "parse_text (status_output r) = Some (StatusResponse_json r)"
proof -
  have "p_value (Suc (length (status_output r))) max_nesting (indent_json 0 (StatusResponse_json r) @ [CHR 0x0A])
      = Some (StatusResponse_json r, [CHR 0x0A])"
    by (rule indent_parse(1)) (use status_response_json [OF assms] nesting_enough [of 5] in \<open>simp_all add: status_output_def\<close>)
  then show ?thesis by (simp add: parse_text_def parse_json_def status_output_def skip_ws_newline) (simp add: skip_ws_def)
qed

section \<open>A status call that succeeds\<close>

text \<open>A codec that carries the request and the report lets the call run to its end.\<close>

lemma status_run:
  assumes req: "parse_frame C (frame_of C (MakePacket 1 StatusRequest)) = Inr \<lparr>p_Id = 1, p_Method = MethodStatusRequest, p_Body = PtrBody StatusRequest\<rparr>"
    and resp: "parse_frame C (frame_of C (MakePacket 1 (StatusResponse rep))) =
      Inr \<lparr>p_Id = 1, p_Method = MethodStatusResponse, p_Body = PtrBody (StatusResponse rep)\<rparr>"
    and R: "R rep"
  shows "\<exists>y. ipc_reach C R y \<and> ob_next (bc_outbox (sy_client y)) = 1 \<and> sy_req y 0 = MakePacket 1 StatusRequest
    \<and> rc_buf (ob_chans (bc_outbox (sy_client y)) 0) =
        [\<lparr>p_Id = 1, p_Method = MethodStatusResponse, p_Body = PtrBody (StatusResponse rep)\<rparr>]"
proof -
  let ?cmds = "[DoRequest status_packet, DoServerRead, DoServerTau, DoServerTau, DoServe rep, DoServe rep,
      DoClientRead, DoClientTau]"
  have rq: "status_packet\<lparr>p_Id := 1\<rparr> = MakePacket 1 StatusRequest"
    by (simp add: status_packet_def MakePacket_def)
  have num: "\<not> IsResponse MethodStatusRequest" "IsResponse MethodStatusResponse"
    by (simp_all add: IsResponse_def method_numbers)
  have meth: "p_Method status_packet = MethodStatusRequest" "p_Id (MakePacket i b) = i" "p_Method (MakePacket i b) = body_Method b"
    for i b by (simp_all add: status_packet_def MakePacket_def)
  have "\<exists>y. ipc_run C R ?cmds ipc_start = Some y \<and> ob_next (bc_outbox (sy_client y)) = 1 \<and> sy_req y 0 = MakePacket 1 StatusRequest
      \<and> rc_buf (ob_chans (bc_outbox (sy_client y)) 0) =
        [\<lparr>p_Id = 1, p_Method = MethodStatusResponse, p_Body = PtrBody (StatusResponse rep)\<rparr>]"
    using assms
    by (simp add: ipc_start_def NewBaseClient_def NewBaseServer_def outbox_init_def client_Request_def ob_Request_def
        assignId_def Let_def server_got_def server_dispatchReq_def ib_dispatch_def chan_cap_def server_locked_def
        server_handle_def server_answer_def server_Respond_def ib_Respond_def wire_def client_got_def matchResp_def
        rq num meth)
  then show ?thesis using ipc_run_reach [OF _ ipc_reach.init] by metis
qed

section \<open>Properties\<close>

text \<open>The reports of an engine whose names and error texts are UTF-8 and whose protocols are valid.\<close>

definition engine_report ::
    "'n nft_ops \<Rightarrow> (target_error \<Rightarrow> string) \<Rightarrow> (frontend_error \<Rightarrow> string) \<Rightarrow> StatusReport \<Rightarrow> bool" where
  "engine_report K terr ferr rep \<longleftrightarrow> report_ok rep \<and> (\<exists>w. engine_reach K w \<and> rep = statusResponse terr ferr w)"

lemma json_status_reply:
  assumes "ipc_reach (json_codec F) R y" and "ch < ob_next (bc_outbox (sy_client y))"
    and "sy_req y ch = MakePacket i StatusRequest" and "rc_buf (ob_chans (bc_outbox (sy_client y)) ch) = res # rest"
    and ok: "\<And>rep. R rep \<Longrightarrow> report_ok rep"
  shows "\<exists>rep. R rep \<and> StatusRequest_result (Some res) = Inr rep"
proof -
  obtain rep req where rep: "R rep"
    and req: "parse_frame (json_codec F) (frame_of (json_codec F) (MakePacket i StatusRequest)) = Inr req"
    and res: "parse_frame (json_codec F) (frame_of (json_codec F) (server_answer rep req)) = Inr res"
    using answer_in_channel [OF assms(1,2,4)] assms(3) by auto
  have "req = \<lparr>p_Id = i, p_Method = MethodStatusRequest, p_Body = PtrBody StatusRequest\<rparr>"
    using req json_frame_back [of F StatusRequest i] by simp
  then have "server_answer rep req = MakePacket i (StatusResponse rep)" by (simp add: server_answer_def)
  then have "p_Body res = PtrBody (StatusResponse rep)"
    using res json_frame_back [of F "StatusResponse rep" i] ok [OF rep] by auto
  with rep show ?thesis by (auto simp: StatusRequest_result_def)
qed


definition demo_doc :: ConfigDoc where
  "demo_doc = \<lparr>c_Version = ''v1'', c_Log = \<lparr>log_Output = ''stderr'', log_Level = 0\<rparr>,
     c_Plugins = Some [(''ctl'', [(''socket'', AnyString ''/run/ctl.sock'')])], c_Targets = Some [], c_Frontends = Some []\<rparr>"

lemma demo_doc_dial: "ctl_dial (Inr demo_doc) None = Inr (''/run/ctl.sock'', CodecJSON)"
  by code_simp

lemma show_nat_ascii: "list_all (\<lambda>c. byte_of c < 128) (show_nat n)"
  using show_nat_digits [of _ n] by (force simp: list_all_iff is_digit_def byte_of_def)

lemma list_all_join: "list_all P sep \<Longrightarrow> list_all (list_all P) xs \<Longrightarrow> list_all P (join_with sep xs)"
  by (induction sep xs rule: join_with.induct) auto

lemma ip4_address_valid:
  assumes "ap_addr p = IP4 a"
  shows "valid_utf8 (ap_String p)"
proof (rule valid_ascii)
  have "list_all (\<lambda>c. byte_of c < 128) (show_ip4 a)"
    unfolding show_ip4_def
  proof (rule list_all_join)
    show "list_all (\<lambda>c. byte_of c < 128) [CHR ''.'']" by (simp add: byte_of_def)
    show "list_all (list_all (\<lambda>c. byte_of c < 128)) (map (\<lambda>b. show_nat (unat b)) (be_bytes 4 (unat a)))"
      using show_nat_ascii by (simp add: list.pred_map list.pred_True list_all_iff)
  qed
  moreover have "byte_of (CHR '':'') < 128" by (simp add: byte_of_def)
  ultimately show "list_all (\<lambda>c. byte_of c < 128) (ap_String p)" using assms show_nat_ascii by simp
qed

lemma demo_status_values:
  "t_kind (w_tgt demo_world 0) = ''static:none''" "t_err (w_tgt demo_world 0) = None"
  "target_Endpoints (w_tgt demo_world 0) = [demo_endpoint,
     \<lparr>e_Name = ''alt'', e_Address = \<lparr>ap_addr = IP4 0x0A000002, ap_port = 8081\<rparr>, e_Protocol = ProtocolTCP\<rparr>]"
  "f_name (w_fe demo_world 0) = ''fe''" "f_kind (w_fe demo_world 0) = ''static:always''" "f_err (w_fe demo_world 0) = None"
  "f_state (w_fe demo_world 0) = Stopped" "f_endpoint (w_fe demo_world 0) = demo_endpoint"
  by code_simp+

lemma demo_report_ok: "report_ok (statusResponse (\<lambda>_. []) (\<lambda>_. []) demo_world)"
proof -
  have tcp: "protocol_IsValid ProtocolTCP" by (simp add: protocol_IsValid_iff protocol_defs)
  have words: "list_all valid_utf8 [''web'', ''static:none'', ''inactive'', ''http'', ''alt'', ''fe'', ''static:always'', ''stopped'', []]"
    by (simp add: valid_ascii byte_of_def)
  have "target_status_ok (target_status (\<lambda>_. []) (w_tgt demo_world 0))"
    using tcp words by (simp add: target_status_def target_status_ok_def demo_status_values demo_world_values
        error_text_def list_all_iff endpoint_info_def info_ok_def ip4_address_valid demo_endpoint_def del: ap_String.simps)
  moreover have "frontend_status_ok (frontend_status (\<lambda>_. []) (w_tgt demo_world) (w_fe demo_world 0))"
    using tcp words by (simp add: frontend_status_def frontend_status_ok_def demo_status_values demo_world_values
        error_text_def frontend_Protocol_def frontend_Listen_def frontend_ProxyAddress_def ip4_address_valid
        demo_mapping_def demo_endpoint_def del: ap_String.simps)
  ultimately show ?thesis
    by (simp add: report_ok_def statusResponse_def engine_Targets_def engine_Frontends_def demo_world_values)
qed


text \<open>
  The exit status of \<open>proxygwctl\<close> is 0 exactly for the command \<open>status\<close> with a configuration that is
  valid and names a control socket that can be dialled with a known codec, a report for an answer and an
  output that can be written; then that report is printed. Otherwise it is 1, an error is logged and nothing
  is printed.
\<close>

theorem cli_exit_status:
  "(cli_main parsed doc derr reply werr = (0, out, err) \<longleftrightarrow>
      parsed = Inr ''status'' \<and> err = None \<and> werr = None \<and> (\<exists>r. reply = Inr r \<and> out = status_output r)
      \<and> (\<exists>cfg sc. doc = Inr cfg \<and> config_Validate (Some cfg) = None \<and> dialClient (c_Plugins cfg) derr = Inr sc))
   \<and> ((\<exists>o'. cli_main parsed doc derr reply werr = (0, o', None)) \<or> (\<exists>e. cli_main parsed doc derr reply werr = (1, [], Some e)))"
proof -
  have dial: "(\<exists>sc. ctl_dial doc derr = Inr sc) \<longleftrightarrow>
      (\<exists>cfg sc. doc = Inr cfg \<and> config_Validate (Some cfg) = None \<and> dialClient (c_Plugins cfg) derr = Inr sc)"
    by (cases doc) (auto simp: ctl_dial_def ctl_loadConfig_def split: sum.splits option.splits)
  show ?thesis
    unfolding dial [symmetric]
    by (cases parsed; cases "ctl_dial doc derr"; cases reply; cases werr) (auto simp: cli_main_def runStatus_def)
qed

end
