(* ===== verification/Plugin_Gen.thy ===== *)
theory Plugin_Gen
  imports Config Go_Strings
begin

text \<open>
  \<open>cmd/proxygw/gen/main.go\<close>: the generator that turns \<open>plugin.yaml\<close> into the list of plugins compiled
  into the daemon, with the part of \<open>path/filepath\<close> it uses (on Unix, where \<open>FromSlash\<close> and \<open>ToSlash\<close>
  change nothing). The YAML decoder, the quoting of \<open>%q\<close>, the formatter and the files are arguments.
\<close>

section \<open>Paths\<close>

text \<open>The elements of a path, cleaned; those already kept are in reverse order.\<close>

fun clean_elems :: "bool \<Rightarrow> string list \<Rightarrow> string list \<Rightarrow> string list" where
  "clean_elems rooted kept [] = rev kept"
| "clean_elems rooted kept (p # ps) =
     (if p = '''' \<or> p = ''.'' then clean_elems rooted kept ps
      else if p = ''..'' then
        (if kept \<noteq> [] \<and> hd kept \<noteq> ''..'' then clean_elems rooted (tl kept) ps
         else if rooted then clean_elems rooted kept ps
         else clean_elems rooted (p # kept) ps)
      else clean_elems rooted (p # kept) ps)"

definition path_Clean :: "string \<Rightarrow> string" where
  "path_Clean s =
     (if s = '''' then ''.''
      else let rooted = (hd s = CHR ''/'');
               body = join_with ''/'' (clean_elems rooted [] (go_split CHR ''/'' s))
           in if rooted then CHR ''/'' # body else if body = '''' then ''.'' else body)"

definition path_Join :: "string list \<Rightarrow> string" where
  "path_Join elems =
     (case dropWhile (\<lambda>e. e = '''') elems of [] \<Rightarrow> '''' | es \<Rightarrow> path_Clean (join_with ''/'' es))"

section \<open>The declarations of \<open>plugin.yaml\<close>\<close>

record gen_decl =
  gd_source :: string
  gd_name :: string

datatype yaml_kind = DocumentNode | SequenceNode | MappingNode | ScalarNode | AliasNode

datatype yaml_node = YNode (y_Kind: yaml_kind) (y_Value: string) (y_Content: "yaml_node list")

datatype gen_error =
    GenWorkingDirectory string
  | GenNoModFile string
  | GenReadMod string
  | GenNoModule
  | GenReadYaml string
  | GenParseYaml string
  | GenEmpty
  | GenRootNotMapping
  | GenPluginsNotMapping
  | GenSourceNotScalar nat
  | GenNameNotScalar string
  | GenSourceEmpty
  | GenNameEmpty
  | GenFormat string
  | GenWrite string
  | GenIndexOutOfRange

text \<open>The two loops over the content of a mapping, in steps of two; \<open>i\<close> is the number of the entry.\<close>

fun find_plugins :: "yaml_node list \<Rightarrow> gen_error + yaml_node option" where
  "find_plugins [] = Inr None"
| "find_plugins [k] = Inl GenIndexOutOfRange"
| "find_plugins (k # v # rest) =
     (if y_Kind k = ScalarNode \<and> y_Value k = ''plugins'' then Inr (Some v) else find_plugins rest)"

fun read_decls :: "nat \<Rightarrow> yaml_node list \<Rightarrow> gen_error + gen_decl list" where
  "read_decls i [] = Inr []"
| "read_decls i [s] = Inl GenIndexOutOfRange"
| "read_decls i (s # n # rest) =
     (if y_Kind s \<noteq> ScalarNode then Inl (GenSourceNotScalar i)
      else if y_Kind n \<noteq> ScalarNode then Inl (GenNameNotScalar (y_Value s))
      else case read_decls (Suc i) rest of
             Inl e \<Rightarrow> Inl e
           | Inr ds \<Rightarrow> Inr (\<lparr>gd_source = y_Value s, gd_name = y_Value n\<rparr> # ds))"

text \<open>\<open>parsePluginYaml\<close> on what reading the file and decoding it answer.\<close>

definition plugins_mapping :: "yaml_node \<Rightarrow> gen_error + gen_decl list" where
  "plugins_mapping node =
     (if y_Kind node = DocumentNode \<and> y_Content node = [] then Inl GenEmpty
      else let p = (if y_Kind node = DocumentNode then hd (y_Content node) else node)
           in if y_Kind p \<noteq> MappingNode then Inl GenPluginsNotMapping else read_decls 1 (y_Content p))"

definition parsePluginYaml :: "string + string + yaml_node \<Rightarrow> gen_error + gen_decl list" where
  "parsePluginYaml input =
     (case input of
        Inl e \<Rightarrow> Inl (GenReadYaml e)
      | Inr (Inl e) \<Rightarrow> Inl (GenParseYaml e)
      | Inr (Inr doc) \<Rightarrow>
          (if y_Content doc = [] then Inl GenEmpty
           else let root = (if y_Kind doc = DocumentNode then hd (y_Content doc) else doc)
                in if y_Kind root \<noteq> MappingNode then Inl GenRootNotMapping
                   else case find_plugins (y_Content root) of
                     Inl e \<Rightarrow> Inl e
                   | Inr None \<Rightarrow> Inl GenEmpty
                   | Inr (Some node) \<Rightarrow> plugins_mapping node))"

section \<open>Resolving\<close>

text \<open>A source that names a directory under \<open>plugin/\<close> stands for that package of the module.\<close>

fun resolvePlugins :: "(string \<Rightarrow> bool) \<Rightarrow> string \<Rightarrow> string \<Rightarrow> gen_decl list \<Rightarrow> gen_error + gen_decl list" where
  "resolvePlugins isDir root module [] = Inr []"
| "resolvePlugins isDir root module (decl # decls) =
     (if gd_source decl = '''' then Inl GenSourceEmpty
      else if gd_name decl = '''' then Inl GenNameEmpty
      else let decl' = (if isDir (path_Join [root, ''plugin'', gd_source decl])
                        then decl\<lparr>gd_source := path_Join [module, ''plugin'', gd_source decl]\<rparr> else decl)
           in case resolvePlugins isDir root module decls of
                Inl e \<Rightarrow> Inl e
              | Inr ds \<Rightarrow> Inr (decl' # ds))"

section \<open>The module and the output\<close>

text \<open>\<open>TrimRight(line, "\r")\<close>.\<close>

definition trim_cr :: "string \<Rightarrow> string" where
  "trim_cr s = rev (dropWhile (\<lambda>c. c = CHR 0x0D) (rev s))"

fun module_line :: "string list \<Rightarrow> string" where
  "module_line [] = ''''"
| "module_line (line # lines) =
     (let trimmed = TrimSpace (trim_cr line)
      in if \<not> has_prefix ''module '' trimmed then module_line lines
         else TrimSpace (drop (length ''module '') trimmed))"

text \<open>
  \<open>repoRoot\<close> on the working directory, whether there is a \<open>go.mod\<close> in the root and what reading it
  answers.
\<close>

definition repoRoot ::
    "string + string \<Rightarrow> (string \<Rightarrow> string option) \<Rightarrow> (string \<Rightarrow> string + string) \<Rightarrow> gen_error + string \<times> string" where
  "repoRoot getwd stat readFile =
     (case getwd of
        Inl e \<Rightarrow> Inl (GenWorkingDirectory e)
      | Inr wd \<Rightarrow>
          (let root = path_Clean (path_Join [wd, ''..'', ''..'']); modPath = path_Join [root, ''go.mod'']
           in case stat modPath of
                Some e \<Rightarrow> Inl (GenNoModFile e)
              | None \<Rightarrow>
                  (case readFile modPath of
                     Inl e \<Rightarrow> Inl (GenReadMod e)
                   | Inr modData \<Rightarrow>
                       (let module = module_line (go_split CHR 0x0A modData)
                        in if module = '''' then Inl GenNoModule else Inr (root, module)))))"

definition nl :: string where "nl = [CHR 0x0A]"
definition tab :: string where "tab = [CHR 0x09]"

definition plugin_source :: "(string \<Rightarrow> string) \<Rightarrow> gen_decl list \<Rightarrow> string" where
  "plugin_source quote decls =
     ''package main'' @ nl @ nl @ ''// Code generated by go generate; DO NOT EDIT.'' @ nl @ nl @
     ''import ('' @ nl @
     concat (map (\<lambda>decl. tab @ ''_ '' @ quote (gd_source decl) @ nl) decls) @
     '')'' @ nl @ nl @ ''func init() {'' @ nl @ tab @ ''pluginDecls = []pluginDecl{'' @ nl @
     concat (map (\<lambda>decl. tab @ tab @ ''{'' @ quote (gd_source decl) @ '', '' @ quote (gd_name decl) @ ''},'' @ nl) decls) @
     tab @ ''}'' @ nl @ ''}'' @ nl"

definition writePluginFile ::
    "(string \<Rightarrow> string) \<Rightarrow> (string \<Rightarrow> string + string) \<Rightarrow> (string \<Rightarrow> string option) \<Rightarrow> gen_decl list \<Rightarrow> gen_error option" where
  "writePluginFile quote format write decls =
     (case format (plugin_source quote decls) of
        Inl e \<Rightarrow> Some (GenFormat e)
      | Inr formatted \<Rightarrow> map_option GenWrite (write formatted))"

text \<open>\<open>run\<close> up to the writing of the file: the declarations that are written.\<close>

definition gen_run ::
    "gen_error + string \<times> string \<Rightarrow> (string \<Rightarrow> string + string + yaml_node) \<Rightarrow> (string \<Rightarrow> bool) \<Rightarrow> gen_error + gen_decl list" where
  "gen_run repo readYaml isDir =
     (case repo of
        Inl e \<Rightarrow> Inl e
      | Inr (root, module) \<Rightarrow>
          (case parsePluginYaml (readYaml (path_Join [root, ''plugin.yaml''])) of
             Inl e \<Rightarrow> Inl e
           | Inr decls \<Rightarrow> resolvePlugins isDir root module decls))"

section \<open>Lemmas\<close>

text \<open>A path without separators, dots and empty elements is clean, and joining keeps it.\<close>

definition plain :: "string \<Rightarrow> bool" where
  "plain p \<longleftrightarrow> p \<noteq> '''' \<and> p \<noteq> ''.'' \<and> p \<noteq> ''..'' \<and> CHR ''/'' \<notin> set p"

lemma go_split_join: "list_all plain ps \<Longrightarrow> ps \<noteq> [] \<Longrightarrow> go_split CHR ''/'' (join_with ''/'' ps) = ps"
  by (induction "''/''" ps rule: join_with.induct) (simp_all add: plain_def go_split_no_sep go_split_sep)

lemma clean_elems_plain: "list_all plain ps \<Longrightarrow> clean_elems rooted kept ps = rev kept @ ps"
  by (induction ps arbitrary: kept) (simp_all add: plain_def)

lemma join_with_append:
  "ps \<noteq> [] \<Longrightarrow> qs \<noteq> [] \<Longrightarrow> join_with sep (ps @ qs) = join_with sep ps @ sep @ join_with sep qs"
proof (induction sep ps rule: join_with.induct)
  case (2 sep x)
  then show ?case by (cases qs) simp_all
qed simp_all

lemma path_Clean_plain:
  assumes "list_all plain ps" and "ps \<noteq> []"
  shows "path_Clean (join_with ''/'' ps) = join_with ''/'' ps"
proof -
  obtain p rest where ps: "ps = p # rest" using assms(2) by (cases ps) auto
  have p: "p \<noteq> ''''" "hd p \<noteq> CHR ''/''" using assms(1) ps by (cases p; auto simp: plain_def)+
  have "join_with ''/'' ps \<noteq> '''' \<and> hd (join_with ''/'' ps) = hd p" using p ps by (cases rest) simp_all
  with p assms show ?thesis by (simp add: path_Clean_def Let_def go_split_join clean_elems_plain)
qed

lemma path_Join_plain:
  assumes "list_all plain ms" "ms \<noteq> []" "list_all plain ss" "ss \<noteq> []"
  shows "path_Join [join_with ''/'' ms, ''plugin'', join_with ''/'' ss] = join_with ''/'' (ms @ ''plugin'' # ss)"
proof -
  obtain p rest where ms: "ms = p # rest" using assms(2) by (cases ms) auto
  have "p \<noteq> ''''" using assms(1) ms by (simp add: plain_def)
  then have "join_with ''/'' ms \<noteq> ''''" using ms by (cases rest) simp_all
  moreover have "join_with ''/'' [join_with ''/'' ms, ''plugin'', join_with ''/'' ss] = join_with ''/'' (ms @ ''plugin'' # ss)"
    using assms join_with_append [of ms "''plugin'' # ss" "''/''"] join_with_append [of "[''plugin'']" ss "''/''"] by simp
  moreover have "list_all plain (ms @ ''plugin'' # ss)" using assms by (simp add: plain_def)
  ultimately show ?thesis using path_Clean_plain [of "ms @ ''plugin'' # ss"] by (simp add: path_Join_def)
qed

text \<open>The entries of the mapping are read in their order, and resolving keeps order and names.\<close>

definition scalar :: "string \<Rightarrow> yaml_node" where
  "scalar v = YNode ScalarNode v []"

lemma read_decls_scalars:
  "read_decls i (concat (map (\<lambda>d. [scalar (gd_source d), scalar (gd_name d)]) ds)) = Inr ds"
  by (induction ds arbitrary: i) (simp_all add: scalar_def)

lemma resolvePlugins_iff:
  "resolvePlugins isDir root module decls = Inr ds \<longleftrightarrow>
     list_all (\<lambda>d. gd_source d \<noteq> [] \<and> gd_name d \<noteq> []) decls
     \<and> ds = map (\<lambda>d. if isDir (path_Join [root, ''plugin'', gd_source d])
          then d\<lparr>gd_source := path_Join [module, ''plugin'', gd_source d]\<rparr> else d) decls"
  (is "_ \<longleftrightarrow> list_all ?ok decls \<and> ds = map ?res decls")
proof (induction decls arbitrary: ds)
  case (Cons d decls)
  show ?case
  proof (cases "resolvePlugins isDir root module decls")
    case (Inl e)
    then have "\<not> list_all ?ok decls" using Cons [of "map ?res decls"] by simp
    with Inl show ?thesis by (simp add: Let_def)
  next
    case (Inr xs)
    then have "list_all ?ok decls \<and> xs = map ?res decls" using Cons by blast
    with Inr show ?thesis by (auto simp: Let_def)
  qed
qed auto

end
