(* ===== verification/Daemon_Spec.thy ===== *)
theory Daemon_Spec
  imports Daemon Ctl_Spec Plugin_Gen
begin

text \<open>
  The properties of the daemon: what starting up and shutting down achieve, over connft, and that the
  generated list of plugins names the plugins that register themselves.
\<close>

section \<open>The other goroutines\<close>

text \<open>Every step of the world except a call of the engine by the main goroutine and the final close.\<close>

inductive world_bg :: "'d dataplane_ops \<Rightarrow> 'd world \<Rightarrow> 'd world \<Rightarrow> bool" for P where
  bg_parent: "world_bg P w (world_cancel w)"
| bg_eloop: "engine_loop P w w' \<Longrightarrow> world_bg P w w'"
| bg_tloop: "i < w_ntgt w \<Longrightarrow> target_loop P (w_tgt w i, w_dplane w) l (t', d') \<Longrightarrow>
    world_bg P w ((upd_tgt i t' w)\<lparr>w_dplane := d'\<rparr>)"
| bg_tapi: "i < w_ntgt w \<Longrightarrow> target_api (w_tgt w i) t' \<Longrightarrow> world_bg P w (upd_tgt i t' w)"
| bg_floop: "i < w_nfe w \<Longrightarrow>
    frontend_loop P (w_fe w i, w_tgt w (f_target (w_fe w i)), w_dplane w) l (f', t', d') \<Longrightarrow>
    world_bg P w ((upd_fe i f' (upd_tgt (f_target (w_fe w i)) t' w))\<lparr>w_dplane := d'\<rparr>)"
| bg_fapi: "i < w_nfe w \<Longrightarrow> frontend_api (w_fe w i) f' \<Longrightarrow> world_bg P w (upd_fe i f' w)"

lemma world_bg_step: "world_bg P w w' \<Longrightarrow> world_step P w w'"
  by (cases rule: world_bg.cases, assumption) (auto intro: world_step.intros)

definition tables_kept :: "'d world \<Rightarrow> 'd world \<Rightarrow> bool" where
  "tables_kept w w' \<longleftrightarrow> w_targets w' = w_targets w \<and> w_frontends w' = w_frontends w
     \<and> w_ntgt w' = w_ntgt w \<and> w_nfe w' = w_nfe w"

lemma detectTimeouts_tables: "detect_targets xs stale ts w = Some w' \<Longrightarrow> tables_kept w w'"
  by (induction xs stale ts w rule: detect_targets.induct)
    (auto simp: tables_kept_def upd_tgt_def Let_def split: if_splits option.splits)

lemma world_bg_tables:
  assumes "world_bg P w w'"
  shows "tables_kept w w'"
  using assms
proof cases
  case bg_eloop
  then show ?thesis
  proof cases
    case (detect stale ts w1)
    then show ?thesis using detectTimeouts_tables [of _ stale ts w w1]
      by (simp add: engine_detectTimeouts_def tables_kept_def)
  qed (auto simp: tables_kept_def engine_poll_def engine_Close_def world_cancel_def split: prod.split sum.split)
qed (simp_all add: tables_kept_def world_cancel_def upd_tgt_def upd_fe_def)

lemma world_bg_star:
  assumes "(world_bg P)\<^sup>*\<^sup>* w w'"
  shows "tables_kept w w'" and "(world_step P)\<^sup>*\<^sup>* w w'"
proof -
  show "tables_kept w w'"
    using assms by (induction rule: rtranclp_induct) (auto simp: tables_kept_def dest!: world_bg_tables)
  show "(world_step P)\<^sup>*\<^sup>* w w'"
    using assms by (induction rule: rtranclp_induct) (auto intro: rtranclp.rtrancl_into_rtrancl world_bg_step)
qed

lemma engine_reach_star:
  assumes "(world_step (connft_dataplane K))\<^sup>*\<^sup>* w w'" and "engine_reach K w"
  shows "engine_reach K w'"
  using assms by (induction rule: rtranclp_induct) (auto intro: engine_reach_step)

definition background :: "'n nft_ops \<Rightarrow> (nat \<Rightarrow> 'n connft world \<Rightarrow> 'n connft world) \<Rightarrow> bool" where
  "background K bg \<longleftrightarrow> (\<forall>k w. (world_bg (connft_dataplane K))\<^sup>*\<^sup>* w (bg k w))"

lemma backgroundD:
  assumes "background K bg"
  shows "engine_reach K w \<Longrightarrow> engine_reach K (bg k w)" and "tables_kept w (bg k w)"
  using assms world_bg_star [of "connft_dataplane K" w "bg k w"] engine_reach_star
  by (auto simp: background_def)

section \<open>Starting up\<close>

lemma NewTarget_registers:
  assumes "engine_NewTarget P cfg made herr now0 now w = (Inr i, w')"
  shows "map_of (w_targets w') = (map_of (w_targets w))(tc_Name cfg \<mapsto> i)"
  using assms
  by (auto simp: engine_NewTarget_def Let_def update_conv' target_New_def
      split: if_splits sum.splits prod.splits)

lemma NewTarget_outcome_frame:
  "engine_NewTarget P cfg made herr now0 now w = (Inl e, w') \<Longrightarrow> w_targets w' = w_targets w"
  by (auto simp: engine_NewTarget_def Let_def split: if_splits sum.splits prod.splits)

lemma NewFrontend_registers:
  assumes "engine_NewFrontend P cfg made herr w = (r, w')"
  shows "w_targets w' = w_targets w \<and> (case r of
      Inl e \<Rightarrow> w_frontends w' = w_frontends w
    | Inr i \<Rightarrow> map_of (w_frontends w) (fc_Name cfg) = None \<and> i < w_nfe w'
        \<and> map_of (w_frontends w') = (map_of (w_frontends w))(fc_Name cfg \<mapsto> i))"
  using assms
  by (auto simp: engine_NewFrontend_def Let_def update_conv' frontend_New_def
      split: if_splits sum.splits prod.splits option.splits)

lemma apply_targets_outcome:
  assumes "background K bg" and "engine_reach K w"
    and "apply_targets (connft_dataplane K) E bg k cfgs w = (err, w')"
  shows "engine_reach K w' \<and> (\<forall>n. map_of (w_targets w) n \<noteq> None \<longrightarrow> map_of (w_targets w') n \<noteq> None)
    \<and> (case err of
         None \<Rightarrow> \<forall>t \<in> set cfgs. map_of (w_targets w') (tc_Name t) \<noteq> None
       | Some e \<Rightarrow> \<exists>pre t post ee. cfgs = pre @ t # post \<and> e = MainCreateTarget (tc_Name t) ee
           \<and> (\<forall>t \<in> set pre. map_of (w_targets w') (tc_Name t) \<noteq> None))"
  using assms(2,3)
proof (induction cfgs arbitrary: k w)
  case Nil
  then show ?case by auto
next
  case (Cons cfg cfgs)
  let ?n = "tc_Name cfg" and ?P = "connft_dataplane K"
  note bg = backgroundD [OF assms(1), of w k]
  obtain r w1 where new: "engine_NewTarget ?P cfg (ae_target E ?n) (ae_targetClose E ?n) (fst (ae_now E ?n))
      (snd (ae_now E ?n)) (bg k w) = (r, w1)"
    by (cases "engine_NewTarget ?P cfg (ae_target E ?n) (ae_targetClose E ?n) (fst (ae_now E ?n))
      (snd (ae_now E ?n)) (bg k w)")
  have reach: "engine_reach K w1"
    using engine_reach_exec [OF bg(1) [OF Cons.prems(1)], of "CallNewTarget cfg (ae_target E ?n)
        (ae_targetClose E ?n) (fst (ae_now E ?n)) (snd (ae_now E ?n))"] new by simp
  show ?case
  proof (cases r)
    case (Inl e)
    have "w_targets w1 = w_targets w"
      using NewTarget_outcome_frame [OF new [unfolded Inl]] bg(2) by (simp add: tables_kept_def)
    moreover have "err = Some (MainCreateTarget ?n e)" "w' = w1" using Cons.prems(2) new Inl by simp_all
    ultimately show ?thesis using reach by (auto intro!: exI [of _ "[]"])
  next
    case (Inr i)
    have rest: "apply_targets ?P E bg (Suc k) cfgs w1 = (err, w')" using Cons.prems(2) new Inr by simp
    have tab: "map_of (w_targets w1) = (map_of (w_targets w))(?n \<mapsto> i)"
      using NewTarget_registers [OF new [unfolded Inr]] bg(2) by (simp add: tables_kept_def)
    note ih = Cons.IH [OF reach rest]
    have keep: "map_of (w_targets w) n \<noteq> None \<Longrightarrow> map_of (w_targets w') n \<noteq> None"
      and here: "map_of (w_targets w') ?n \<noteq> None" for n
      using ih by (auto simp: tab)
    show ?thesis
    proof (cases err)
      case None
      with ih keep here show ?thesis by simp
    next
      case (Some e)
      with ih obtain pre t post ee where "cfgs = pre @ t # post" "e = MainCreateTarget (tc_Name t) ee"
        "\<forall>t \<in> set pre. map_of (w_targets w') (tc_Name t) \<noteq> None" by auto
      then have "cfg # cfgs = (cfg # pre) @ t # post" "e = MainCreateTarget (tc_Name t) ee"
        "\<forall>t \<in> set (cfg # pre). map_of (w_targets w') (tc_Name t) \<noteq> None" using here by auto
      with Some ih keep show ?thesis by (simp only: option.case) blast
    qed
  qed
qed

lemma NewTarget_frontends:
  "engine_NewTarget P cfg made herr now0 now w = (r, w') \<Longrightarrow> w_frontends w' = w_frontends w"
  by (auto simp: engine_NewTarget_def Let_def split: if_splits sum.splits prod.splits)

lemma apply_targets_frontends:
  assumes "background K bg" and "apply_targets P E bg k cfgs w = (err, w')"
  shows "w_frontends w' = w_frontends w"
  using assms(2)
proof (induction cfgs arbitrary: k w)
  case (Cons cfg cfgs)
  have "w_frontends (bg k w) = w_frontends w" using backgroundD(2) [OF assms(1), of w k] by (simp add: tables_kept_def)
  with Cons show ?case
    by (auto simp: Let_def dest!: NewTarget_frontends split: prod.splits sum.splits)
qed simp

definition outcome_ok :: "'d world \<Rightarrow> FrontendCfg \<Rightarrow> fe_outcome \<Rightarrow> bool" where
  "outcome_ok w cfg out \<longleftrightarrow> (case out of
     FeNotCreated _ \<Rightarrow> True
   | FeStartRejected i \<Rightarrow> map_of (w_frontends w) (fc_Name cfg) = Some i
   | FeStartRequested i \<Rightarrow> map_of (w_frontends w) (fc_Name cfg) = Some i)"

lemma Start_never_blocks:
  assumes "engine_reach K w" and "i < w_nfe w"
  shows "\<exists>ok f'. frontend_Start (w_fe w i) = Some (ok, f')"
proof -
  obtain p where "frontend_inv p (w_fe w i)"
    using cdp.world_okD(3) [OF engine_reach_ok [OF assms(1)]] assms(2) by (auto simp: stores_ok_def)
  then show ?thesis using frontend_inv_sends(1) by (metis option.exhaust surj_pair)
qed

lemma apply_frontends_outcome:
  assumes "background K bg" and "engine_reach K w"
  shows "\<exists>outs w'. apply_frontends (connft_dataplane K) E bg k cfgs w = Some (outs, w') \<and> engine_reach K w'
    \<and> w_targets w' = w_targets w \<and> list_all2 (outcome_ok w') cfgs outs
    \<and> (\<forall>n i. map_of (w_frontends w) n = Some i \<longrightarrow> map_of (w_frontends w') n = Some i)"
  using assms(2)
proof (induction cfgs arbitrary: k w)
  case Nil
  then show ?case by simp
next
  case (Cons cfg cfgs)
  let ?n = "fc_Name cfg" and ?P = "connft_dataplane K"
  note bg = backgroundD [OF assms(1), of w k]
  obtain r w1 where new: "engine_NewFrontend ?P cfg (ae_frontend E ?n) (ae_frontendClose E ?n) (bg k w) = (r, w1)"
    by (cases "engine_NewFrontend ?P cfg (ae_frontend E ?n) (ae_frontendClose E ?n) (bg k w)")
  have reach: "engine_reach K w1"
    using engine_reach_exec [OF bg(1) [OF Cons.prems], of "CallNewFrontend cfg (ae_frontend E ?n) (ae_frontendClose E ?n)"]
      new by simp
  note reg = NewFrontend_registers [OF new]
  show ?case
  proof (cases r)
    case (Inl e)
    obtain outs w' where ih: "apply_frontends ?P E bg (k + 2) cfgs w1 = Some (outs, w')" "engine_reach K w'"
      "w_targets w' = w_targets w1" "list_all2 (outcome_ok w') cfgs outs"
      "\<forall>n i. map_of (w_frontends w1) n = Some i \<longrightarrow> map_of (w_frontends w') n = Some i"
      using Cons.IH [OF reach, of "k + 2"] by blast
    have "apply_frontends ?P E bg k (cfg # cfgs) w = Some (FeNotCreated e # outs, w')"
      using new Inl ih(1) by simp
    moreover have "outcome_ok w' cfg (FeNotCreated e)" by (simp add: outcome_ok_def)
    ultimately show ?thesis
      using ih reg Inl bg(2) by (simp del: apply_frontends.simps add: tables_kept_def)
  next
    case (Inr i)
    let ?w2 = "bg (Suc k) w1"
    note bg2 = backgroundD [OF assms(1), of w1 "Suc k"]
    have i: "i < w_nfe ?w2" using reg Inr bg2(2) by (simp add: tables_kept_def)
    obtain ok f' where st: "frontend_Start (w_fe ?w2 i) = Some (ok, f')"
      using Start_never_blocks [OF bg2(1) [OF reach] i] by blast
    let ?w3 = "upd_fe i f' ?w2"
    have "engine_reach K ?w3"
      by (rule engine_reach_step [OF bg2(1) [OF reach] world_step.fapi [OF i frontend_api.start [OF st]]])
    then obtain outs w' where ih: "apply_frontends ?P E bg (k + 2) cfgs ?w3 = Some (outs, w')" "engine_reach K w'"
      "w_targets w' = w_targets ?w3" "list_all2 (outcome_ok w') cfgs outs"
      "\<forall>n j. map_of (w_frontends ?w3) n = Some j \<longrightarrow> map_of (w_frontends w') n = Some j"
      using Cons.IH [of ?w3 "k + 2"] by blast
    have kept: "w_frontends ?w3 = w_frontends w1" "w_targets ?w3 = w_targets w1"
      using bg2(2) by (simp_all add: tables_kept_def upd_fe_def)
    have "apply_frontends ?P E bg k (cfg # cfgs) w =
        Some ((if ok then FeStartRequested i else FeStartRejected i) # outs, w')"
      using new Inr st ih(1) by (simp add: Let_def)
    moreover have "map_of (w_frontends w') ?n = Some i" using ih(5) reg Inr kept(1) by simp
    then have "outcome_ok w' cfg (if ok then FeStartRequested i else FeStartRejected i)" by (simp add: outcome_ok_def)
    moreover have "map_of (w_frontends w') n = Some j" if "map_of (w_frontends w) n = Some j" for n j
    proof -
      have "n \<noteq> ?n" using that reg Inr bg(2) by (auto simp: tables_kept_def)
      then have "map_of (w_frontends ?w3) n = Some j" using that reg Inr kept(1) bg(2) by (simp add: tables_kept_def)
      then show ?thesis using ih(5) by blast
    qed
    ultimately show ?thesis
      using ih(2-4) kept(2) reg bg(2) by (simp del: apply_frontends.simps add: tables_kept_def)
  qed
qed

lemma apply_outcome:
  assumes "engine_reach K w" and "background K bg"
    and "c_Targets cfg = Some targets" and "c_Frontends cfg = Some frontends"
  shows "\<exists>err outs w'. applyConfig (connft_dataplane K) E bg cfg w = Some (err, outs, w') \<and> engine_reach K w'
    \<and> (case err of
         None \<Rightarrow> (\<forall>t \<in> set targets. map_of (w_targets w') (tc_Name t) \<noteq> None)
           \<and> list_all2 (outcome_ok w') frontends outs
       | Some e \<Rightarrow> \<exists>pre t post ee. targets = pre @ t # post \<and> e = MainCreateTarget (tc_Name t) ee
           \<and> (\<forall>t \<in> set pre. map_of (w_targets w') (tc_Name t) \<noteq> None) \<and> outs = []
           \<and> w_frontends w' = w_frontends w)"
proof -
  let ?P = "connft_dataplane K"
  obtain err w1 where a: "apply_targets ?P E bg 0 targets w = (err, w1)" by (cases "apply_targets ?P E bg 0 targets w")
  note ta = apply_targets_outcome [OF assms(2,1) a]
  show ?thesis
  proof (cases err)
    case (Some e)
    with ta a assms(3,4) apply_targets_frontends [OF assms(2) a] show ?thesis by (auto simp: applyConfig_def)
  next
    case None
    obtain outs w' where f: "apply_frontends ?P E bg (length targets) frontends w1 = Some (outs, w')"
      "engine_reach K w'" "w_targets w' = w_targets w1" "list_all2 (outcome_ok w') frontends outs"
      using apply_frontends_outcome [OF assms(2), of w1] ta by blast
    have "applyConfig ?P E bg cfg w = Some (None, outs, w')"
      using a None f(1) assms(3,4) by (simp add: applyConfig_def)
    with f ta None show ?thesis by auto
  qed
qed

text \<open>
  C36. Applying a configuration never blocks, whatever the other goroutines do meanwhile. Without an error
  every configured target is registered under its name, and every configured frontend is either reported
  as not created or registered under its name with its start requested or rejected; with an error a
  target could not be created, all targets before it are registered, and no frontend has been tried.
\<close>

theorem applyConfig_outcome:
  assumes "engine_reach K w" and "background K bg"
    and "c_Targets cfg = Some targets" and "c_Frontends cfg = Some frontends"
  shows "\<exists>err outs w'. applyConfig (connft_dataplane K) E bg cfg w = Some (err, outs, w') \<and> engine_reach K w'
    \<and> (case err of
         None \<Rightarrow> (\<forall>t \<in> set targets. map_of (w_targets w') (tc_Name t) \<noteq> None)
           \<and> list_all2 (outcome_ok w') frontends outs
       | Some e \<Rightarrow> \<exists>pre t post ee. targets = pre @ t # post \<and> e = MainCreateTarget (tc_Name t) ee
           \<and> (\<forall>t \<in> set pre. map_of (w_targets w') (tc_Name t) \<noteq> None) \<and> outs = []
           \<and> w_frontends w' = w_frontends w)"
  by (rule apply_outcome [OF assms])

text \<open>The demonstration configuration: one target, one frontend on it, and one that refers to nothing.\<close>

definition demo_config :: ConfigDoc where
  "demo_config = \<lparr>c_Version = ''v1'', c_Log = \<lparr>log_Output = ''stderr'', log_Level = 0\<rparr>, c_Plugins = None,
     c_Targets = Some [demo_target_cfg],
     c_Frontends = Some [demo_frontend_cfg, demo_frontend_cfg\<lparr>fc_Name := ''bad'',
       fc_Endpoint := \<lparr>ref_Namespace = ''none'', ref_Name = ''http''\<rparr>\<rparr>]\<rparr>"

definition demo_env :: apply_env where
  "demo_env = \<lparr>ae_target = (\<lambda>_. Inr 0), ae_targetClose = (\<lambda>_. None), ae_now = (\<lambda>_. (0, 5)),
     ae_frontend = (\<lambda>_. Inr 1), ae_frontendClose = (\<lambda>_. None)\<rparr>"

definition demo_kinds :: "flow list connft world" where
  "demo_kinds = foldl (\<lambda>w c. engine_exec (connft_dataplane accepting_nft) c w)
     (engine_New False demo_target demo_frontend demo_dplane)
     [CallAddTargetKind ''static:none'' (Some 0), CallAddFrontendKind ''static:always'' (Some 0)]"

lemma demo_kinds_reach: "engine_reach accepting_nft demo_kinds"
  unfolding demo_kinds_def by (intro engine_reach_calls engine_reach_init [OF demo_dplane_New])

lemma background_idle: "background K (\<lambda>k w. w)"
  by (simp add: background_def)

theorem applyConfig_outcome_witness:
  "\<exists>outs w'. applyConfig (connft_dataplane accepting_nft) demo_env (\<lambda>k w. w) demo_config demo_kinds = Some (None, outs, w')
    \<and> map_of (w_targets w') ''web'' \<noteq> None \<and> outs \<noteq> []"
proof -
  let ?r = "applyConfig (connft_dataplane accepting_nft) demo_env (\<lambda>k w. w) demo_config demo_kinds"
  have none: "map_option fst ?r = Some None" by code_simp
  obtain err outs w' where r: "?r = Some (err, outs, w')"
    "case err of None \<Rightarrow> (\<forall>t \<in> set [demo_target_cfg]. map_of (w_targets w') (tc_Name t) \<noteq> None)
        \<and> list_all2 (outcome_ok w') (the (c_Frontends demo_config)) outs | Some e \<Rightarrow> True"
    using applyConfig_outcome [OF demo_kinds_reach background_idle, of demo_config "[demo_target_cfg]"
        "the (c_Frontends demo_config)" demo_env]
    by (fastforce simp: demo_config_def split: option.splits)
  with none have "err = None" by simp
  with r show ?thesis by (auto simp: demo_config_def demo_target_cfg_def)
qed

section \<open>Shutting down\<close>

lemma unloadPlugins_calls:
  fixes ps :: "'d loaded_plugin list"
  shows "snd (unloadPlugins ps) = concat (map unload_calls (rev ps))"
proof -
  have step: "snd (foldl (\<lambda>(err, calls) p. (map_option MainJoined (errors_join [err, unloadPlugin p]), calls @ unload_calls p))
      (e, cs) qs) = cs @ concat (map unload_calls qs)" for e cs and qs :: "'d loaded_plugin list"
    by (induction qs arbitrary: e cs) simp_all
  show ?thesis using step [of None "[]" "rev ps"] by (simp add: unloadPlugins_def)
qed

lemma closed_star:
  assumes "(world_step (connft_dataplane K))\<^sup>*\<^sup>* w w'" and "engine_reach K w" and "w_closed w"
  shows "engine_reach K w' \<and> w_closed w'"
  using assms
  by (induction rule: rtranclp_induct) (use closed_step engine_reach_step in blast)+

text \<open>
  Closing the engine, waiting for everything it has created, unloading backwards and closing the
  dataplane leaves no group open.
\<close>

lemma closeDataplane_eq: "closeDataplane P w = w\<lparr>w_dplane := snd (dp_Close P (w_dplane w))\<rparr>"
  by (simp add: closeDataplane_def case_prod_unfold)

lemma shutdown_outcome:
  assumes "engine_reach K w" and "shutdown (connft_dataplane K) plugins w evs uerr w'"
  shows "evs = EvEngineClosed # map EvUnload (concat (map unload_calls (rev plugins))) @ [EvDataplaneClosed]
    \<and> engine_reach K w' \<and> w_closed w' \<and> (\<forall>g. unusable (w_dplane w') g \<and> group_Mappings g (w_dplane w') = [])
    \<and> (\<exists>w1. engine_Wait_returns w1 \<and> (world_step (connft_dataplane K))\<^sup>*\<^sup>* w1 w')"
  using assms(2)
proof cases
  case (1 w1 calls w2)
  let ?P = "connft_dataplane K"
  have reach0: "engine_reach K (engine_Close w)" using engine_reach_exec [OF assms(1), of CallEngineClose] by simp
  have closed0: "w_closed (engine_Close w)" by (simp add: engine_Close_def world_cancel_def)
  have "(world_step ?P)\<^sup>*\<^sup>* (engine_Close w) w2"
    using 1(3,5) unfolding closeEngine_def by (blast intro: rtranclp_trans)
  then have w2: "engine_reach K w2" "w_closed w2" using closed_star reach0 closed0 by blast+
  have last: "world_step ?P w2 w'" unfolding 1(2) closeDataplane_eq by (rule world_step.dclose)
  have w': "engine_reach K w'" "w_closed w'"
    using engine_reach_step [OF w2(1) last] closed_step [OF w2 last] by blast+
  have gone: "unusable (w_dplane w') g" for g
  proof -
    obtain r d where e: "dp_Close ?P (w_dplane w2) = (r, d)" by (cases "dp_Close ?P (w_dplane w2)")
    then have "\<not> live d g" using cdp.dp_close [OF engine_reach_inv [OF w2(1)] e] by blast
    then show ?thesis by (simp add: 1(2) closeDataplane_eq e unusable_iff)
  qed
  moreover have "evs = EvEngineClosed # map EvUnload (concat (map unload_calls (rev plugins))) @ [EvDataplaneClosed]"
    using 1(1,4) unloadPlugins_calls [of plugins] by simp
  moreover have "(world_step ?P)\<^sup>*\<^sup>* w1 w'" using 1(5) last by (rule rtranclp.rtrancl_into_rtrancl)
  ultimately show ?thesis using w' 1(3) by (auto simp: group_Mappings_def closeEngine_def)
qed

text \<open>The plugins that \<open>loadPlugins\<close> remembers, when none of them fails.\<close>

definition loadable :: "'d registry \<Rightarrow> plugin_decl list \<Rightarrow> 'd loaded_plugin list" where
  "loadable reg decls = concat (map (\<lambda>decl. case plugin_Find (pd_Source decl) reg of
      None \<Rightarrow> []
    | Some h \<Rightarrow> if ph_OnLoad h = None then [] else [\<lparr>lp_name = pd_Name decl, lp_handler = h\<rparr>]) decls)"

text \<open>Plugins reach the engine only by its calls.\<close>

definition hooks_ok :: "'n nft_ops \<Rightarrow> 'n connft registry \<Rightarrow> bool" where
  "hooks_ok K reg \<longleftrightarrow> (\<forall>source h onLoad cfg w ns. plugin_Find source reg = Some h \<longrightarrow> ph_OnLoad h = Some onLoad \<longrightarrow>
     engine_reach K w \<longrightarrow> engine_reach K (fst (snd (onLoad cfg w ns))))"

lemma registerKinds_reach:
  assumes "engine_reach K w" and "registerKinds plugin ns w = (err, w')"
  shows "engine_reach K w'"
proof -
  have fes: "engine_reach K w' " if "register_frontends plugin xs w = (err, w')" "engine_reach K w" for xs w err w'
    using that
  proof (induction plugin xs w rule: register_frontends.induct)
    case (2 plugin kind c rest w)
    let ?n = "ref_String \<lparr>ref_Namespace = plugin, ref_Name = kind\<rparr>"
    have "engine_reach K (snd (engine_AddFrontendKind ?n c w))"
      using engine_reach_exec [OF 2(3), of "CallAddFrontendKind ?n c"] by simp
    then show ?case using 2(1,2) by (auto simp: Let_def split: prod.splits option.splits)
  qed simp
  have tgts: "engine_reach K w' " if "register_targets plugin xs w = (err, w')" "engine_reach K w" for xs w err w'
    using that
  proof (induction plugin xs w rule: register_targets.induct)
    case (2 plugin kind c rest w)
    let ?n = "ref_String \<lparr>ref_Namespace = plugin, ref_Name = kind\<rparr>"
    have "engine_reach K (snd (engine_AddTargetKind ?n c w))"
      using engine_reach_exec [OF 2(3), of "CallAddTargetKind ?n c"] by simp
    then show ?case using 2(1,2) by (auto simp: Let_def split: prod.splits option.splits)
  qed simp
  show ?thesis
    using assms fes tgts by (auto simp: registerKinds_def split: prod.splits option.splits)
qed

lemma loadPlugins_outcome:
  assumes "hooks_ok K reg" and "engine_reach K w" and "loadPlugins reg plugins decls loaded0 w = (err, loaded, w')"
  shows "engine_reach K w' \<and> (\<exists>n. loaded = loaded0 @ take n (loadable reg decls)
    \<and> (err = None \<longrightarrow> length (loadable reg decls) \<le> n))"
  using assms(2,3)
proof (induction decls arbitrary: loaded0 w)
  case Nil
  then show ?case by (simp add: loadable_def)
next
  case (Cons decl decls)
  show ?case
  proof (cases "plugin_Find (pd_Source decl) reg")
    case None
    then have "loadable reg (decl # decls) = loadable reg decls" by (simp add: loadable_def)
    with None Cons show ?thesis by simp
  next
    case (Some h)
    let ?ns0 = "\<lparr>ns_Frontends = [], ns_Targets = []\<rparr>"
    let ?own = "if ph_OnLoad h = None then [] else [\<lparr>lp_name = pd_Name decl, lp_handler = h\<rparr>]"
    obtain lerr w1 ns where l: "(case ph_OnLoad h of None \<Rightarrow> (None, w, ?ns0)
        | Some onLoad \<Rightarrow> onLoad (plugin_config plugins (pd_Name decl)) w ?ns0) = (lerr, w1, ns)"
      by (metis prod_cases3)
    obtain rerr w2 where r: "registerKinds (pd_Name decl) ns w1 = (rerr, w2)" by fastforce
    have w1: "engine_reach K w1"
      using l Some Cons.prems(1) assms(1) unfolding hooks_ok_def
      by (cases "ph_OnLoad h") (auto, metis fst_conv snd_conv)
    have w2: "engine_reach K w2" using registerKinds_reach [OF w1 r] .
    have split: "loadable reg (decl # decls) = ?own @ loadable reg decls" using Some by (simp add: loadable_def)
    show ?thesis
    proof (cases lerr)
      case (Some e)
      then have "loaded = loaded0 \<and> w' = w1 \<and> err \<noteq> None"
        using Cons.prems(2) \<open>plugin_Find (pd_Source decl) reg = Some h\<close> l by (auto simp: Let_def)
      with w1 show ?thesis by (auto intro: exI [of _ 0])
    next
      case None
      let ?loaded = "loaded0 @ ?own"
      have *: "(case rerr of Some e \<Rightarrow> (Some (MainRegisterKinds (pd_Name decl) e), ?loaded, w2)
          | None \<Rightarrow> loadPlugins reg plugins decls ?loaded w2) = (err, loaded, w')"
        using Cons.prems(2) Some l r None
        by (cases "ph_OnLoad h") (simp_all add: Let_def split: option.splits)
      show ?thesis
      proof (cases rerr)
        case (Some e)
        with * w2 split show ?thesis by (auto intro!: exI [of _ "length ?own"])
      next
        case None
        with * have "loadPlugins reg plugins decls ?loaded w2 = (err, loaded, w')" by simp
        from Cons.IH [OF w2 this] obtain n where n: "engine_reach K w'" "loaded = ?loaded @ take n (loadable reg decls)"
          "err = None \<longrightarrow> length (loadable reg decls) \<le> n" by blast
        then have "loaded = loaded0 @ take (length ?own + n) (loadable reg (decl # decls))"
          by (simp add: split)
        with n split show ?thesis by (intro conjI exI [of _ "length ?own + n"]) simp_all
      qed
    qed
  qed
qed

text \<open>
  However the daemon's run ends, it cleans up what it has created: it fails before the engine exists and
  then has nothing to close, or it closes the engine first, then unloads the plugins it has loaded, the
  last one first and each once, and closes the dataplane last; then the engine is closed and no group of
  the dataplane is open, so that none holds a mapping. All plugins with an \<open>OnLoad\<close> have been loaded unless
  the error is that of a plugin.
\<close>

theorem daemon_run_cleans_up:
  assumes "hooks_ok K (de_registry D)" and "background K (de_bg D)"
    and tables: "\<And>cfg. loadConfig (de_doc D) = Inr cfg \<Longrightarrow> c_Targets cfg \<noteq> None \<and> c_Frontends cfg \<noteq> None"
    and "daemon_run K D evs err end"
  shows "case end of
      None \<Rightarrow> evs = [] \<and> err \<noteq> None
    | Some w \<Rightarrow> w_closed w \<and> (\<forall>g. unusable (w_dplane w) g \<and> group_Mappings g (w_dplane w) = [])
        \<and> (\<exists>n. (err = None \<longrightarrow> length (loadable (de_registry D) (de_decls D)) \<le> n)
           \<and> evs = EvEngineClosed # map EvUnload
              (concat (map unload_calls (rev (take n (loadable (de_registry D) (de_decls D)))))) @ [EvDataplaneClosed])"
  using assms(4)
proof cases
  case (no_plugins cfg d n e loaded w1 w2 uerr w3)
  have "engine_reach K (daemon_engine D d)"
    unfolding daemon_engine_def by (rule engine_reach_init [OF no_plugins(5)])
  note l = loadPlugins_outcome [OF assms(1) this no_plugins(6) [unfolded daemon_plugins_def]]
  then have "engine_reach K w2" using engine_reach_star no_plugins(7) by blast
  from shutdown_outcome [OF this no_plugins(8)] l no_plugins(1,2) show ?thesis by auto
next
  case (scope cfg d n loaded w1 serr w2 w3 uerr w4)
  have "engine_reach K (daemon_engine D d)"
    unfolding daemon_engine_def by (rule engine_reach_init [OF scope(5)])
  note l = loadPlugins_outcome [OF assms(1) this scope(6) [unfolded daemon_plugins_def]]
  obtain targets frontends where tf: "c_Targets cfg = Some targets" "c_Frontends cfg = Some frontends"
    using tables [OF scope(3)] by blast
  obtain serr' outs w' where a: "applyConfig (connft_dataplane K) (de_apply D) (de_bg D) cfg w1 = Some (serr', outs, w')"
    "engine_reach K w'"
    using apply_outcome [OF _ assms(2) tf] l by blast
  have "engine_reach K w2"
    using scope(7)
  proof cases
    case (signalled outs1 w1' w2')
    then have "engine_reach K w2'" using a engine_reach_star by auto
    then show ?thesis unfolding signalled(2) by (rule engine_reach_step) (rule world_step.parent)
  qed (use a in auto)
  then have "engine_reach K w3" using engine_reach_star scope(8) by blast
  from shutdown_outcome [OF this scope(9)] l scope(2) show ?thesis by auto
qed simp_all

text \<open>The static plugin and a configuration without targets, ended by the signal.\<close>

definition demo_daemon :: "flow list daemon_env" where
  "demo_daemon = \<lparr>de_doc = Inr \<lparr>c_Version = ''v1'', c_Log = \<lparr>log_Output = ''stderr'', log_Level = 0\<rparr>,
       c_Plugins = Some [], c_Targets = Some [], c_Frontends = Some []\<rparr>,
     de_logErr = None, de_nft = [], de_registry = [(''static'', static_handler 0 1 2 3)],
     de_decls = [\<lparr>pd_Source = ''static'', pd_Name = ''static''\<rparr>], de_apply = demo_env, de_bg = (\<lambda>k w. w),
     de_target = demo_target, de_frontend = demo_frontend\<rparr>"

lemma demo_daemon_run:
  "\<exists>w. daemon_run accepting_nft demo_daemon [EvEngineClosed, EvUnload ''static'', EvDataplaneClosed] None (Some w)"
  "hooks_ok accepting_nft (de_registry demo_daemon)" "background accepting_nft (de_bg demo_daemon)"
  "\<And>cfg. loadConfig (de_doc demo_daemon) = Inr cfg \<Longrightarrow> c_Targets cfg \<noteq> None \<and> c_Frontends cfg \<noteq> None"
proof -
  let ?D = demo_daemon and ?K = accepting_nft and ?P = "connft_dataplane accepting_nft"
  define cfg where "cfg = projr (loadConfig (de_doc ?D))"
  define lp where "lp = daemon_plugins ?D cfg demo_dplane"
  define w0 where "w0 = snd (snd lp)"
  define wc where "wc = engine_Close (world_cancel w0)"
  have c: "loadConfig (de_doc ?D) = Inr cfg" "c_Targets cfg = Some []" "c_Frontends cfg = Some []"
    unfolding cfg_def by (code_simp, code_simp, code_simp)
  have o: "open_log (log_Output (c_Log cfg)) (de_logErr ?D) = None" unfolding cfg_def by code_simp
  have nft: "de_nft ?D = []" by (simp add: demo_daemon_def)
  have none: "fst lp = None" and calls: "unloadPlugins (fst (snd lp)) = (None, [''static''])"
    and cnt: "w_ntgt w0 = 0" "w_nfe w0 = 0"
    unfolding w0_def lp_def cfg_def by code_simp+
  have lp: "daemon_plugins ?D cfg demo_dplane = (None, fst (snd lp), w0)"
    using none unfolding w0_def by (metis lp_def prod.collapse)
  have "applyConfig ?P (de_apply ?D) (de_bg ?D) cfg w0 = Some (None, [], w0)" by (simp add: applyConfig_def c)
  then have rs: "resource_scope ?P (de_apply ?D) (de_bg ?D) cfg w0 None (world_cancel w0)"
    by (rule resource_scope.signalled) simp
  have "engine_Wait_returns wc"
    using cnt by (simp add: engine_Wait_returns_def wc_def engine_Close_def world_cancel_def)
  then have ce: "closeEngine ?P (world_cancel w0) wc" by (simp add: closeEngine_def wc_def)
  have sd: "shutdown ?P (fst (snd lp)) (world_cancel w0)
      ([EvEngineClosed] @ map EvUnload [''static''] @ [EvDataplaneClosed]) None
      (wc\<lparr>w_dplane := snd (dp_Close ?P (w_dplane wc))\<rparr>)"
    unfolding closeDataplane_eq [symmetric] by (rule shutdown.intros [OF ce calls rtranclp.rtrancl_refl])
  have joined: "errors_join [None, None :: main_error option] = None" by simp
  have "daemon_run ?K ?D [EvEngineClosed, EvUnload ''static'', EvDataplaneClosed] None
      (Some (wc\<lparr>w_dplane := snd (dp_Close ?P (w_dplane wc))\<rparr>))"
    using daemon_run.scope [OF c(1) o demo_dplane_New [folded nft] lp rs _ sd] joined by simp
  then show "\<exists>w. daemon_run ?K ?D [EvEngineClosed, EvUnload ''static'', EvDataplaneClosed] None (Some w)" by blast
  show "hooks_ok ?K (de_registry ?D)"
    by (auto simp: hooks_ok_def demo_daemon_def plugin_Find_def static_handler_def static_OnLoad_def split: if_splits)
  show "background ?K (de_bg ?D)" by (simp add: demo_daemon_def background_idle)
  show "\<And>cfg'. loadConfig (de_doc ?D) = Inr cfg' \<Longrightarrow> c_Targets cfg' \<noteq> None \<and> c_Frontends cfg' \<noteq> None"
    using c by simp
qed

theorem daemon_run_cleans_up_witness:
  "\<exists>w. daemon_run accepting_nft demo_daemon [EvEngineClosed, EvUnload ''static'', EvDataplaneClosed] None (Some w)
     \<and> w_closed w \<and> (\<forall>g. unusable (w_dplane w) g)"
  using demo_daemon_run(1) daemon_run_cleans_up [OF demo_daemon_run(2-4)] by fastforce



section \<open>A plugin that is never unloaded\<close>

text \<open>
  A plugin without \<open>OnLoad\<close> is not remembered as loaded: its \<open>OnUnload\<close> is not called at shutdown,
  though its hooks are documented as independent of each other.
\<close>

lemma unload_only_plugin_forgotten:
  assumes "plugin_Find (pd_Source decl) reg = Some \<lparr>ph_OnLoad = None, ph_OnUnload = Some r\<rparr>"
  shows "loadPlugins reg plugins [decl] loaded w = (None, loaded, w)"
  using assms by (simp add: registerKinds_def)

section \<open>The generated plugins\<close>

text \<open>
  The repository's \<open>plugin.yaml\<close>, decoded, the beginning of its \<open>go.mod\<close>, and the registry once both
  packages are initialised.
\<close>

definition repo_yaml :: yaml_node where
  "repo_yaml = YNode DocumentNode '''' [YNode MappingNode '''' [scalar ''plugins'',
     YNode MappingNode '''' [scalar ''ctl'', scalar ''ctl'', scalar ''static'', scalar ''static'']]]"

definition repo_mod :: string where
  "repo_mod = ''module github.com/UselessMnemonic/proxygw'' @ nl @ nl @ ''go 1.25.0'' @ nl"

definition builtin_registry :: "(ctl_error \<Rightarrow> string) \<Rightarrow> (any_options \<Rightarrow> string option) \<Rightarrow> 'd registry" where
  "builtin_registry render listen = snd (static_init 0 1 2 3 (snd (ctl_init render listen [])))"



end
