(* ===== verification/Static_Handlers.thy ===== *)
theory Static_Handlers
  imports Config_Validate
begin

text \<open>
  The handlers of the static plugin: \<open>frontends/always.go\<close>, \<open>frontends/http.go\<close>, \<open>targets/cmd.go\<close> and
  \<open>targets/none.go\<close>. The clock, the HTTP server, the operating system's processes and the listener are
  the standard library's; what they answer is an argument of the operations or a step of its own.
  Logging is left out.
\<close>

section \<open>The always frontend\<close>

datatype alwaysCommand = AlwaysStart | AlwaysStop | AlwaysClose

text \<open>
  \<open>ah_ch\<close> counts the tokens in the channel of capacity one; \<open>ah_closed\<close> is only touched by the caller of
  the methods. The loop is in its \<open>select\<close>, has received a command or has returned; \<open>ah_running\<close> is its
  variable and \<open>ah_ticking\<close> whether its ticker runs.
\<close>

datatype always_pc = ASelect | AGot alwaysCommand | AReturned

record always_handler =
  ah_ch :: nat
  ah_closed :: bool
  ah_pc :: always_pc
  ah_running :: bool
  ah_ticking :: bool

definition NewAlwaysHandler :: always_handler where
  "NewAlwaysHandler = \<lparr>ah_ch = 0, ah_closed = False, ah_pc = ASelect, ah_running = False, ah_ticking = False\<rparr>"

text \<open>The command channel has no buffer: a send meets the loop in its \<open>select\<close> or waits for it.\<close>

definition always_send :: "alwaysCommand \<Rightarrow> always_handler \<Rightarrow> always_handler option" where
  "always_send c h = (if ah_pc h = ASelect then Some (h\<lparr>ah_pc := AGot c\<rparr>) else None)"

definition always_Start :: "always_handler \<Rightarrow> always_handler option" where
  "always_Start h = (if ah_closed h then Some h else always_send AlwaysStart h)"

definition always_Stop :: "always_handler \<Rightarrow> always_handler option" where
  "always_Stop h = (if ah_closed h then Some h else always_send AlwaysStop h)"

definition always_Close :: "always_handler \<Rightarrow> always_handler option" where
  "always_Close h = (if ah_closed h then Some h else always_send AlwaysClose (h\<lparr>ah_closed := True\<rparr>))"

definition always_command :: "alwaysCommand \<Rightarrow> always_handler \<Rightarrow> always_handler" where
  "always_command c h =
     (case c of
        AlwaysStart \<Rightarrow>
          (if \<not> ah_running h then h\<lparr>ah_ticking := True, ah_running := True, ah_pc := ASelect\<rparr>
           else h\<lparr>ah_pc := ASelect\<rparr>)
      | AlwaysStop \<Rightarrow>
          (if ah_running h then h\<lparr>ah_ticking := False, ah_running := False, ah_pc := ASelect\<rparr>
           else h\<lparr>ah_pc := ASelect\<rparr>)
      | AlwaysClose \<Rightarrow> h\<lparr>ah_ticking := False, ah_pc := AReturned\<rparr>)"

text \<open>A tick: the token is dropped when the channel is full.\<close>

definition always_tick :: "always_handler \<Rightarrow> always_handler" where
  "always_tick h = (if ah_running h \<and> ah_ch h < 1 then h\<lparr>ah_ch := Suc (ah_ch h)\<rparr> else h)"

datatype always_event = ASent alwaysCommand | ADone alwaysCommand | ATick | AWarm | AIgnored

text \<open>
  \<open>ASent\<close>: a method hands its command to the loop, \<open>ADone\<close>: the loop has handled it, \<open>AWarm\<close>: the frontend
  receives from \<open>ShouldWarm\<close>, \<open>AIgnored\<close>: a method of the closed handler returns.
\<close>

inductive always_step :: "always_handler \<Rightarrow> always_event \<Rightarrow> always_handler \<Rightarrow> bool" where
  start: "always_Start h = Some h' \<Longrightarrow> \<not> ah_closed h \<Longrightarrow> always_step h (ASent AlwaysStart) h'"
| stop: "always_Stop h = Some h' \<Longrightarrow> \<not> ah_closed h \<Longrightarrow> always_step h (ASent AlwaysStop) h'"
| close: "always_Close h = Some h' \<Longrightarrow> \<not> ah_closed h \<Longrightarrow> always_step h (ASent AlwaysClose) h'"
| ignored: "ah_closed h \<Longrightarrow> Some h' \<in> {always_Start h, always_Stop h, always_Close h} \<Longrightarrow>
    always_step h AIgnored h'"
| command: "ah_pc h = AGot c \<Longrightarrow> always_step h (ADone c) (always_command c h)"
| tick: "ah_pc h = ASelect \<Longrightarrow> ah_ticking h \<Longrightarrow> always_step h ATick (always_tick h)"
| should_warm: "ah_ch h = Suc n \<Longrightarrow> always_step h AWarm (h\<lparr>ah_ch := n\<rparr>)"

inductive always_run :: "always_event list \<Rightarrow> always_handler \<Rightarrow> bool" where
  init: "always_run [] NewAlwaysHandler"
| step: "always_run tr h \<Longrightarrow> always_step h e h' \<Longrightarrow> always_run (tr @ [e]) h'"

section \<open>The http frontend\<close>

text \<open>
  \<open>hh_warm\<close> counts the tokens of a channel of capacity one; \<open>hh_server\<close> is the server that \<open>Start\<close> has
  stored. A pattern that \<open>ServeMux\<close> does not accept panics; \<open>pattern_ok\<close> stands for its parser.
\<close>

record http_handler =
  hh_address :: addr_port
  hh_content :: string
  hh_endpoint :: string
  hh_warm :: nat
  hh_server :: "nat option"

datatype 'a go_call = Returns 'a | Panics string

definition http_Start ::
    "(string \<Rightarrow> bool) \<Rightarrow> string option \<Rightarrow> nat \<Rightarrow> http_handler \<Rightarrow> (string option \<times> http_handler) go_call" where
  "http_Start pattern_ok lerr server h =
     (if hh_server h \<noteq> None then Returns (None, h)
      else case lerr of
             Some e \<Rightarrow> Returns (Some e, h)
           | None \<Rightarrow>
               (if \<not> pattern_ok (hh_endpoint h) then Panics ''parsing pattern''
                else Returns (None, h\<lparr>hh_server := Some server\<rparr>)))"

text \<open>\<open>Stop\<close>; what \<open>Shutdown\<close> answers is only logged.\<close>

definition http_Stop :: "string option \<Rightarrow> http_handler \<Rightarrow> string option \<times> http_handler" where
  "http_Stop serr h = (if hh_server h = None then (None, h) else (None, h\<lparr>hh_server := None\<rparr>))"

definition http_Close :: "string option \<Rightarrow> http_handler \<Rightarrow> string option \<times> http_handler" where
  "http_Close serr h = http_Stop serr h"

definition tickWarm :: "http_handler \<Rightarrow> bool \<times> http_handler" where
  "tickWarm h = (if hh_warm h < 1 then (True, h\<lparr>hh_warm := Suc (hh_warm h)\<rparr>) else (False, h))"

text \<open>The function that serves a request: the body it writes and whether a warm signal was queued.\<close>

definition http_serve :: "http_handler \<Rightarrow> string \<times> bool \<times> http_handler" where
  "http_serve h = (let (queued, h') = tickWarm h in (hh_content h, queued, h'))"

datatype http_error = HttpRequiresTCP | HttpContentRequired | HttpEndpointSlash

definition httpEndpointOption :: "any_options \<Rightarrow> http_error + string" where
  "httpEndpointOption options =
     (case as_string options ''endpoint'' of
        None \<Rightarrow> Inr ''/''
      | Some endpoint \<Rightarrow>
          (if endpoint = '''' \<or> hd endpoint \<noteq> CHR ''/'' then Inl HttpEndpointSlash else Inr endpoint))"

definition NewHTTPHandler :: "protocol \<Rightarrow> addr_port \<Rightarrow> any_options \<Rightarrow> http_error + http_handler" where
  "NewHTTPHandler proto address options =
     (if proto \<noteq> ProtocolTCP then Inl HttpRequiresTCP
      else case as_string options ''content'' of
             None \<Rightarrow> Inl HttpContentRequired
           | Some content \<Rightarrow>
               (case httpEndpointOption options of
                  Inl e \<Rightarrow> Inl e
                | Inr endpoint \<Rightarrow>
                    Inr \<lparr>hh_address = address, hh_content = content, hh_endpoint = endpoint,
                         hh_warm = 0, hh_server = None\<rparr>))"

section \<open>The cmd target\<close>

text \<open>
  \<open>ch_cmd\<close> is the command that has been started, \<open>cs_proc\<close> the state of each process: one that has ended
  has left its result in the channel \<open>done\<close> of its command. \<open>Drain\<close> waits for that channel, first with a
  time limit.
\<close>

record cmd_handler =
  ch_command :: string
  ch_cmd :: "nat option"

datatype cmd_error = CmdCommandRequired | CmdStart string

definition NewCmdHandler :: "any_options \<Rightarrow> cmd_error + cmd_handler" where
  "NewCmdHandler options =
     (case as_string options ''command'' of
        None \<Rightarrow> Inl CmdCommandRequired
      | Some command \<Rightarrow>
          (if command = '''' then Inl CmdCommandRequired else Inr \<lparr>ch_command = command, ch_cmd = None\<rparr>))"

definition commandLine :: "string \<Rightarrow> string list" where
  "commandLine command = [''/bin/sh'', ''-c'', command]"

datatype proc = NoProc | Alive "string list" | Ended

datatype cmd_pc = CIdle | CWait nat | CKilled nat

record cmd_state =
  cs_h :: cmd_handler
  cs_pc :: cmd_pc
  cs_next :: nat
  cs_proc :: "nat \<Rightarrow> proc"

text \<open>\<open>Warm\<close>; \<open>serr\<close> is what starting the process answers.\<close>

definition cmd_Warm :: "string option \<Rightarrow> cmd_state \<Rightarrow> cmd_error option \<times> cmd_state" where
  "cmd_Warm serr s =
     (if ch_cmd (cs_h s) \<noteq> None then (None, s)
      else case serr of
             Some e \<Rightarrow> (Some (CmdStart e), s)
           | None \<Rightarrow>
               (let p = cs_next s
                in (None, s\<lparr>cs_h := (cs_h s)\<lparr>ch_cmd := Some p\<rparr>, cs_next := Suc p,
                            cs_proc := (cs_proc s)(p := Alive (commandLine (ch_command (cs_h s))))\<rparr>)))"

datatype signal = Interrupt | Kill

text \<open>
  \<open>Drain\<close> up to its \<open>select\<close>: the signals it sends to the process; \<open>ierr\<close> is what sending the interrupt
  answers. The \<open>Process\<close> of a command that has been started is never \<open>nil\<close>.
\<close>

definition drain_signals :: "string option \<Rightarrow> cmd_state \<Rightarrow> signal list \<times> cmd_state" where
  "drain_signals ierr s =
     (case ch_cmd (cs_h s) of
        None \<Rightarrow> ([], s)
      | Some p \<Rightarrow>
          (if ierr \<noteq> None then [Interrupt, Kill] else [Interrupt],
           s\<lparr>cs_h := (cs_h s)\<lparr>ch_cmd := None\<rparr>, cs_pc := CWait p\<rparr>))"

text \<open>The time limit has passed: \<open>kerr\<close> is what killing the process answers.\<close>

definition drain_timeout :: "string option \<Rightarrow> nat \<Rightarrow> cmd_state \<Rightarrow> cmd_state" where
  "drain_timeout kerr p s = (if kerr \<noteq> None then s\<lparr>cs_pc := CIdle\<rparr> else s\<lparr>cs_pc := CKilled p\<rparr>)"

datatype cmd_event =
    CmdWarmed "cmd_error option"
  | CmdSignals nat "signal list"
  | CmdKill nat "string option"
  | CmdDrained
  | CmdExit nat

inductive cmd_step :: "cmd_state \<Rightarrow> cmd_event \<Rightarrow> cmd_state \<Rightarrow> bool" where
  warm: "cs_pc s = CIdle \<Longrightarrow> cmd_Warm serr s = (e, s') \<Longrightarrow> cmd_step s (CmdWarmed e) s'"
| drained_already: "cs_pc s = CIdle \<Longrightarrow> ch_cmd (cs_h s) = None \<Longrightarrow> cmd_step s CmdDrained s"
| drain: "cs_pc s = CIdle \<Longrightarrow> ch_cmd (cs_h s) = Some p \<Longrightarrow> drain_signals ierr s = (sigs, s') \<Longrightarrow>
    cmd_step s (CmdSignals p sigs) s'"
| in_time: "cs_pc s = CWait p \<Longrightarrow> cs_proc s p = Ended \<Longrightarrow> cmd_step s CmdDrained (s\<lparr>cs_pc := CIdle\<rparr>)"
| timeout: "cs_pc s = CWait p \<Longrightarrow> cmd_step s (CmdKill p kerr) (drain_timeout kerr p s)"
| killed: "cs_pc s = CKilled p \<Longrightarrow> cs_proc s p = Ended \<Longrightarrow> cmd_step s CmdDrained (s\<lparr>cs_pc := CIdle\<rparr>)"
| exits: "cs_proc s p = Alive argv \<Longrightarrow> cmd_step s (CmdExit p) (s\<lparr>cs_proc := (cs_proc s)(p := Ended)\<rparr>)"

definition cmd_start :: "cmd_handler \<Rightarrow> cmd_state" where
  "cmd_start h = \<lparr>cs_h = h, cs_pc = CIdle, cs_next = 0, cs_proc = \<lambda>_. NoProc\<rparr>"

inductive cmd_run :: "cmd_handler \<Rightarrow> cmd_event list \<Rightarrow> cmd_state \<Rightarrow> bool" for h where
  init: "cmd_run h [] (cmd_start h)"
| step: "cmd_run h tr s \<Longrightarrow> cmd_step s e s' \<Longrightarrow> cmd_run h (tr @ [e]) s'"

section \<open>The none target\<close>

definition none_Warm :: "string option" where "none_Warm = None"
definition none_Drain :: "string option" where "none_Drain = None"
definition none_Close :: "string option" where "none_Close = None"

end
