(* ===== verification/Static_Spec.thy ===== *)
theory Static_Spec
  imports Static_Handlers
begin

text \<open>
  Properties of the static plugin's handlers: the bounds of the warm signals of the always frontend, the
  processes a cmd target leaves behind, and what the constructors accept.
\<close>

section \<open>The always frontend\<close>

text \<open>Whether the last command the loop has handled is a start.\<close>

definition started :: "always_event list \<Rightarrow> bool" where
  "started tr = foldl (\<lambda>b e. case e of ADone c \<Rightarrow> c = AlwaysStart | _ \<Rightarrow> b) False tr"

definition ticks :: "always_event list \<Rightarrow> nat" where
  "ticks tr = length (filter (\<lambda>e. e = ATick) tr)"

definition warms :: "always_event list \<Rightarrow> nat" where
  "warms tr = length (filter (\<lambda>e. e = AWarm) tr)"

definition always_inv :: "always_event list \<Rightarrow> always_handler \<Rightarrow> bool" where
  "always_inv tr h \<longleftrightarrow>
     ah_ch h \<le> 1 \<and> warms tr + ah_ch h \<le> ticks tr
     \<and> (ah_closed h \<longleftrightarrow> ah_pc h = AGot AlwaysClose \<or> ah_pc h = AReturned)
     \<and> (ah_pc h \<noteq> AReturned \<longrightarrow> (ah_running h \<longleftrightarrow> started tr) \<and> (ah_ticking h \<longleftrightarrow> started tr))
     \<and> (ah_pc h = AReturned \<longrightarrow> \<not> ah_ticking h)"

lemmas always_calls_def = always_Start_def always_Stop_def always_Close_def always_send_def

lemma trace_counts_snoc [simp]:
  "started (tr @ [e]) = (case e of ADone c \<Rightarrow> c = AlwaysStart | _ \<Rightarrow> started tr)"
  "ticks (tr @ [e]) = ticks tr + (if e = ATick then 1 else 0)"
  "warms (tr @ [e]) = warms tr + (if e = AWarm then 1 else 0)"
  by (simp_all add: started_def ticks_def warms_def split: always_event.split)

lemma always_step_inv:
  assumes "always_step h e h'" and "always_inv tr h"
  shows "always_inv (tr @ [e]) h'"
  using assms
proof cases
  case (command c)
  then show ?thesis using assms(2) by (cases c) (auto simp: always_inv_def always_command_def)
qed (auto simp: always_inv_def always_calls_def always_tick_def split: if_splits)

lemma always_run_inv: "always_run tr h \<Longrightarrow> always_inv tr h"
proof (induction rule: always_run.induct)
  case init
  show ?case by (simp add: always_inv_def NewAlwaysHandler_def started_def ticks_def warms_def)
qed (rule always_step_inv)

text \<open>
  C39. In every run of the always handler at most one warm signal is pending, there are never more of them
  than ticks, a tick happens only while the last command the loop has handled is a start, and each of
  \<open>Start\<close>, \<open>Stop\<close> and \<open>Close\<close> returns at once or as soon as the loop has handled the command it holds.
\<close>

theorem always_handler_bounds:
  assumes "always_run tr h"
  shows "ah_ch h \<le> 1 \<and> warms tr + ah_ch h \<le> ticks tr
    \<and> (\<forall>h'. always_step h ATick h' \<longrightarrow> started tr)
    \<and> (\<forall>m \<in> {always_Start, always_Stop, always_Close}.
         m h \<noteq> None \<or> (\<exists>c. ah_pc h = AGot c \<and> m (always_command c h) \<noteq> None))"
proof -
  have inv: "always_inv tr h" using assms by (rule always_run_inv)
  moreover have "started tr" if "always_step h ATick h'" for h'
    using that inv by cases (simp add: always_inv_def)
  moreover have "m h \<noteq> None \<or> (\<exists>c. ah_pc h = AGot c \<and> m (always_command c h) \<noteq> None)"
    if "m \<in> {always_Start, always_Stop, always_Close}" for m
  proof (cases "ah_pc h")
    case (AGot c)
    then show ?thesis
      using that inv by (cases c) (auto simp: always_inv_def always_calls_def always_command_def)
  qed (use that inv in \<open>auto simp: always_inv_def always_calls_def\<close>)
  ultimately show ?thesis by (simp add: always_inv_def)
qed

text \<open>A started handler, one tick, and its stop.\<close>

definition demo_ticked :: always_handler where
  "demo_ticked = \<lparr>ah_ch = 1, ah_closed = False, ah_pc = ASelect, ah_running = True, ah_ticking = True\<rparr>"

lemma demo_ticked_run: "always_run [ASent AlwaysStart, ADone AlwaysStart, ATick] demo_ticked"
proof -
  let ?h1 = "NewAlwaysHandler\<lparr>ah_pc := AGot AlwaysStart\<rparr>"
  let ?h2 = "always_command AlwaysStart ?h1"
  have "always_run ([] @ [ASent AlwaysStart]) ?h1"
    by (rule always_run.step [OF always_run.init]) (rule always_step.start; simp add: always_calls_def NewAlwaysHandler_def)
  then have "always_run (([] @ [ASent AlwaysStart]) @ [ADone AlwaysStart]) ?h2"
    by (rule always_run.step) (rule always_step.command; simp)
  then have "always_run ((([] @ [ASent AlwaysStart]) @ [ADone AlwaysStart]) @ [ATick]) (always_tick ?h2)"
    by (rule always_run.step) (rule always_step.tick; simp add: always_command_def NewAlwaysHandler_def)
  moreover have "always_tick ?h2 = demo_ticked"
    by (simp add: always_tick_def always_command_def NewAlwaysHandler_def demo_ticked_def)
  ultimately show ?thesis by simp
qed

theorem always_handler_bounds_witness: "ah_ch demo_ticked = 1 \<and> always_Stop demo_ticked \<noteq> None"
proof -
  have "ah_pc demo_ticked = ASelect" "ah_ch demo_ticked = 1" by (simp_all add: demo_ticked_def)
  with always_handler_bounds [OF demo_ticked_run] show ?thesis by auto
qed

text \<open>
  \<open>Stop\<close> pauses the ticks but does not take back a signal that is pending: the frontend warms its target
  once more after it.
\<close>

lemma always_warms_after_stop:
  "\<exists>tr h h'. always_run tr h \<and> \<not> started tr \<and> always_step h AWarm h'"
proof -
  let ?tr = "[ASent AlwaysStart, ADone AlwaysStart, ATick]"
  let ?h1 = "demo_ticked\<lparr>ah_pc := AGot AlwaysStop\<rparr>"
  let ?h2 = "always_command AlwaysStop ?h1"
  have "always_run (?tr @ [ASent AlwaysStop]) ?h1"
    by (rule always_run.step [OF demo_ticked_run]) (rule always_step.stop; simp add: always_calls_def demo_ticked_def)
  then have run: "always_run ((?tr @ [ASent AlwaysStop]) @ [ADone AlwaysStop]) ?h2"
    by (rule always_run.step) (rule always_step.command; simp)
  have "always_step ?h2 AWarm (?h2\<lparr>ah_ch := 0\<rparr>)"
    by (rule always_step.should_warm) (simp add: always_command_def demo_ticked_def)
  moreover have "\<not> started ((?tr @ [ASent AlwaysStop]) @ [ADone AlwaysStop])" by (simp add: started_def)
  ultimately show ?thesis using run by blast
qed

section \<open>The cmd target\<close>

definition is_alive :: "cmd_state \<Rightarrow> nat \<Rightarrow> bool" where
  "is_alive s p = (case cs_proc s p of Alive _ \<Rightarrow> True | _ \<Rightarrow> False)"

text \<open>A process is lost when killing it has failed.\<close>

definition lost :: "cmd_event list \<Rightarrow> nat \<Rightarrow> bool" where
  "lost tr p \<longleftrightarrow> list_ex (\<lambda>e. case e of CmdKill q (Some _) \<Rightarrow> q = p | _ \<Rightarrow> False) tr"

lemma lost_snoc [simp]:
  "lost (tr @ [e]) p \<longleftrightarrow> lost tr p \<or> (case e of CmdKill q (Some _) \<Rightarrow> q = p | _ \<Rightarrow> False)"
  by (auto simp: lost_def)

lemma lost_iff: "lost tr p \<longleftrightarrow> (\<exists>e. CmdKill p (Some e) \<in> set tr)"
  by (induction tr rule: rev_induct) (auto simp: lost_def split: cmd_event.splits option.splits)

definition cmd_inv :: "cmd_handler \<Rightarrow> cmd_event list \<Rightarrow> cmd_state \<Rightarrow> bool" where
  "cmd_inv h tr s \<longleftrightarrow>
     ch_command (cs_h s) = ch_command h
     \<and> (cs_pc s \<noteq> CIdle \<longrightarrow> ch_cmd (cs_h s) = None)
     \<and> (\<forall>p. cs_next s \<le> p \<longrightarrow> cs_proc s p = NoProc)
     \<and> (\<forall>p argv. cs_proc s p = Alive argv \<longrightarrow> argv = commandLine (ch_command h)
          \<and> (ch_cmd (cs_h s) = Some p \<or> cs_pc s = CWait p \<or> cs_pc s = CKilled p \<or> lost tr p))"

lemma cmd_step_inv:
  assumes "cmd_step s e s'" and "cmd_inv h tr s"
  shows "cmd_inv h (tr @ [e]) s'"
  using assms
proof cases
  case (warm serr err)
  then show ?thesis
    using assms(2) by (auto simp: cmd_inv_def cmd_Warm_def Let_def split: if_splits option.splits)
next
  case (drain p ierr sigs)
  then show ?thesis using assms(2) by (auto simp: cmd_inv_def drain_signals_def, blast)
next
  case (timeout p kerr)
  then show ?thesis using assms(2) by (cases kerr) (auto simp: cmd_inv_def drain_timeout_def, blast+)
next
  case (in_time p)
  then show ?thesis using assms(2) by (auto simp: cmd_inv_def, metis proc.distinct(5))
next
  case (killed p)
  then show ?thesis using assms(2) by (auto simp: cmd_inv_def, metis proc.distinct(5))
next
  case (exits p argv)
  then show ?thesis using assms(2) by (auto simp: cmd_inv_def, blast+)
qed (use assms(2) in \<open>auto simp: cmd_inv_def\<close>)

lemma cmd_run_inv:
  assumes "cmd_run h tr s" and "ch_cmd h = None"
  shows "cmd_inv h tr s"
  using assms(1)
proof (induction rule: cmd_run.induct)
  case init
  show ?case using assms(2) by (simp add: cmd_inv_def cmd_start_def)
next
  case (step tr s e s')
  then show ?case using cmd_step_inv by blast
qed

text \<open>
  C40. As long as no kill has failed, a cmd target has at most one process running, it runs the configured
  command, and after a drain or close that has returned none is left running.
\<close>

theorem cmd_one_process:
  assumes "NewCmdHandler options = Inr h" and "cmd_run h tr s" and "\<forall>p e. CmdKill p (Some e) \<notin> set tr"
  shows "(\<forall>p q. is_alive s p \<and> is_alive s q \<longrightarrow> p = q)
    \<and> (\<forall>p argv. cs_proc s p = Alive argv \<longrightarrow>
         Some (argv ! 2) = as_string options ''command'' \<and> take 2 argv = [''/bin/sh'', ''-c''])
    \<and> (cs_pc s = CIdle \<and> ch_cmd (cs_h s) = None \<longrightarrow> (\<forall>p. \<not> is_alive s p))"
proof -
  have new: "ch_cmd h = None" "as_string options ''command'' = Some (ch_command h)"
    using assms(1) by (auto simp: NewCmdHandler_def split: option.splits if_splits)
  have inv: "cmd_inv h tr s" using assms(2) new(1) by (rule cmd_run_inv)
  have held: "argv = commandLine (ch_command h) \<and> (ch_cmd (cs_h s) = Some p \<or> cs_pc s = CWait p \<or> cs_pc s = CKilled p)"
    if "cs_proc s p = Alive argv" for p argv
    using inv assms(3) that by (auto simp: cmd_inv_def lost_iff)
  have idle: "cs_pc s \<noteq> CIdle \<longrightarrow> ch_cmd (cs_h s) = None" using inv by (simp add: cmd_inv_def)
  have alive: "ch_cmd (cs_h s) = Some p \<or> cs_pc s = CWait p \<or> cs_pc s = CKilled p" if "is_alive s p" for p
    using that held [of p] by (auto simp: is_alive_def split: proc.splits)
  have "p = q" if "is_alive s p" "is_alive s q" for p q
    using alive [OF that(1)] alive [OF that(2)] idle by auto
  moreover have "\<not> is_alive s p" if "cs_pc s = CIdle" "ch_cmd (cs_h s) = None" for p
    using alive [of p] that by auto
  moreover have "Some (argv ! 2) = as_string options ''command'' \<and> take 2 argv = [''/bin/sh'', ''-c'']"
    if "cs_proc s p = Alive argv" for p argv
    using held [OF that] new(2) by (simp add: commandLine_def)
  ultimately show ?thesis by blast
qed

definition demo_cmd :: cmd_handler where
  "demo_cmd = \<lparr>ch_command = ''true'', ch_cmd = None\<rparr>"

definition demo_cmd_warm :: cmd_state where
  "demo_cmd_warm = snd (cmd_Warm None (cmd_start demo_cmd))"

lemma demo_cmd_run: "cmd_run demo_cmd ([] @ [CmdWarmed None]) demo_cmd_warm"
proof (rule cmd_run.step [OF cmd_run.init], rule cmd_step.warm)
  show "cs_pc (cmd_start demo_cmd) = CIdle" by (simp add: cmd_start_def)
  show "cmd_Warm None (cmd_start demo_cmd) = (None, demo_cmd_warm)"
    by (simp add: demo_cmd_warm_def cmd_Warm_def cmd_start_def demo_cmd_def Let_def)
qed

theorem cmd_one_process_witness:
  "cs_proc demo_cmd_warm 0 = Alive [''/bin/sh'', ''-c'', ''true''] \<and> {p. is_alive demo_cmd_warm p} = {0}"
proof -
  have new: "NewCmdHandler [(''command'', AnyString ''true'')] = Inr demo_cmd"
    by (simp add: NewCmdHandler_def as_string_def demo_cmd_def)
  have zero: "cs_proc demo_cmd_warm 0 = Alive [''/bin/sh'', ''-c'', ''true'']"
    by (simp add: demo_cmd_warm_def cmd_Warm_def cmd_start_def demo_cmd_def Let_def commandLine_def)
  then have "is_alive demo_cmd_warm 0" by (simp add: is_alive_def)
  with cmd_one_process [OF new demo_cmd_run] zero show ?thesis by auto
qed

text \<open>
  A command that has ended by itself still counts as started: the next \<open>Warm\<close> succeeds without starting
  anything.
\<close>

lemma cmd_ended_not_restarted:
  assumes "ch_cmd (cs_h s) = Some p" and "cs_proc s p = Ended"
  shows "cmd_Warm serr s = (None, s)"
  using assms by (simp add: cmd_Warm_def)

section \<open>Constructors\<close>

lemma httpEndpointOption_iff:
  "httpEndpointOption options = Inr ep \<longleftrightarrow>
     (case as_string options ''endpoint'' of None \<Rightarrow> ep = ''/'' | Some e \<Rightarrow> e = ep \<and> (\<exists>rest. e = CHR ''/'' # rest))"
  by (cases "as_string options ''endpoint''"; cases "the (as_string options ''endpoint'')")
    (auto simp: httpEndpointOption_def)

text \<open>
  An http handler is created exactly for TCP with a content, and an endpoint that, if given, starts
  with a slash; it then serves that content at that path (or at the root), is stopped and has no warm
  signal pending. A cmd handler is created exactly for a command that is not empty.
\<close>

theorem static_constructors_accept:
  "(NewHTTPHandler proto address options = Inr h \<longleftrightarrow>
      proto = ProtocolTCP \<and> as_string options ''content'' = Some (hh_content h) \<and> hh_address h = address
      \<and> (case as_string options ''endpoint'' of
           None \<Rightarrow> hh_endpoint h = ''/''
         | Some e \<Rightarrow> e = hh_endpoint h \<and> (\<exists>rest. e = CHR ''/'' # rest))
      \<and> hh_warm h = 0 \<and> hh_server h = None)
   \<and> (NewCmdHandler options = Inr c \<longleftrightarrow>
        as_string options ''command'' = Some (ch_command c) \<and> ch_command c \<noteq> '''' \<and> ch_cmd c = None)"
proof -
  have "NewHTTPHandler proto address options = Inr h \<longleftrightarrow>
      proto = ProtocolTCP \<and> as_string options ''content'' = Some (hh_content h) \<and> hh_address h = address
      \<and> httpEndpointOption options = Inr (hh_endpoint h) \<and> hh_warm h = 0 \<and> hh_server h = None"
    by (cases h) (auto simp: NewHTTPHandler_def split: option.split sum.split)
  moreover have "NewCmdHandler options = Inr c \<longleftrightarrow>
      as_string options ''command'' = Some (ch_command c) \<and> ch_command c \<noteq> '''' \<and> ch_cmd c = None"
    by (cases c) (auto simp: NewCmdHandler_def split: option.split)
  ultimately show ?thesis by (simp add: httpEndpointOption_iff)
qed

section \<open>The http frontend\<close>

text \<open>
  Starting and stopping an http frontend; an endpoint that starts with a slash but is not a pattern of
  \<open>ServeMux\<close> is accepted by the constructor and panics in \<open>Start\<close>.
\<close>

lemma http_Stop_stops: "fst (http_Close serr h) = None \<and> hh_server (snd (http_Close serr h)) = None"
  by (simp add: http_Close_def http_Stop_def)

lemma http_serve_warm: "hh_warm h \<le> 1 \<Longrightarrow>
    http_serve h = (hh_content h, hh_warm h = 0, h\<lparr>hh_warm := 1\<rparr>)"
  by (cases "hh_warm h") (auto simp: http_serve_def tickWarm_def)

lemma http_Start_panics:
  assumes "NewHTTPHandler proto address options = Inr h" and "\<not> pattern_ok (hh_endpoint h)"
  shows "http_Start pattern_ok None server h = Panics ''parsing pattern''"
proof -
  have "hh_server h = None"
    using assms(1) by (auto simp: NewHTTPHandler_def split: option.splits sum.splits if_splits)
  with assms(2) show ?thesis by (simp add: http_Start_def)
qed

end
