(* ===== verification/Spec2Isabelle.thy ===== *)
theory Spec2Isabelle
  imports Config_Spec Dataplane_Spec Target_Spec Frontend_Spec Engine_Spec Gateway_Spec
    Ipc_Spec Ctl_Spec Conn_Spec Ctl_Listen Ctl_Cli Daemon_Spec Static_Spec
begin

text \<open>
  A verification development for proxygw, a gateway daemon that forwards connections to targets which it
  starts on demand and stops when they are idle.

  \<^bold>\<open>The program.\<close> The daemon (\<open>cmd/proxygw\<close>) reads a configuration (\<open>pkg/config\<close>), opens a dataplane
  (\<open>pkg/dataplane\<close>, implemented over nftables and conntrack in \<open>pkg/dataplane/connft\<close>), creates an engine
  (\<open>pkg/engine\<close>), loads its plugins (\<open>internal/plugin\<close>, \<open>plugin/ctl\<close>, \<open>plugin/static\<close>) and creates what the
  configuration names: targets (\<open>pkg/target\<close>), each with a group of the dataplane, and frontends
  (\<open>pkg/frontend\<close>), each with one DNAT mapping in the group of its target. A frontend's handler asks for
  its target to be warmed; the engine polls conntrack for groups without flows and drains targets that
  have been idle for their timeout. \<open>proxygwctl\<close> asks the daemon for its status over the protocol of
  \<open>plugin/ctl/ipc\<close>.

  \<^bold>\<open>Conventions.\<close> A Go struct is a record, an enumeration or an interface's variants a datatype, an integer
  of fixed width a word, a Go map an association list with distinct keys (\<open>gomap\<close> in \<^verbatim>\<open>Prelude\<close>) whose
  order the environment may change at any time, a string the list of its bytes. An error is a value of
  the component's own error type; a call that panics or blocks for ever has the result \<^const>\<open>None\<close> or
  a constructor of its own. Pointers to shared objects are indices into a store. Concurrency is an
  inductive step relation in which every lock-protected method and every section of a loop between two
  blocking points is one step; the properties hold for every interleaving of them. What handlers,
  constructors, clocks, sockets, files and libraries answer is an argument or a label, so it ranges over
  everything.

  \<^bold>\<open>The theories\<close>, in the order of the code's layers:

  \<^item> \<^verbatim>\<open>Prelude\<close>, \<^verbatim>\<open>Go_Netip\<close>, \<^verbatim>\<open>Go_Time\<close>, \<^verbatim>\<open>Go_Strings\<close>: what the sources use of Go and its library (maps,
    \<open>errors.Join\<close>, decimal and big-endian numerals, \<open>netip\<close>, \<open>time.ParseDuration\<close>, \<open>strings\<close>).
  \<^item> \<^verbatim>\<open>Config\<close>, \<^verbatim>\<open>Config_Validate\<close>, \<^verbatim>\<open>Config_Spec\<close>: \<open>pkg/config\<close>. Text forms read back exactly; \<open>Validate\<close> accepts
    exactly the documents described by a declarative predicate.
  \<^item> \<^verbatim>\<open>Dnat_Mapping\<close> (\<open>pkg/dataplane/mapping.go\<close>), \<^verbatim>\<open>Nft_Rules\<close> (\<open>connft_nft_rules.go\<close>): validity and overlap of
    mappings, the packets a mapping claims, and the injectivity of the encodings of set elements.
  \<^item> \<^verbatim>\<open>Dataplane\<close>: the interfaces \<open>Dataplane\<close> and \<open>Group\<close> as a record of operations, their contract as the
    locale \<open>dataplane_contract\<close>.
  \<^item> \<^verbatim>\<open>Connft\<close>, \<^verbatim>\<open>Connft_Tables\<close>, \<^verbatim>\<open>Connft_Inv\<close>, \<^verbatim>\<open>Connft_Ops\<close>, \<^verbatim>\<open>Connft_Contract\<close>, \<^verbatim>\<open>Dataplane_Spec\<close>: connft. The
    abstraction \<open>tables\<close> forgets the nftables side; the invariant (live groups are the registered ones,
    mappings are valid and never overlap) is kept by every operation whatever nftables answers; connft
    interprets the contract; the properties describe each operation on success and failure.
  \<^item> \<^verbatim>\<open>Target\<close>, \<^verbatim>\<open>Target_Inv\<close>, \<^verbatim>\<open>Target_Spec\<close> and \<^verbatim>\<open>Frontend\<close>, \<^verbatim>\<open>Frontend_Spec\<close>: methods and event loops. Requests never
    block, handlers see a well-formed sequence of calls, the DNAT switch follows the state of a target,
    and closing ends the loop.
  \<^item> \<^verbatim>\<open>Engine\<close>, \<^verbatim>\<open>Engine_Inv\<close>, \<^verbatim>\<open>Engine_Spec\<close>: \<open>pkg/engine\<close> with all it owns in one world. The invariant of the world
    is proved inside the contract's locale and used for connft through its interpretation \<open>cdp\<close>.
  \<^item> \<^verbatim>\<open>Nft_Kernel\<close>, \<^verbatim>\<open>Connft_Sync\<close>, \<^verbatim>\<open>Sync_Ops\<close>: the kernel's side of connft. The documented behaviour of a
    connection (requests are queued, a flush commits all of them or none) is the hypothesis
    \<open>nft_documented\<close>; every operation keeps the committed elements in step with the enabled groups.
  \<^item> \<^verbatim>\<open>Nft_Machine\<close>, \<^verbatim>\<open>Forwarding\<close>, \<^verbatim>\<open>Forwarding_Spec\<close>: what the installed rules and elements do to a packet.
    The evaluation of one expression is a parameter with the hypothesis \<open>nft_machine\<close>; the chain translates
    a packet to the target of the active mapping that claims it.
  \<^item> \<^verbatim>\<open>Gateway_Spec\<close>: engine, dataplane and kernel together. The world changes the dataplane by its calls only,
    so in every reachable world the packets of a frontend reach its endpoint while the target is active.
  \<^item> \<^verbatim>\<open>Ipc_Method\<close>, \<^verbatim>\<open>Ipc_Base\<close>, \<^verbatim>\<open>Ipc_System\<close>, \<^verbatim>\<open>Ipc_Spec\<close>: the control protocol. The main invariant counts where every
    request identifier is; what a response channel holds is the server's answer to its request.
  \<^item> \<^verbatim>\<open>Ctl_Server\<close>, \<^verbatim>\<open>Ctl_Spec\<close>: the control server on the engine. Its state when a request is answered ranges
    over the reports \<open>R\<close> that it may give, so that the protocol's theorems apply to a running engine.
  \<^item> \<^verbatim>\<open>Go_Json\<close>, \<^verbatim>\<open>Ipc_Json\<close>: the JSON codec (\<open>ipc/codec/json.go\<close>) with what it uses of \<open>encoding/json\<close>: UTF-8,
    strings, numbers, printing and parsing of values, and the struct tags of \<open>ipc/method\<close>. Printed values
    read back, and so does every message.
  \<^item> \<^verbatim>\<open>Ipc_Conn\<close>, \<^verbatim>\<open>Conn_Spec\<close>: packets on a stream of bytes, connections and listeners (\<open>ipc/conn.go\<close>,
    \<open>ipc/listener.go\<close>). The interface \<open>packet_stream\<close> is interpreted for JSON: what is written is read packet
    by packet, and a packet with the body \<open>null\<close> panics the reader.
  \<^item> \<^verbatim>\<open>Ctl_Listen\<close>: the life of the ctl plugin (\<open>plugin/ctl/init.go\<close>, \<open>server.go\<close>): listener, accept loop, context and
    the server of each connection; which connections are ever closed.
  \<^item> \<^verbatim>\<open>Ctl_Cli\<close>: \<open>cmd/proxygwctl\<close>, from the configuration to the exit status and the text printed.
  \<^item> \<^verbatim>\<open>Plugins\<close>, \<^verbatim>\<open>Plugin_Gen\<close>, \<^verbatim>\<open>Daemon\<close>, \<^verbatim>\<open>Daemon_Spec\<close>: the plugin registry (it interprets the locale
    \<open>register_once\<close>, as the kind tables of the engine do), the generator of the list of plugins, and the
    daemon: loading, applying the configuration, shutting down.
  \<^item> \<^verbatim>\<open>Static_Handlers\<close>, \<^verbatim>\<open>Static_Spec\<close>: the handlers of the static plugin with the processes and channels they
    own.

  \<^bold>\<open>Parameters.\<close> The record \<open>nft_ops\<close> is the nftables and conntrack connections, \<open>codec\<close> the encoding of a
  message (the theorems about the protocol hold for every one, CBOR included; JSON is the instance
  \<open>json_codec\<close>), \<open>float_text\<close> the texts of floating-point numbers in \<open>strconv\<close>, \<open>exec\<close> the kernel's evaluation of an
  expression, \<open>frac_mult\<close> the one floating-point product of \<open>time.ParseDuration\<close>; \<open>apply_env\<close> and \<open>daemon_env\<close> what
  constructors, clocks and files answer. No assumption is made on them, except, for the theorems about
  the kernel only, \<open>nft_documented\<close> and \<open>nft_machine\<close> (each has a reference instance that satisfies it),
  that a codec fills the struct it is handed (the hypothesis \<open>typed\<close>), that plugins reach the engine only by its calls
  (\<open>hooks_ok\<close>), and that between two calls of the main goroutine the rest of the program only does what it
  may do (\<open>background\<close>). All loops over data are structural or have a measure, except that the
  parser of JSON has fuel: the length of the text plus one, which is enough since every call consumes a
  character, as \<open>parse_print\<close> shows for printed values. Values nest at most \<open>max_nesting\<close> = 10000 deep, the bound
  of \<open>encoding/json\<close>. The loops of
  goroutines are step relations, and the properties about returning say which steps remain.

  \<^bold>\<open>Not modelled.\<close> Logging, the parsing of flags, signals as such and file I/O; the decoding of YAML, the
  bytes of CBOR, the formatter of the generator; the method \<open>ReadTo\<close> of connections, which nothing calls; an
  array given twice in a JSON object, whose second occurrence here starts from an empty slice; the expression types of the nftables library
  beyond the fields the code sets; conntrack's own entries and the hooks through which packets pass (the
  prerouting chain is run on a packet, which chains a packet meets is not decided); the memory model below the locks:
  every access of the modelled state is made under a lock or by one goroutine.
\<close>

end
